(* ===== verification/Prelude.thy ===== *)
theory Prelude
  imports Main "HOL-Library.Word" "HOL-Library.Signed_Division" "HOL-Library.List_Lexorder"
begin

text \<open>
  The vocabulary shared by all components: the types that stand for Go's machine types, Go's
  errors and panics as values of a sum type, signed 64- and 32-bit wrap-around, truncating
  division, the big-endian integers of \<^verbatim>\<open>encoding/binary\<close>, and decimal text of
  \<^verbatim>\<open>strconv\<close>. Nothing here is specific to one component.

  An \<^verbatim>\<open>int64\<close> or \<^verbatim>\<open>int32\<close> of the program is an \<open>int\<close>; every operation of the source that can
  leave the range is wrapped with \<open>i64\<close> or \<open>i32\<close>. A \<^verbatim>\<open>[32]byte\<close> (block and transaction
  identifiers) is a \<open>256 word\<close>, whose big-endian bytes are \<open>id_bytes\<close>.
\<close>

section \<open>Types\<close>

type_synonym byte = "8 word"
type_synonym bytes = "byte list"
type_synonym block_id = "256 word"
type_synonym tx_id = "256 word"

text \<open>
  A Go error is its message; a run-time panic is kept apart from an error return; \<open>IOError\<close> is
  any failure reported by the database or the file system.
\<close>

datatype error = Err string | IOError | Panic string

type_synonym 'a result = "error + 'a"

section \<open>Collections of facts\<close>

named_theorems result_simps \<open>inversion of sequenced results\<close>
named_theorems wrap_simps \<open>wrap-around that does not happen\<close>
named_theorems codec_simps \<open>encode/decode round trips\<close>

section \<open>Sequencing of results\<close>

definition bindE :: "'a result \<Rightarrow> ('a \<Rightarrow> 'b result) \<Rightarrow> 'b result" where
  "bindE m f = (case m of Inl e \<Rightarrow> Inl e | Inr x \<Rightarrow> f x)"

definition bindS :: "'a result \<times> 's \<Rightarrow> ('a \<Rightarrow> 's \<Rightarrow> 'b result \<times> 's) \<Rightarrow> 'b result \<times> 's" where
  "bindS m f = (case m of (Inl e, s) \<Rightarrow> (Inl e, s) | (Inr x, s) \<Rightarrow> f x s)"

lemma bindE_simps [simp]: "bindE (Inl e) f = Inl e" "bindE (Inr x) f = f x"
  by (simp_all add: bindE_def)

lemma bindS_simps [simp]: "bindS (Inl e, s) f = (Inl e, s)" "bindS (Inr x, s) f = f x s"
  by (simp_all add: bindS_def)

lemma bindE_Inr [result_simps]: "bindE m f = Inr y \<longleftrightarrow> (\<exists>x. m = Inr x \<and> f x = Inr y)"
  by (cases m) auto

lemma bindE_Inl [result_simps]:
  "bindE m f = Inl e \<longleftrightarrow> m = Inl e \<or> (\<exists>x. m = Inr x \<and> f x = Inl e)"
  by (cases m) auto

lemma bindS_Inr [result_simps]:
  "bindS m f = (Inr y, s') \<longleftrightarrow> (\<exists>x s. m = (Inr x, s) \<and> f x s = (Inr y, s'))"
  by (cases m; cases "fst m") auto

lemma bindE_assoc: "bindE (bindE m f) g = bindE m (\<lambda>x. bindE (f x) g)"
  by (cases m) auto

lemma bindE_cong [fundef_cong]:
  "m = m' \<Longrightarrow> (\<And>x. m' = Inr x \<Longrightarrow> f x = f' x) \<Longrightarrow> bindE m f = bindE m' f'"
  by (cases m') auto

lemma bindS_cong [fundef_cong]:
  "m = m' \<Longrightarrow> (\<And>x s. m' = (Inr x, s) \<Longrightarrow> f x s = f' x s) \<Longrightarrow> bindS m f = bindS m' f'"
  by (cases m'; cases "fst m'") auto

section \<open>Machine integers\<close>

definition i64 :: "int \<Rightarrow> int" where
  "i64 x = signed_take_bit 63 x"

definition i32 :: "int \<Rightarrow> int" where
  "i32 x = signed_take_bit 31 x"

definition int64 :: "int \<Rightarrow> bool" where
  "int64 x \<longleftrightarrow> - 9223372036854775808 \<le> x \<and> x < 9223372036854775808"

definition int32 :: "int \<Rightarrow> bool" where
  "int32 x \<longleftrightarrow> - 2147483648 \<le> x \<and> x < 2147483648"

lemma i64_id [wrap_simps]: "int64 x \<Longrightarrow> i64 x = x"
  by (simp add: i64_def int64_def signed_take_bit_int_eq_self)

lemma i32_id [wrap_simps]: "int32 x \<Longrightarrow> i32 x = x"
  by (simp add: i32_def int32_def signed_take_bit_int_eq_self)

lemma int64_i64 [simp]: "int64 (i64 x)"
  using signed_take_bit_int_greater_eq_minus_exp [of 63 x] signed_take_bit_int_less_exp [of 63 x]
  by (simp add: i64_def int64_def)

lemma int32_i32 [simp]: "int32 (i32 x)"
  using signed_take_bit_int_greater_eq_minus_exp [of 31 x] signed_take_bit_int_less_exp [of 31 x]
  by (simp add: i32_def int32_def)

lemma i64_small [wrap_simps]: "0 \<le> x \<Longrightarrow> x < 9223372036854775808 \<Longrightarrow> i64 x = x"
  by (simp add: i64_id int64_def)

lemma i32_small [wrap_simps]: "0 \<le> x \<Longrightarrow> x < 2147483648 \<Longrightarrow> i32 x = x"
  by (simp add: i32_id int32_def)

lemma i64_cong: "x mod 18446744073709551616 = y mod 18446744073709551616 \<Longrightarrow> i64 x = i64 y"
  by (simp add: i64_def signed_take_bit_eq_iff_take_bit_eq take_bit_eq_mod)

lemma i64_mod: "i64 x mod 18446744073709551616 = x mod 18446744073709551616"
proof -
  have "take_bit 64 (i64 x) = take_bit 64 x"
    by (simp add: i64_def take_bit_signed_take_bit)
  then show ?thesis
    by (simp add: take_bit_eq_mod)
qed

lemma i64_add_i64: "i64 (i64 x + y) = i64 (x + y)"
  by (rule i64_cong) (metis i64_mod mod_add_left_eq)

text \<open>Go's integer division truncates; on the non-negative values the code divides it is \<open>div\<close>.\<close>

lemma sdiv_nonneg [simp]: "0 \<le> a \<Longrightarrow> 0 < b \<Longrightarrow> (a :: int) sdiv b = a div b"
  by (cases "a = 0") (simp_all add: signed_divide_int_def sgn_if)

lemma smod_nonneg [simp]: "0 \<le> a \<Longrightarrow> 0 < b \<Longrightarrow> (a :: int) smod b = a mod b"
  by (simp add: minus_sdiv_mult_eq_smod [symmetric] minus_div_mult_eq_mod)

end
