(* ===== verification/Encoding.thy ===== *)
theory Encoding
  imports Prelude
begin

text \<open>
  The text and byte encodings the program takes from Go's standard library: \<^verbatim>\<open>encoding/binary\<close>
  big-endian integers, \<^verbatim>\<open>encoding/hex\<close>, \<^verbatim>\<open>encoding/base64\<close> (StdEncoding), \<^verbatim>\<open>strconv.AppendInt\<close>,
  \<^verbatim>\<open>unicode/utf8\<close> and the string escaper of \<^verbatim>\<open>encoding/json\<close> (as of the go 1.12 of go.mod), with
  their round trips and injectivity. They are modelled on bytes, as the program uses them.
\<close>

section \<open>Big-endian integers\<close>

primrec be :: "nat \<Rightarrow> int \<Rightarrow> bytes" where
  "be 0 x = []"
| "be (Suc n) x = word_of_int (x div 2 ^ (8 * n)) # be n x"

definition be_val :: "bytes \<Rightarrow> int" where
  "be_val bs = foldl (\<lambda>a b. a * 256 + uint b) 0 bs"

lemma length_be [simp]: "length (be n x) = n"
  by (induction n) auto

lemma foldl_be: "foldl (\<lambda>a b. a * 256 + uint b) c bs = c * 256 ^ length bs + be_val bs"
proof -
  have *: "foldl (\<lambda>a (b :: byte). a * 256 + uint b) c bs
    = c * 256 ^ length bs + foldl (\<lambda>a b. a * 256 + uint b) 0 bs" for c
  proof (induction bs rule: rev_induct)
    case Nil
    then show ?case by simp
  next
    case (snoc b bs)
    then show ?case by (simp add: algebra_simps)
  qed
  show ?thesis unfolding be_val_def by (rule *)
qed

lemma be_val_Nil [simp]: "be_val [] = 0"
  by (simp add: be_val_def)

lemma be_val_Cons [simp]: "be_val (b # bs) = uint b * 256 ^ length bs + be_val bs"
  using foldl_be [of "uint b" bs] by (simp add: be_val_def)

lemma be_val_be [codec_simps]: "be_val (be n x) = x mod 2 ^ (8 * n)"
proof (induction n)
  case 0
  then show ?case by simp
next
  case (Suc n)
  have "x mod 2 ^ (8 * Suc n) = x mod (2 ^ (8 * n) * 256)"
    by (simp add: power_add mult.commute)
  also have "\<dots> = 2 ^ (8 * n) * (x div 2 ^ (8 * n) mod 256) + x mod 2 ^ (8 * n)"
    by (rule zmod_zmult2_eq) simp
  finally show ?case
    using Suc by (simp add: uint_word_of_int power_mult)
qed

lemma be_val_bounds: "0 \<le> be_val bs" "be_val bs < 256 ^ length bs"
proof (induction bs)
  case Nil
  { case 1 then show ?case by simp }
  { case 2 then show ?case by simp }
next
  case (Cons b bs)
  { case 1 then show ?case using Cons by simp }
  { case 2
    have "uint b + 1 \<le> 256"
      using uint_lt2p [of b] by simp
    then have "(uint b + 1) * 256 ^ length bs \<le> 256 * 256 ^ length bs"
      by (rule mult_right_mono) simp
    then have "uint b * 256 ^ length bs + 256 ^ length bs \<le> 256 * 256 ^ length bs"
      by (simp only: distrib_right mult_1)
    with Cons(2) show ?case
      by (simp only: be_val_Cons length_Cons power_Suc) }
qed

lemma be_be_val [codec_simps]: "length bs = n \<Longrightarrow> be n (be_val bs) = bs"
proof (induction bs arbitrary: n)
  case Nil
  then show ?case by simp
next
  case (Cons b bs)
  have shift: "be m (k * 256 ^ m + x) = be m x" for m k x
  proof -
    have gen: "j \<le> m \<Longrightarrow> be j (k * 256 ^ m + x) = be j x" for j
    proof (induction j)
      case 0
      then show ?case by simp
    next
      case (Suc j)
      then obtain d where d: "m = Suc j + d" by (metis le_Suc_ex)
      have "k * 256 ^ m + x = x + (k * 256 ^ d * 256) * 2 ^ (8 * j)"
        by (simp add: d power_add power_mult)
      then have "(k * 256 ^ m + x) div 2 ^ (8 * j) = k * 256 ^ d * 256 + x div 2 ^ (8 * j)"
        by (simp only: div_mult_self1 [OF power_not_zero [OF zero_neq_numeral [symmetric]]] add.commute)
      moreover have "word_of_int (k * 256 ^ d * 256 + x div 2 ^ (8 * j)) = (word_of_int (x div 2 ^ (8 * j)) :: byte)"
        by (rule word_of_int_eq_iff [THEN iffD2]) (simp add: take_bit_eq_mod)
      ultimately show ?case using Suc by simp
    qed
    show ?thesis by (rule gen) simp
  qed
  from Cons.prems have n: "n = Suc (length bs)" by simp
  have "be_val bs div 256 ^ length bs = 0"
    using be_val_bounds [of bs] by (simp add: div_pos_pos_trivial)
  then have "(uint b * 256 ^ length bs + be_val bs) div 2 ^ (8 * length bs) = uint b"
    by (simp add: power_mult)
  then show ?case
    using Cons.IH [of "length bs"] by (simp add: n shift)
qed

lemma be_eq_iff: "be n x = be n y \<longleftrightarrow> x mod 2 ^ (8 * n) = y mod 2 ^ (8 * n)"
  by (metis be_val_be be_be_val length_be)

text \<open>The bytewise order of keys, which for big-endian integers is the order of the integers.\<close>

lemma append_less_append:
  "length xs = length ys \<Longrightarrow> xs @ a < ys @ b \<longleftrightarrow> xs < ys \<or> xs = ys \<and> a < (b :: bytes)"
  by (induction xs ys rule: list_induct2) auto

lemma be_less_iff: "be n x < be n y \<longleftrightarrow> x mod 2 ^ (8 * n) < y mod 2 ^ (8 * n)"
proof (induction n)
  case 0
  then show ?case by simp
next
  case (Suc n)
  let ?m = "2 ^ (8 * n) :: int"
  have split: "z mod 2 ^ (8 * Suc n) = ?m * (z div ?m mod 256) + z mod ?m" for z
    using zmod_zmult2_eq [of 256 z ?m] by (simp add: power_add mult.commute)
  have bound: "0 \<le> z mod ?m \<and> z mod ?m < ?m" for z by simp
  have lex: "?m * a + r < ?m * b + s \<longleftrightarrow> a < b \<or> a = b \<and> r < s"
    if "0 \<le> r" "r < ?m" "0 \<le> s" "s < ?m" for a b r s
  proof (cases a b rule: linorder_cases)
    case less
    then have "?m * (a + 1) \<le> ?m * b" by (intro mult_left_mono) auto
    with less that show ?thesis by (simp add: distrib_left)
  next
    case greater
    then have "?m * (b + 1) \<le> ?m * a" by (intro mult_left_mono) auto
    with greater that show ?thesis by (simp add: distrib_left)
  qed simp
  have w: "(word_of_int u :: byte) < word_of_int v \<longleftrightarrow> u mod 256 < v mod 256"
    "(word_of_int u :: byte) = word_of_int v \<longleftrightarrow> u mod 256 = v mod 256" for u v
    by (simp_all add: word_less_def uint_word_of_int word_of_int_eq_iff take_bit_eq_mod)
  show ?case
    unfolding split be.simps Cons_less_Cons w lex [OF bound [THEN conjunct1] bound [THEN conjunct2]
      bound [THEN conjunct1] bound [THEN conjunct2]]
    using Suc by simp
qed

lemma between_prefix:
  "p @ a \<le> k \<Longrightarrow> k < p @ b \<Longrightarrow> \<exists>c. k = p @ c \<and> a \<le> c \<and> c < (b :: bytes)"
proof (induction p arbitrary: k)
  case Nil
  then show ?case by simp
next
  case (Cons x p)
  then show ?case by (cases k) auto
qed

lemma append_le_append: "p @ a \<le> p @ b \<longleftrightarrow> a \<le> (b :: bytes)"
  by (induction p) auto

lemma append_less_append_same: "p @ a < p @ b \<longleftrightarrow> a < (b :: bytes)"
  by (induction p) auto

text \<open>The bytes of an identifier, and \<^verbatim>\<open>copy(id[:], bs)\<close> into a zeroed array.\<close>

definition id_bytes :: "256 word \<Rightarrow> bytes" where
  "id_bytes w = be 32 (uint w)"

definition copy32 :: "bytes \<Rightarrow> bytes" where
  "copy32 bs = take 32 (bs @ replicate 32 0)"

definition id_of_bytes :: "bytes \<Rightarrow> 256 word" where
  "id_of_bytes bs = word_of_int (be_val (copy32 bs))"

lemma length_id_bytes [simp]: "length (id_bytes w) = 32"
  by (simp add: id_bytes_def)

lemma length_copy32 [simp]: "length (copy32 bs) = 32"
  by (simp add: copy32_def)

lemma copy32_id [simp]: "length bs = 32 \<Longrightarrow> copy32 bs = bs"
  by (simp add: copy32_def)

lemma id_of_id_bytes [simp, codec_simps]: "id_of_bytes (id_bytes w) = w"
  using uint_lt2p [of w]
  by (simp add: id_of_bytes_def) (simp add: id_bytes_def be_val_be)

lemma id_bytes_inject [simp]: "id_bytes v = id_bytes w \<longleftrightarrow> v = w"
  by (metis id_of_id_bytes)

lemma id_bytes_of_id [codec_simps]: "length bs = 32 \<Longrightarrow> id_bytes (id_of_bytes bs) = bs"
proof -
  assume l: "length bs = 32"
  have "uint (word_of_int (be_val bs) :: 256 word) = be_val bs"
    using be_val_bounds [of bs] l by (simp add: uint_word_of_int)
  with l show ?thesis
    by (simp add: id_of_bytes_def id_bytes_def be_be_val)
qed

text \<open>\<^verbatim>\<open>binary.Write\<close> and \<^verbatim>\<open>binary.Read\<close> of an int64 and an int32.\<close>

definition read_i64 :: "bytes \<Rightarrow> (int \<times> bytes) result" where
  "read_i64 bs = (if length bs < 8 then Inl (Err ''EOF'') else Inr (i64 (be_val (take 8 bs)), drop 8 bs))"

definition read_i32 :: "bytes \<Rightarrow> (int \<times> bytes) result" where
  "read_i32 bs = (if length bs < 4 then Inl (Err ''EOF'') else Inr (i32 (be_val (take 4 bs)), drop 4 bs))"

definition read_array32 :: "bytes \<Rightarrow> (bytes \<times> bytes) result" where
  "read_array32 bs = (if length bs < 32 then Inl (Err ''EOF'') else Inr (take 32 bs, drop 32 bs))"

lemma read_i64_be [codec_simps]: "int64 x \<Longrightarrow> read_i64 (be 8 x @ bs) = Inr (x, bs)"
proof -
  assume x: "int64 x"
  have "i64 (x mod 18446744073709551616) = i64 x"
    by (rule i64_cong) simp
  with x show ?thesis
    by (simp add: read_i64_def be_val_be i64_id)
qed

lemma read_i32_be [codec_simps]: "int32 x \<Longrightarrow> read_i32 (be 4 x @ bs) = Inr (x, bs)"
proof -
  assume x: "int32 x"
  have "i32 (x mod 4294967296) = i32 x"
    by (simp add: i32_def signed_take_bit_eq_iff_take_bit_eq take_bit_eq_mod)
  with x show ?thesis
    by (simp add: read_i32_def be_val_be i32_id)
qed

lemma read_array32_append [codec_simps]: "length a = 32 \<Longrightarrow> read_array32 (a @ bs) = Inr (a, bs)"
  by (simp add: read_array32_def)

lemma be8_inject: "int64 x \<Longrightarrow> int64 y \<Longrightarrow> be 8 x = be 8 y \<longleftrightarrow> x = y"
  by (metis Inr_inject Pair_inject read_i64_be)

lemma be4_inject: "int32 x \<Longrightarrow> int32 y \<Longrightarrow> be 4 x = be 4 y \<longleftrightarrow> x = y"
  by (metis Inr_inject Pair_inject read_i32_be)

section \<open>Text\<close>

text \<open>A string literal of the source as bytes.\<close>

definition str :: "string \<Rightarrow> bytes" where
  "str s = map of_char s"

lemma length_str [simp]: "length (str s) = length s"
  by (simp add: str_def)

subsection \<open>Decimal numbers\<close>

fun digits :: "nat \<Rightarrow> bytes" where
  "digits n = (if n < 10 then [word_of_nat (48 + n)]
     else digits (n div 10) @ [word_of_nat (48 + n mod 10)])"

declare digits.simps [simp del]

definition itoa :: "int \<Rightarrow> bytes" where
  "itoa i = (if i < 0 then 45 # digits (nat (- i)) else digits (nat i))"

definition undigits :: "bytes \<Rightarrow> nat" where
  "undigits bs = foldl (\<lambda>a b. a * 10 + (unat b - 48)) 0 bs"

lemma unat_digit [simp]: "n < 10 \<Longrightarrow> unat (word_of_nat (48 + n) :: byte) = 48 + n"
  by (simp add: unat_of_nat del: of_nat_add)

lemma undigits_digits [simp, codec_simps]: "undigits (digits n) = n"
proof (induction n rule: digits.induct)
  case (1 n)
  show ?case
  proof (cases "n < 10")
    case True
    then show ?thesis
      by (simp add: digits.simps [of n] undigits_def del: of_nat_add)
  next
    case False
    have "n mod 10 < 10" by simp
    then have u: "unat (word_of_nat (48 + n mod 10) :: byte) = 48 + n mod 10"
      by (rule unat_digit)
    from False "1" have "undigits (digits (n div 10)) = n div 10" by simp
    with False u show ?thesis
      by (simp add: digits.simps [of n] undigits_def del: of_nat_add)
  qed
qed

lemma digits_ne_Nil [simp]: "digits n \<noteq> []"
  by (subst digits.simps) simp

lemma digits_range: "b \<in> set (digits n) \<Longrightarrow> 48 \<le> unat b \<and> unat b < 58"
proof (induction n rule: digits.induct)
  case (1 n)
  show ?case
  proof (cases "n < 10")
    case True
    with "1.prems" show ?thesis
      by (auto simp: digits.simps [of n] simp del: of_nat_add)
  next
    case False
    have "n mod 10 < 10" by simp
    then have u: "unat (word_of_nat (48 + n mod 10) :: byte) = 48 + n mod 10"
      by (rule unat_digit)
    from "1.prems" False have "b \<in> set (digits (n div 10)) \<or> b = word_of_nat (48 + n mod 10)"
      by (auto simp: digits.simps [of n] simp del: of_nat_add)
    then show ?thesis
    proof
      assume "b \<in> set (digits (n div 10))"
      with False "1.IH" show ?thesis by simp
    next
      assume "b = word_of_nat (48 + n mod 10)"
      with u show ?thesis by simp
    qed
  qed
qed

lemma length_digits: "n < 10 ^ k \<Longrightarrow> 0 < k \<Longrightarrow> length (digits n) \<le> k"
proof (induction n arbitrary: k rule: digits.induct)
  case (1 n)
  show ?case
  proof (cases "n < 10")
    case True
    with "1.prems" show ?thesis by (simp add: digits.simps [of n])
  next
    case False
    from "1.prems" False obtain j where k: "k = Suc j" "0 < j"
      by (cases k; cases "k - 1") auto
    with "1.prems" have "n div 10 < 10 ^ j" by (simp add: less_mult_imp_div_less mult.commute)
    with False k "1.IH" have "length (digits (n div 10)) \<le> j" by simp
    with False k show ?thesis by (simp add: digits.simps [of n])
  qed
qed

lemma itoa_ne_Nil [simp]: "itoa i \<noteq> []"
  by (simp add: itoa_def)

lemma digits_inject [simp]: "digits m = digits n \<longleftrightarrow> m = n"
  by (metis undigits_digits)

lemma digits_no_minus: "hd (digits n) \<noteq> 45"
proof
  assume "hd (digits n) = 45"
  then have "(45 :: byte) \<in> set (digits n)"
    by (metis digits_ne_Nil list.set_sel(1))
  from digits_range [OF this] show False by simp
qed

lemma itoa_inject [simp]: "itoa i = itoa j \<longleftrightarrow> i = j"
proof
  assume eq: "itoa i = itoa j"
  have "digits m \<noteq> 45 # bs" for m bs
    using digits_no_minus [of m] by auto
  with eq show "i = j"
    by (auto simp: itoa_def split: if_splits dest: sym)
qed simp

lemma length_itoa: "0 \<le> i \<Longrightarrow> i < 10 ^ k \<Longrightarrow> 0 < k \<Longrightarrow> length (itoa i) \<le> k"
  by (simp add: itoa_def length_digits nat_less_iff)

lemma itoa_chars: "b \<in> set (itoa i) \<Longrightarrow> b = 45 \<or> 48 \<le> unat b \<and> unat b < 58"
  by (auto simp: itoa_def dest: digits_range split: if_splits)

subsection \<open>Hexadecimal\<close>

definition hexdig :: "byte \<Rightarrow> byte" where
  "hexdig n = (if n < 10 then 48 + n else 87 + n)"

definition hex_encode :: "bytes \<Rightarrow> bytes" where
  "hex_encode bs = concat (map (\<lambda>b. [hexdig (b div 16), hexdig (b mod 16)]) bs)"

text \<open>\<^verbatim>\<open>fromHexChar\<close> and \<^verbatim>\<open>hex.DecodeString\<close>; \<open>None\<close> is an error.\<close>

definition unhexdig :: "byte \<Rightarrow> byte option" where
  "unhexdig c = (if 48 \<le> c \<and> c \<le> 57 then Some (c - 48)
     else if 97 \<le> c \<and> c \<le> 102 then Some (c - 87)
     else if 65 \<le> c \<and> c \<le> 70 then Some (c - 55) else None)"

fun hex_decode :: "bytes \<Rightarrow> bytes option" where
  "hex_decode [] = Some []"
| "hex_decode [c] = None"
| "hex_decode (a # b # cs) =
     (case unhexdig a of None \<Rightarrow> None | Some h \<Rightarrow>
        (case unhexdig b of None \<Rightarrow> None | Some l \<Rightarrow>
           map_option (\<lambda>r. (h * 16 + l) # r) (hex_decode cs)))"

lemma hex_encode_simps [simp]:
  "hex_encode [] = []"
  "hex_encode (b # bs) = hexdig (b div 16) # hexdig (b mod 16) # hex_encode bs"
  by (simp_all add: hex_encode_def)

lemma length_hex_encode [simp]: "length (hex_encode bs) = 2 * length bs"
  by (induction bs) simp_all

lemma unhexdig_hexdig: "n < 16 \<Longrightarrow> unhexdig (hexdig n) = Some n"
proof -
  assume n: "n < 16"
  have "unat n < 16" using n by (simp add: word_less_nat_alt)
  then have "n \<in> word_of_nat ` {0..<16}"
    by (intro image_eqI [of _ _ "unat n"]) simp_all
  moreover have "\<forall>k \<in> {0..<16}. unhexdig (hexdig (word_of_nat k)) = Some (word_of_nat k)"
    by (simp add: atLeastLessThan_nat_numeral unhexdig_def hexdig_def)
  ultimately show ?thesis by auto
qed

lemma nibbles [simp]: "(b :: byte) div 16 * 16 + b mod 16 = b"
  by (rule div_mult_mod_eq)

lemma byte_div_less: "(b :: byte) div 16 < 16" and byte_mod_less: "(b :: byte) mod 16 < 16"
proof -
  have "unat b < 256" by (rule order_less_le_trans [OF unsigned_less]) simp
  then show "b div 16 < 16" by (simp add: word_less_nat_alt unat_div)
  show "b mod 16 < 16" by (simp add: word_less_nat_alt unat_mod)
qed

lemma hex_decode_encode [simp, codec_simps]: "hex_decode (hex_encode bs) = Some bs"
  by (induction bs) (simp_all add: unhexdig_hexdig byte_div_less byte_mod_less)

lemma hex_encode_inject [simp]: "hex_encode as = hex_encode bs \<longleftrightarrow> as = bs"
  by (metis hex_decode_encode option.inject)

subsection \<open>Base64\<close>

definition b64dig :: "nat \<Rightarrow> byte" where
  "b64dig n = (if n < 26 then word_of_nat (65 + n) else if n < 52 then word_of_nat (71 + n)
     else if n < 62 then word_of_nat (n - 4) else if n = 62 then 43 else 47)"

fun base64 :: "bytes \<Rightarrow> bytes" where
  "base64 [] = []"
| "base64 [a] = [b64dig (unat a div 4), b64dig (unat a mod 4 * 16), 61, 61]"
| "base64 [a, b] = [b64dig (unat a div 4), b64dig (unat a mod 4 * 16 + unat b div 16),
     b64dig (unat b mod 16 * 4), 61]"
| "base64 (a # b # c # r) = b64dig (unat a div 4) # b64dig (unat a mod 4 * 16 + unat b div 16)
     # b64dig (unat b mod 16 * 4 + unat c div 64) # b64dig (unat c mod 64) # base64 r"

subsection \<open>UTF-8\<close>

definition in_range :: "nat \<Rightarrow> nat \<Rightarrow> byte \<Rightarrow> bool" where
  "in_range lo hi b \<longleftrightarrow> lo \<le> unat b \<and> unat b \<le> hi"

text \<open>The length of the well-formed sequence at the head, 0 if there is none.\<close>

definition utf8_len :: "bytes \<Rightarrow> nat" where
  "utf8_len s = (case s of [] \<Rightarrow> 0 | b0 # r \<Rightarrow>
     if unat b0 < 128 then 1
     else if in_range 194 223 b0 then
       (case r of b1 # _ \<Rightarrow> if in_range 128 191 b1 then 2 else 0 | _ \<Rightarrow> 0)
     else if in_range 224 239 b0 then
       (case r of b1 # b2 # _ \<Rightarrow>
          if in_range (if b0 = 224 then 160 else 128) (if b0 = 237 then 159 else 191) b1
             \<and> in_range 128 191 b2 then 3 else 0 | _ \<Rightarrow> 0)
     else if in_range 240 244 b0 then
       (case r of b1 # b2 # b3 # _ \<Rightarrow>
          if in_range (if b0 = 240 then 144 else 128) (if b0 = 244 then 143 else 191) b1
             \<and> in_range 128 191 b2 \<and> in_range 128 191 b3 then 4 else 0 | _ \<Rightarrow> 0)
     else 0)"

function utf8_valid :: "bytes \<Rightarrow> bool" where
  "utf8_valid s = (if s = [] then True else
     if utf8_len s = 0 then False else utf8_valid (drop (utf8_len s) s))"
  by pat_completeness auto
termination
  by (relation "measure length") auto

declare utf8_valid.simps [simp del]

subsection \<open>JSON\<close>

text \<open>The escaper of \<^verbatim>\<open>encoding/json\<close>, with HTML escaping on as \<^verbatim>\<open>json.Marshal\<close> has it.\<close>

definition json_safe :: "byte \<Rightarrow> bool" where
  "json_safe b \<longleftrightarrow> 32 \<le> unat b \<and> unat b < 128 \<and> b \<notin> {34, 38, 60, 62, 92}"

definition json_ascii :: "byte \<Rightarrow> bytes" where
  "json_ascii b = (if json_safe b then [b] else if b = 92 \<or> b = 34 then [92, b]
     else if b = 10 then [92, 110] else if b = 13 then [92, 114] else if b = 9 then [92, 116]
     else [92, 117, 48, 48, hexdig (b div 16), hexdig (b mod 16)])"

function json_escape :: "bytes \<Rightarrow> bytes" where
  "json_escape s = (if s = [] then []
     else if unat (hd s) < 128 then json_ascii (hd s) @ json_escape (tl s)
     else if utf8_len s = 0 then [92, 117, 102, 102, 102, 100] @ json_escape (tl s)
     else if take 3 s = [226, 128, 168] \<or> take 3 s = [226, 128, 169]
       then [92, 117, 50, 48, 50, hexdig (s ! 2 mod 16)] @ json_escape (drop 3 s)
     else take (utf8_len s) s @ json_escape (drop (utf8_len s) s))"
  by pat_completeness auto
termination
  by (relation "measure length") (auto simp: neq_Nil_conv)

declare json_escape.simps [simp del]

definition json_string :: "bytes \<Rightarrow> bytes" where
  "json_string s = [34] @ json_escape s @ [34]"

text \<open>A \<^verbatim>\<open>[]byte\<close>: null when nil, its base64 text otherwise.\<close>

definition json_bytes :: "bytes option \<Rightarrow> bytes" where
  "json_bytes bo = (case bo of None \<Rightarrow> str ''null'' | Some bs \<Rightarrow> [34] @ base64 bs @ [34])"

end
