(* ===== verification/Constants.thy ===== *)
theory Constants
  imports Encoding
begin

text \<open>
  The constants of \<^verbatim>\<open>src/constants.go\<close> that the ledger, the processor and the miner use, under
  their own names. They unfold in the simplifier.
\<close>

definition CRUZBITS_PER_CRUZ :: int where
  [simp]: "CRUZBITS_PER_CRUZ = 100000000"

definition INITIAL_COINBASE_REWARD :: int where
  [simp]: "INITIAL_COINBASE_REWARD = 50 * CRUZBITS_PER_CRUZ"

definition COINBASE_MATURITY :: int where
  [simp]: "COINBASE_MATURITY = 100"

definition INITIAL_TARGET :: bytes where
  "INITIAL_TARGET = str ''00000000ffff0000000000000000000000000000000000000000000000000000''"

definition MAX_FUTURE_SECONDS :: int where
  [simp]: "MAX_FUTURE_SECONDS = 2 * 60 * 60"

definition MAX_MONEY :: int where
  [simp]: "MAX_MONEY = 21000000 * CRUZBITS_PER_CRUZ"

definition RETARGET_INTERVAL :: int where
  [simp]: "RETARGET_INTERVAL = 2016"

definition RETARGET_TIME :: int where
  [simp]: "RETARGET_TIME = 1209600"

definition TARGET_SPACING :: int where
  [simp]: "TARGET_SPACING = 600"

definition NUM_BLOCKS_FOR_MEDIAN_TMESTAMP :: nat where
  [simp]: "NUM_BLOCKS_FOR_MEDIAN_TMESTAMP = 11"

definition BLOCKS_UNTIL_REWARD_HALVING :: int where
  [simp]: "BLOCKS_UNTIL_REWARD_HALVING = 210000"

definition RETARGET_SMA_WINDOW :: int where
  [simp]: "RETARGET_SMA_WINDOW = 144"

definition INITIAL_MAX_TRANSACTIONS_PER_BLOCK :: int where
  [simp]: "INITIAL_MAX_TRANSACTIONS_PER_BLOCK = 10000"

definition BLOCKS_UNTIL_TRANSACTIONS_PER_BLOCK_DOUBLING :: int where
  [simp]: "BLOCKS_UNTIL_TRANSACTIONS_PER_BLOCK_DOUBLING = 105000"

definition MAX_TRANSACTIONS_PER_BLOCK :: int where
  [simp]: "MAX_TRANSACTIONS_PER_BLOCK = 2 ^ 31 - 1"

definition MAX_TRANSACTIONS_PER_BLOCK_EXCEEDED_AT_HEIGHT :: int where
  [simp]: "MAX_TRANSACTIONS_PER_BLOCK_EXCEEDED_AT_HEIGHT = 1852032"

definition BLOCKS_UNTIL_NEW_SERIES :: int where
  [simp]: "BLOCKS_UNTIL_NEW_SERIES = 1008"

definition MAX_MEMO_LENGTH :: nat where
  [simp]: "MAX_MEMO_LENGTH = 100"

definition MAX_NUMBER :: int where
  [simp]: "MAX_NUMBER = 2 ^ 53 - 1"

definition BITCOIN_CASH_RETARGET_ALGORITHM_HEIGHT :: int where
  [simp]: "BITCOIN_CASH_RETARGET_ALGORITHM_HEIGHT = 28861"

definition DEFAULT_CRUZBIT_PORT :: int where
  [simp]: "DEFAULT_CRUZBIT_PORT = 8831"

definition MAX_OUTBOUND_PEER_CONNECTIONS :: nat where
  [simp]: "MAX_OUTBOUND_PEER_CONNECTIONS = 8"

definition MAX_INBOUND_PEER_CONNECTIONS :: nat where
  [simp]: "MAX_INBOUND_PEER_CONNECTIONS = 128"

definition MAX_INBOUND_PEER_CONNECTIONS_FROM_SAME_HOST :: nat where
  [simp]: "MAX_INBOUND_PEER_CONNECTIONS_FROM_SAME_HOST = 4"

definition MAX_TIP_AGE :: int where
  [simp]: "MAX_TIP_AGE = 24 * 60 * 60"

definition MAX_PROTOCOL_MESSAGE_LENGTH :: int where
  [simp]: "MAX_PROTOCOL_MESSAGE_LENGTH = 2 * 1024 * 1024"

definition MAX_TRANSACTIONS_TO_INCLUDE_PER_BLOCK :: nat where
  [simp]: "MAX_TRANSACTIONS_TO_INCLUDE_PER_BLOCK = 10000"

definition MAX_TRANSACTION_QUEUE_LENGTH :: nat where
  [simp]: "MAX_TRANSACTION_QUEUE_LENGTH = MAX_TRANSACTIONS_TO_INCLUDE_PER_BLOCK * 10"

definition MIN_FEE_CRUZBITS :: int where
  [simp]: "MIN_FEE_CRUZBITS = 1000000"

definition MIN_AMOUNT_CRUZBITS :: int where
  [simp]: "MIN_AMOUNT_CRUZBITS = 1000000"

text \<open>The text of the initial target decodes, to the largest target any block may declare.\<close>

definition max_target :: int where
  "max_target = 0xffff * 2 ^ 208"

lemma INITIAL_TARGET_decode:
  "hex_decode INITIAL_TARGET = Some (replicate 4 0 @ [255, 255] @ replicate 26 0)"
  unfolding INITIAL_TARGET_def by code_simp

lemma INITIAL_TARGET_val: "be_val (replicate 4 0 @ [255, 255] @ replicate 26 0) = max_target"
  by code_simp

end
