(* ===== verification/Transaction.thy ===== *)
theory Transaction
  imports Constants
begin

text \<open>
  \<^verbatim>\<open>src/transaction.go\<close>: the transaction record, its JSON text and identifier, signing and
  verification, maturity and expiration, and the series a new transaction gets.

  SHA3-256 and Ed25519 are third-party code and are parameters, the fields of \<open>crypto\<close>. A nil
  byte slice of the program is \<open>None\<close>: a transaction is a coinbase exactly when its sender is nil.
\<close>

record crypto =
  sha3_256 :: "bytes \<Rightarrow> 256 word"
  ed25519_verify :: "bytes \<Rightarrow> bytes \<Rightarrow> bytes \<Rightarrow> bool"
  ed25519_sign :: "bytes \<Rightarrow> bytes \<Rightarrow> bytes"

record transaction =
  tx_Time :: int
  tx_Nonce :: int
  tx_From :: "bytes option"
  tx_To :: "bytes option"
  tx_Amount :: int
  tx_Fee :: int
  tx_Memo :: bytes
  tx_Matures :: int
  tx_Expires :: int
  tx_Series :: int
  tx_Signature :: "bytes option"

definition octets :: "bytes option \<Rightarrow> bytes" where
  "octets b = (case b of None \<Rightarrow> [] | Some bs \<Rightarrow> bs)"

lemma octets_simps [simp]: "octets None = []" "octets (Some bs) = bs"
  by (simp_all add: octets_def)

section \<open>The JSON text and the identifier\<close>

definition json_key :: "string \<Rightarrow> bytes" where
  "json_key k = [34] @ str k @ [34, 58]"

text \<open>A field with \<^verbatim>\<open>omitempty\<close> is left out, with the comma before it, when its value is empty.\<close>

definition json_opt :: "bool \<Rightarrow> string \<Rightarrow> bytes \<Rightarrow> bytes" where
  "json_opt omit k v = (if omit then [] else [44] @ json_key k @ v)"

definition tx_json :: "transaction \<Rightarrow> bytes" where
  "tx_json tx = [123] @ json_key ''time'' @ itoa (tx_Time tx)
     @ json_opt False ''nonce'' (itoa (tx_Nonce tx))
     @ json_opt (octets (tx_From tx) = []) ''from'' (json_bytes (tx_From tx))
     @ json_opt False ''to'' (json_bytes (tx_To tx))
     @ json_opt False ''amount'' (itoa (tx_Amount tx))
     @ json_opt (tx_Fee tx = 0) ''fee'' (itoa (tx_Fee tx))
     @ json_opt (tx_Memo tx = []) ''memo'' (json_string (tx_Memo tx))
     @ json_opt (tx_Matures tx = 0) ''matures'' (itoa (tx_Matures tx))
     @ json_opt (tx_Expires tx = 0) ''expires'' (itoa (tx_Expires tx))
     @ json_opt False ''series'' (itoa (tx_Series tx))
     @ json_opt (octets (tx_Signature tx) = []) ''signature'' (json_bytes (tx_Signature tx))
     @ [125]"

definition tx_ID :: "crypto \<Rightarrow> transaction \<Rightarrow> tx_id" where
  "tx_ID cr tx = sha3_256 cr (tx_json (tx\<lparr>tx_Signature := None\<rparr>))"

definition Sign :: "crypto \<Rightarrow> bytes \<Rightarrow> transaction \<Rightarrow> transaction result" where
  "Sign cr privKey tx =
     (if length privKey \<noteq> 64 then Inl (Panic ''ed25519: bad private key length'')
      else Inr (tx\<lparr>tx_Signature := Some (ed25519_sign cr privKey (id_bytes (tx_ID cr tx)))\<rparr>))"

definition Verify :: "crypto \<Rightarrow> transaction \<Rightarrow> bool result" where
  "Verify cr tx =
     (if length (octets (tx_From tx)) \<noteq> 32 then Inl (Panic ''ed25519: bad public key length'')
      else Inr (ed25519_verify cr (octets (tx_From tx)) (id_bytes (tx_ID cr tx)) (octets (tx_Signature tx))))"

definition IsCoinbase :: "transaction \<Rightarrow> bool" where
  "IsCoinbase tx \<longleftrightarrow> tx_From tx = None"

definition Contains :: "transaction \<Rightarrow> bytes \<Rightarrow> bool" where
  "Contains tx pubKey \<longleftrightarrow>
     (if \<not> IsCoinbase tx \<and> pubKey = octets (tx_From tx) then True else pubKey = octets (tx_To tx))"

definition IsMature :: "transaction \<Rightarrow> int \<Rightarrow> bool" where
  "IsMature tx height \<longleftrightarrow> (if tx_Matures tx = 0 then True else tx_Matures tx \<ge> height)"

definition IsExpired :: "transaction \<Rightarrow> int \<Rightarrow> bool" where
  "IsExpired tx height \<longleftrightarrow> (if tx_Expires tx = 0 then False else tx_Expires tx < height)"

definition computeTransactionSeries :: "bool \<Rightarrow> int \<Rightarrow> int" where
  "computeTransactionSeries isCoinbase height =
     (if isCoinbase then i64 (height sdiv BLOCKS_UNTIL_NEW_SERIES + 1)
      else i64 (i64 (height - 100) sdiv BLOCKS_UNTIL_NEW_SERIES + 1))"

text \<open>The clock and the random nonce are arguments.\<close>

definition NewTransaction ::
  "int \<Rightarrow> int \<Rightarrow> bytes option \<Rightarrow> bytes option \<Rightarrow> int \<Rightarrow> int \<Rightarrow> int \<Rightarrow> int \<Rightarrow> int \<Rightarrow> bytes \<Rightarrow> transaction" where
  "NewTransaction now nonce from to amount fee matures expires height memo =
     \<lparr>tx_Time = now, tx_Nonce = nonce, tx_From = from, tx_To = to, tx_Amount = amount,
      tx_Fee = fee, tx_Memo = memo, tx_Matures = matures, tx_Expires = expires,
      tx_Series = computeTransactionSeries (from = None) height, tx_Signature = None\<rparr>"

section \<open>Identifiers and signatures\<close>

lemma tx_ID_ignores_signature [simp]: "tx_ID cr (tx\<lparr>tx_Signature := s\<rparr>) = tx_ID cr tx"
  by (simp add: tx_ID_def)

lemma Sign_ID: "Sign cr k tx = Inr tx' \<Longrightarrow> tx_ID cr tx' = tx_ID cr tx"
  by (auto simp: Sign_def split: if_splits)

end
