(* ===== verification/Block.thy ===== *)
theory Block
  imports Transaction "HOL-Library.Product_Lexorder"
begin

text \<open>
  \<^verbatim>\<open>src/block.go\<close>: block headers and blocks, their identifiers, the hash list root, block and
  chain work, the order of headers that decides which chain is better, and the conversions
  between identifiers, big integers and JSON text. A \<^verbatim>\<open>hash.Hash\<close> object is the bytes written to
  it so far; \<^verbatim>\<open>Sum\<close> hashes them.
\<close>

record block_header =
  Previous :: block_id
  HashListRoot :: tx_id
  bh_Time :: int
  Target :: block_id
  ChainWork :: block_id
  bh_Nonce :: int
  Height :: int
  TransactionCount :: int

record block =
  Header :: block_header
  Transactions :: "transaction list"

text \<open>A block being mined also carries the running hash of its transactions.\<close>

record mining_block = block +
  blk_hasher :: bytes

section \<open>Identifiers, big integers and JSON text\<close>

definition id_String :: "256 word \<Rightarrow> bytes" where
  "id_String i = hex_encode (id_bytes i)"

definition id_MarshalJSON :: "256 word \<Rightarrow> bytes" where
  "id_MarshalJSON i = [34] @ id_String i @ [34]"

definition id_UnmarshalJSON :: "bytes \<Rightarrow> (256 word) result" where
  "id_UnmarshalJSON b =
     (if length b \<noteq> 64 + 2 then Inl (Err ''Invalid block ID'')
      else (case hex_decode (take 64 (drop 1 b)) of None \<Rightarrow> Inl (Err ''encoding/hex'')
            | Some idBytes \<Rightarrow> Inr (id_of_bytes idBytes)))"

definition GetBigInt :: "256 word \<Rightarrow> int" where
  "GetBigInt i = uint i"

text \<open>\<^verbatim>\<open>big.Int.Bytes\<close> is the magnitude of the number; more than 32 bytes of it is a panic.\<close>

definition SetBigInt :: "int \<Rightarrow> (256 word) result" where
  "SetBigInt i = (if 2 ^ 256 \<le> \<bar>i\<bar> then Inl (Panic ''Too much work'') else Inr (word_of_int \<bar>i\<bar>))"

definition header_json :: "block_header \<Rightarrow> bytes" where
  "header_json h = [123] @ json_key ''previous'' @ id_MarshalJSON (Previous h)
     @ json_opt False ''hash_list_root'' (id_MarshalJSON (HashListRoot h))
     @ json_opt False ''time'' (itoa (bh_Time h))
     @ json_opt False ''target'' (id_MarshalJSON (Target h))
     @ json_opt False ''chain_work'' (id_MarshalJSON (ChainWork h))
     @ json_opt False ''nonce'' (itoa (bh_Nonce h))
     @ json_opt False ''height'' (itoa (Height h))
     @ json_opt False ''transaction_count'' (itoa (TransactionCount h))
     @ [125]"

definition header_ID :: "crypto \<Rightarrow> block_header \<Rightarrow> block_id" where
  "header_ID cr h = sha3_256 cr (header_json h)"

definition block_ID :: "crypto \<Rightarrow> 'a block_scheme \<Rightarrow> block_id" where
  "block_ID cr b = header_ID cr (Header b)"

definition CheckPOW :: "'a block_scheme \<Rightarrow> block_id \<Rightarrow> bool" where
  "CheckPOW b i \<longleftrightarrow> GetBigInt i \<le> GetBigInt (Target (Header b))"

section \<open>Hash list root\<close>

definition addCoinbaseToHashListRoot :: "crypto \<Rightarrow> bytes \<Rightarrow> transaction \<Rightarrow> tx_id" where
  "addCoinbaseToHashListRoot cr hasher coinbase =
     (let rootHashWithoutCoinbase = id_bytes (sha3_256 cr hasher)
      in sha3_256 cr (id_bytes (tx_ID cr coinbase) @ rootHashWithoutCoinbase))"

fun writeTxIDs :: "crypto \<Rightarrow> bytes \<Rightarrow> transaction list \<Rightarrow> bytes" where
  "writeTxIDs cr hasher [] = hasher"
| "writeTxIDs cr hasher (tx # txs) = writeTxIDs cr (hasher @ id_bytes (tx_ID cr tx)) txs"

text \<open>The root and the hash state it leaves in the hasher it was given.\<close>

definition computeHashListRoot :: "crypto \<Rightarrow> bytes \<Rightarrow> transaction list \<Rightarrow> (tx_id \<times> bytes) result" where
  "computeHashListRoot cr hasher transactions =
     (case transactions of [] \<Rightarrow> Inl (Panic ''slice bounds out of range'')
      | coinbase # txs \<Rightarrow>
          let hasher' = writeTxIDs cr hasher txs
          in Inr (addCoinbaseToHashListRoot cr hasher' coinbase, hasher'))"

section \<open>Work\<close>

definition computeBlockWork :: "block_id \<Rightarrow> int" where
  "computeBlockWork target =
     (if GetBigInt target \<le> 0 then 0 else 2 ^ 256 div (GetBigInt target + 1))"

definition computeChainWork :: "block_id \<Rightarrow> block_id \<Rightarrow> block_id result" where
  "computeChainWork target chainWork = SetBigInt (GetBigInt chainWork + computeBlockWork target)"

definition Compare :: "crypto \<Rightarrow> block_header \<Rightarrow> block_header \<Rightarrow> int \<Rightarrow> int \<Rightarrow> bool" where
  "Compare cr h theirHeader thisWhen theirWhen \<longleftrightarrow>
     (if GetBigInt (ChainWork h) > GetBigInt (ChainWork theirHeader) then True
      else if GetBigInt (ChainWork h) < GetBigInt (ChainWork theirHeader) then False
      else if thisWhen < theirWhen then True
      else if thisWhen > theirWhen then False
      else GetBigInt (header_ID cr h) < GetBigInt (header_ID cr theirHeader))"

section \<open>Creating blocks\<close>

definition NewBlock :: "crypto \<Rightarrow> int \<Rightarrow> int \<Rightarrow> block_id \<Rightarrow> int \<Rightarrow> block_id \<Rightarrow> block_id \<Rightarrow> transaction list
    \<Rightarrow> mining_block result" where
  "NewBlock cr now nonce previous height target chainWork transactions =
     (if int (length transactions) > MAX_TRANSACTIONS_PER_BLOCK
      then Inl (Err ''Transaction list size exceeds limit per block'')
      else bindE (computeHashListRoot cr [] transactions) (\<lambda>(hashListRoot, hasher).
        bindE (computeChainWork target chainWork) (\<lambda>work.
          Inr \<lparr>Header = \<lparr>Previous = previous, HashListRoot = hashListRoot, bh_Time = now,
                 Target = target, ChainWork = work, bh_Nonce = nonce, Height = height,
                 TransactionCount = i32 (int (length transactions))\<rparr>,
               Transactions = transactions, blk_hasher = hasher\<rparr>)))"

definition AddTransaction :: "crypto \<Rightarrow> tx_id \<Rightarrow> transaction \<Rightarrow> mining_block \<Rightarrow> mining_block result" where
  "AddTransaction cr i tx b =
     (let hasher = blk_hasher b @ id_bytes i
      in (case Transactions b of [] \<Rightarrow> Inl (Panic ''index out of range'')
          | coinbase # txs \<Rightarrow>
              let coinbase' = coinbase\<lparr>tx_Amount := i64 (tx_Amount coinbase + tx_Fee tx)\<rparr>;
                  root = addCoinbaseToHashListRoot cr hasher coinbase'
              in Inr (b\<lparr>Header := (Header b)\<lparr>HashListRoot := root,
                          TransactionCount := i32 (TransactionCount (Header b) + 1)\<rparr>,
                        Transactions := coinbase' # txs @ [tx],
                        blk_hasher := hasher\<rparr>)))"

section \<open>Conversions\<close>

lemma length_id_String [simp]: "length (id_String i) = 64"
  by (simp add: id_String_def)

lemma id_String_inject [simp]: "id_String i = id_String j \<longleftrightarrow> i = j"
  by (simp add: id_String_def)

lemma length_id_MarshalJSON [simp]: "length (id_MarshalJSON i) = 66"
  by (simp add: id_MarshalJSON_def)

lemma id_MarshalJSON_inject [simp]: "id_MarshalJSON i = id_MarshalJSON j \<longleftrightarrow> i = j"
  by (simp add: id_MarshalJSON_def)

lemma id_json_roundtrip: "id_UnmarshalJSON (id_MarshalJSON i) = Inr i"
  by (simp add: id_UnmarshalJSON_def) (simp add: id_MarshalJSON_def id_String_def)

lemma GetBigInt_bounds: "0 \<le> GetBigInt i" "GetBigInt i < 2 ^ 256"
  using uint_lt2p [of i] by (simp_all add: GetBigInt_def)

lemma GetBigInt_inject [simp]: "GetBigInt i = GetBigInt j \<longleftrightarrow> i = j"
  by (simp add: GetBigInt_def word_uint_eq_iff)

lemma SetBigInt_GetBigInt [simp]: "SetBigInt (GetBigInt i) = Inr i"
  using GetBigInt_bounds [of i] by (simp add: SetBigInt_def) (simp add: GetBigInt_def)

lemma GetBigInt_SetBigInt: "SetBigInt x = Inr i \<Longrightarrow> GetBigInt i = \<bar>x\<bar>"
  by (auto simp: SetBigInt_def GetBigInt_def uint_word_of_int split: if_splits)

lemma SetBigInt_ok: "0 \<le> x \<Longrightarrow> x < 2 ^ 256 \<Longrightarrow> \<exists>i. SetBigInt x = Inr i \<and> GetBigInt i = x"
  by (auto simp: SetBigInt_def GetBigInt_def uint_word_of_int)

section \<open>The header's text determines the header\<close>

lemma append_delim_eq:
  "c \<notin> set xs \<Longrightarrow> c \<notin> set ys \<Longrightarrow> xs @ c # r = ys @ c # s \<longleftrightarrow> xs = ys \<and> r = s"
  by (induction xs arbitrary: ys; case_tac ys) auto

lemma itoa_delim: "44 \<notin> set (itoa i)" "125 \<notin> set (itoa i)"
  by (auto dest!: itoa_chars)

lemma itoa_comma_eq [simp]: "itoa i @ 44 # r = itoa j @ 44 # s \<longleftrightarrow> i = j \<and> r = s"
  by (simp add: append_delim_eq itoa_delim)

lemma itoa_brace_eq [simp]: "itoa i @ [125] = itoa j @ [125] \<longleftrightarrow> i = j"
  by simp

lemma id_append_eq [simp]: "id_MarshalJSON i @ r = id_MarshalJSON j @ s \<longleftrightarrow> i = j \<and> r = s"
  by (simp add: append_eq_append_conv)

lemma header_json_inject: "header_json h = header_json k \<longleftrightarrow> h = k"
  by (auto simp: header_json_def json_opt_def)

section \<open>The incremental hash list root\<close>

lemma writeTxIDs_eq: "writeTxIDs cr h txs = h @ concat (map (\<lambda>tx. id_bytes (tx_ID cr tx)) txs)"
  by (induction txs arbitrary: h) auto

lemma writeTxIDs_snoc:
  "writeTxIDs cr h (txs @ [tx]) = writeTxIDs cr h txs @ id_bytes (tx_ID cr tx)"
  by (simp add: writeTxIDs_eq)

definition mining_inv :: "crypto \<Rightarrow> mining_block \<Rightarrow> bool" where
  "mining_inv cr b \<longleftrightarrow>
     computeHashListRoot cr [] (Transactions b) = Inr (HashListRoot (Header b), blk_hasher b)
     \<and> TransactionCount (Header b) = i32 (int (length (Transactions b)))"

lemma i32_add_i32: "i32 (i32 x + y) = i32 (x + y)"
proof -
  have "take_bit 32 (i32 x) = take_bit 32 x"
    by (simp add: i32_def take_bit_signed_take_bit)
  then have "take_bit 32 (i32 x + y) = take_bit 32 (x + y)"
    by (metis take_bit_add)
  then show ?thesis
    by (simp add: i32_def [of "i32 x + y"] i32_def [of "x + y"] signed_take_bit_eq_iff_take_bit_eq)
qed

lemma NewBlock_mining_inv:
  "NewBlock cr now nonce prev height target work txs = Inr b \<Longrightarrow> mining_inv cr b"
  by (auto simp: NewBlock_def mining_inv_def result_simps split: if_splits)

lemma AddTransaction_mining_inv:
  "mining_inv cr b \<Longrightarrow> AddTransaction cr (tx_ID cr tx) tx b = Inr b' \<Longrightarrow> mining_inv cr b'"
  by (auto simp: AddTransaction_def mining_inv_def computeHashListRoot_def Let_def
      writeTxIDs_snoc i32_add_i32 split: list.splits)

lemma AddTransaction_ok:
  "mining_inv cr b \<Longrightarrow> \<exists>b'. AddTransaction cr i tx b = Inr b'"
  by (auto simp: AddTransaction_def mining_inv_def computeHashListRoot_def Let_def split: list.splits)

text \<open>Two transaction lists with one root have the same identifiers or exhibit a hash collision.\<close>

lemma concat_ids_eq:
  "concat (map id_bytes is) = concat (map id_bytes js) \<Longrightarrow> is = js"
proof (induction "is" arbitrary: js)
  case Nil
  then show ?case by (cases js) (auto dest: arg_cong [of _ _ length])
next
  case (Cons i "is")
  then show ?case
    by (cases js) (auto simp: append_eq_append_conv dest: arg_cong [of _ _ length])
qed

lemma hash_root_commits:
  assumes "computeHashListRoot cr [] (c # txs) = Inr (r, s)"
    and "computeHashListRoot cr [] (d # tys) = Inr (r, t)"
  shows "map (tx_ID cr) (c # txs) = map (tx_ID cr) (d # tys)
    \<or> s \<noteq> t \<and> sha3_256 cr s = sha3_256 cr t
    \<or> (let x = id_bytes (tx_ID cr c) @ id_bytes (sha3_256 cr s);
           y = id_bytes (tx_ID cr d) @ id_bytes (sha3_256 cr t)
       in x \<noteq> y \<and> sha3_256 cr x = sha3_256 cr y)"
proof -
  have s: "s = concat (map id_bytes (map (tx_ID cr) txs))" and t: "t = concat (map id_bytes (map (tx_ID cr) tys))"
    using assms by (auto simp: computeHashListRoot_def Let_def writeTxIDs_eq comp_def)
  have r: "sha3_256 cr (id_bytes (tx_ID cr c) @ id_bytes (sha3_256 cr s))
      = sha3_256 cr (id_bytes (tx_ID cr d) @ id_bytes (sha3_256 cr t))"
    using assms by (auto simp: computeHashListRoot_def Let_def addCoinbaseToHashListRoot_def)
  show ?thesis
  proof (cases "s = t")
    case True
    then have "map (tx_ID cr) txs = map (tx_ID cr) tys"
      unfolding s t by (rule concat_ids_eq)
    with True r show ?thesis by (auto simp: Let_def)
  next
    case False
    with r show ?thesis by (auto simp: Let_def)
  qed
qed

section \<open>Work and the order of chains\<close>

lemma computeBlockWork_nonneg: "0 \<le> computeBlockWork t"
  using GetBigInt_bounds [of t] by (simp add: computeBlockWork_def pos_imp_zdiv_nonneg_iff)

lemma computeBlockWork_pos:
  assumes "t \<noteq> 0" shows "1 \<le> computeBlockWork t"
proof -
  have "0 < GetBigInt t"
    using assms GetBigInt_bounds [of t] by (auto simp: GetBigInt_def uint_0_iff less_le)
  moreover have "GetBigInt t + 1 \<le> 2 ^ 256" using GetBigInt_bounds [of t] by simp
  then have "(GetBigInt t + 1) div (GetBigInt t + 1) \<le> 2 ^ 256 div (GetBigInt t + 1)"
    using calculation by (intro zdiv_mono1) auto
  ultimately show ?thesis by (simp add: computeBlockWork_def)
qed

lemma computeBlockWork_antimono:
  "0 < GetBigInt t \<Longrightarrow> GetBigInt t \<le> GetBigInt u \<Longrightarrow> computeBlockWork u \<le> computeBlockWork t"
  by (simp add: computeBlockWork_def zdiv_mono2)

lemma computeBlockWork_min:
  assumes "0 < GetBigInt t" "GetBigInt t \<le> max_target"
  shows "4295032833 \<le> computeBlockWork t"
proof -
  have "2 ^ 256 div (max_target + 1) \<le> 2 ^ 256 div (GetBigInt t + 1)"
    using assms by (intro zdiv_mono2) auto
  then show ?thesis using assms by (simp add: computeBlockWork_def max_target_def)
qed

lemma computeChainWork_Inr:
  "computeChainWork t w = Inr w' \<Longrightarrow> GetBigInt w' = GetBigInt w + computeBlockWork t"
  using GetBigInt_bounds [of w] computeBlockWork_nonneg [of t]
  by (auto simp: computeChainWork_def dest: GetBigInt_SetBigInt)

lemma chain_work_grows:
  "computeChainWork t w = Inr w' \<Longrightarrow> t \<noteq> 0 \<Longrightarrow> GetBigInt w < GetBigInt w'"
  using computeBlockWork_pos [of t] by (simp add: computeChainWork_Inr)

lemma Compare_lex:
  "Compare cr h k a b \<longleftrightarrow>
     (- GetBigInt (ChainWork h), a, GetBigInt (header_ID cr h))
       < (- GetBigInt (ChainWork k), b, GetBigInt (header_ID cr k))"
  by (auto simp: Compare_def less_prod_simp)

section \<open>Properties\<close>

text \<open>A block assembled the way the miner does, one transaction at a time.\<close>

fun addTransactions :: "crypto \<Rightarrow> transaction list \<Rightarrow> mining_block \<Rightarrow> mining_block result" where
  "addTransactions cr [] b = Inr b"
| "addTransactions cr (tx # txs) b = bindE (AddTransaction cr (tx_ID cr tx) tx b) (addTransactions cr txs)"

lemma AddTransaction_txs:
  assumes "AddTransaction cr i tx b = Inr b'"
  shows "tl (Transactions b') = tl (Transactions b) @ [tx]"
    and "hd (Transactions b') = (hd (Transactions b))\<lparr>tx_Amount := i64 (tx_Amount (hd (Transactions b)) + tx_Fee tx)\<rparr>"
  using assms by (auto simp: AddTransaction_def Let_def split: list.splits)

lemma addTransactions_inv:
  "mining_inv cr b \<Longrightarrow> \<exists>b'. addTransactions cr txs b = Inr b' \<and> mining_inv cr b'
     \<and> tl (Transactions b') = tl (Transactions b) @ txs
     \<and> i64 (tx_Amount (hd (Transactions b'))) = i64 (tx_Amount (hd (Transactions b)) + sum_list (map tx_Fee txs))"
proof (induction txs arbitrary: b)
  case Nil
  then show ?case by simp
next
  case (Cons tx txs)
  obtain c where c: "AddTransaction cr (tx_ID cr tx) tx b = Inr c"
    using AddTransaction_ok [OF Cons.prems] by blast
  from Cons.IH [OF AddTransaction_mining_inv [OF Cons.prems c]] c AddTransaction_txs [OF c]
  show ?case by (auto simp: i64_add_i64 add.assoc)
qed

text \<open>
  C39 (equivalence). A block assembled by \<^verbatim>\<open>NewBlock\<close> and then one \<^verbatim>\<open>AddTransaction\<close> per
  transaction never fails on the way, contains the transactions in order after the coinbase, and
  its incrementally maintained hash list root and transaction count are those
  \<^verbatim>\<open>computeHashListRoot\<close> and \<^verbatim>\<open>len\<close> give on the finished list. The coinbase has collected
  all the fees (modulo 64-bit wrap-around).
\<close>

theorem incremental_root:
  assumes "NewBlock cr now nonce prev height target work (coinbase # txs) = Inr b"
  shows "\<exists>b' c'. addTransactions cr extra b = Inr b' \<and> Transactions b' = c' # txs @ extra
    \<and> computeHashListRoot cr [] (Transactions b') = Inr (HashListRoot (Header b'), blk_hasher b')
    \<and> TransactionCount (Header b') = i32 (int (length (Transactions b')))
    \<and> i64 (tx_Amount c') = i64 (tx_Amount coinbase + sum_list (map tx_Fee extra))"
proof -
  have t: "Transactions b = coinbase # txs"
    using assms by (auto simp: NewBlock_def result_simps split: if_splits)
  obtain b' where b': "addTransactions cr extra b = Inr b'" "mining_inv cr b'"
      "tl (Transactions b') = txs @ extra"
      "i64 (tx_Amount (hd (Transactions b'))) = i64 (tx_Amount coinbase + sum_list (map tx_Fee extra))"
    using addTransactions_inv [OF NewBlock_mining_inv [OF assms], of extra] t by auto
  moreover from b'(2) have "Transactions b' \<noteq> []"
    by (auto simp: mining_inv_def computeHashListRoot_def)
  ultimately show ?thesis
    by (intro exI [of _ b'] exI [of _ "hd (Transactions b')"]) (auto simp: mining_inv_def neq_Nil_conv)
qed

text \<open>A hash for examples: the length of the text, but no header hashes to zero.\<close>

definition sample_crypto :: crypto where
  "sample_crypto = \<lparr>sha3_256 = \<lambda>bs. if take 3 bs = [123, 34, 112] \<and> of_nat (length bs) = (0 :: 256 word) then 1
       else of_nat (length bs),
     ed25519_verify = \<lambda>pk msg sig. sig = pk, ed25519_sign = \<lambda>sk msg. sk\<rparr>"

lemma sample_crypto_nonzero: "header_ID sample_crypto h \<noteq> 0"
  by (simp add: header_ID_def sample_crypto_def header_json_def json_key_def str_def)

definition sample_tx :: transaction where
  "sample_tx = \<lparr>tx_Time = 7, tx_Nonce = 1, tx_From = None, tx_To = Some (replicate 32 1), tx_Amount = 50,
     tx_Fee = 0, tx_Memo = [], tx_Matures = 0, tx_Expires = 0, tx_Series = 1, tx_Signature = None\<rparr>"

theorem incremental_root_witness:
  "\<exists>b b' c'. NewBlock sample_crypto 9 3 0 5 1 8 [sample_tx] = Inr b
    \<and> addTransactions sample_crypto [sample_tx\<lparr>tx_Fee := 3\<rparr>] b = Inr b'
    \<and> Transactions b' = [c', sample_tx\<lparr>tx_Fee := 3\<rparr>] \<and> i64 (tx_Amount c') = 53"
proof -
  have w: "computeChainWork 1 8 = Inr (word_of_int (8 + 2 ^ 255))"
    by (simp add: computeChainWork_def GetBigInt_def computeBlockWork_def SetBigInt_def)
  obtain b where b: "NewBlock sample_crypto 9 3 0 5 1 8 [sample_tx] = Inr b"
    by (simp add: NewBlock_def computeHashListRoot_def Let_def w)
  from incremental_root [OF b, of "[sample_tx\<lparr>tx_Fee := 3\<rparr>]"] b show ?thesis
    by (auto simp: sample_tx_def i64_small)
qed

text \<open>
  The bytes a header is hashed over determine the header: two headers with the
  same serialization agree in every field, so two headers with one identifier are equal or their
  serializations collide under SHA3-256.
\<close>

theorem header_commitment:
  "header_ID cr h = header_ID cr k \<longleftrightarrow>
     h = k \<or> header_json h \<noteq> header_json k \<and> sha3_256 cr (header_json h) = sha3_256 cr (header_json k)"
  by (auto simp: header_ID_def header_json_inject)

text \<open>
  C40 (functional). \<^verbatim>\<open>Compare\<close> is the strict lexicographic order by more chain work, then
  earlier arrival, then smaller identifier; so it never prefers both of two headers, it is
  transitive, and it always decides between headers that differ in work, arrival or identifier.
\<close>

theorem Compare_strict_order:
  "(Compare cr h k a b \<longleftrightarrow>
      (- GetBigInt (ChainWork h), a, GetBigInt (header_ID cr h))
        < (- GetBigInt (ChainWork k), b, GetBigInt (header_ID cr k)))
   \<and> \<not> (Compare cr h k a b \<and> Compare cr k h b a)
   \<and> (Compare cr h k a b \<and> Compare cr k m b c \<longrightarrow> Compare cr h m a c)
   \<and> (Compare cr h k a b \<or> Compare cr k h b a
      \<or> ChainWork h = ChainWork k \<and> a = b \<and> header_ID cr h = header_ID cr k)"
  unfolding Compare_lex GetBigInt_inject [symmetric] by (auto simp: less_prod_simp simp del: GetBigInt_inject)

theorem Compare_strict_order_witness:
  "\<exists>h k m. Compare sample_crypto h k 1 1 \<and> Compare sample_crypto k m 1 2 \<and> Compare sample_crypto h m 1 2"
proof -
  let ?m = "\<lparr>Previous = 0, HashListRoot = 0, bh_Time = 0, Target = 1, ChainWork = 5, bh_Nonce = 0,
    Height = 1, TransactionCount = 1\<rparr>"
  let ?h = "?m\<lparr>ChainWork := 6\<rparr>"
  have "Compare sample_crypto ?h ?m 1 1" "Compare sample_crypto ?m ?m 1 2"
    by (simp_all add: Compare_def GetBigInt_def)
  then show ?thesis
    using Compare_strict_order [of sample_crypto ?h ?m 1 1 ?m 2] by blast
qed

text \<open>
  The hash list root commits to the transactions of a block: two lists with one root
  have the same identifiers in the same order, or one of two explicit pairs of distinct byte
  strings collides under SHA3-256.
\<close>

theorem hash_list_root_commitment:
  assumes "computeHashListRoot cr [] (c # txs) = Inr (r, s)"
    and "computeHashListRoot cr [] (d # tys) = Inr (r, t)"
  shows "map (tx_ID cr) (c # txs) = map (tx_ID cr) (d # tys)
    \<or> s \<noteq> t \<and> sha3_256 cr s = sha3_256 cr t
    \<or> (let x = id_bytes (tx_ID cr c) @ id_bytes (sha3_256 cr s);
           y = id_bytes (tx_ID cr d) @ id_bytes (sha3_256 cr t)
       in x \<noteq> y \<and> sha3_256 cr x = sha3_256 cr y)"
  using assms by (rule hash_root_commits)

theorem hash_list_root_commitment_witness:
  "\<exists>r s t. computeHashListRoot sample_crypto [] [sample_tx, sample_tx] = Inr (r, s)
    \<and> computeHashListRoot sample_crypto [] [sample_tx, sample_tx\<lparr>tx_Signature := Some [1]\<rparr>] = Inr (r, t)
    \<and> map (tx_ID sample_crypto) [sample_tx, sample_tx] = map (tx_ID sample_crypto) [sample_tx, sample_tx\<lparr>tx_Signature := Some [1]\<rparr>]"
proof -
  let ?tx = "sample_tx\<lparr>tx_Signature := Some [1]\<rparr>"
  have i: "tx_ID sample_crypto ?tx = tx_ID sample_crypto sample_tx"
    by (rule tx_ID_ignores_signature)
  obtain r s where rs: "computeHashListRoot sample_crypto [] [sample_tx, sample_tx] = Inr (r, s)"
    by (simp add: computeHashListRoot_def Let_def)
  then have rt: "computeHashListRoot sample_crypto [] [sample_tx, ?tx] = Inr (r, s)"
    by (auto simp: computeHashListRoot_def Let_def i)
  from hash_list_root_commitment [OF rs rt] rs rt show ?thesis by (auto simp: Let_def i)
qed

text \<open>
  Extending a chain by a block with a target other than zero strictly increases
  its work, by exactly the work of the block, and a block no easier than the initial target adds
  at least 4295032833 (the work of the genesis block).
\<close>

theorem chain_work_increases:
  assumes "computeChainWork t w = Inr w'" "t \<noteq> 0"
  shows "GetBigInt w' = GetBigInt w + 2 ^ 256 div (GetBigInt t + 1) \<and> GetBigInt w < GetBigInt w'
    \<and> (GetBigInt t \<le> max_target \<longrightarrow> GetBigInt w + 4295032833 \<le> GetBigInt w')"
proof -
  have p: "0 < GetBigInt t"
    using assms(2) GetBigInt_bounds [of t] by (auto simp: GetBigInt_def uint_0_iff less_le)
  show ?thesis
    using computeChainWork_Inr [OF assms(1)] chain_work_grows [OF assms] computeBlockWork_min [OF p] p
    by (auto simp: computeBlockWork_def)
qed

theorem chain_work_increases_witness:
  "\<exists>w'. computeChainWork 1 8 = Inr w' \<and> GetBigInt 8 < GetBigInt w'"
proof -
  have w: "computeChainWork 1 8 = Inr (word_of_int (8 + 2 ^ 255))"
    by (simp add: computeChainWork_def GetBigInt_def computeBlockWork_def SetBigInt_def)
  from chain_work_increases [OF w] w show ?thesis by auto
qed

end
