(* ===== verification/Block_Storage.thy ===== *)
theory Block_Storage
  imports Block
begin

text \<open>
  The block storage as its clients see it through the interface \<^verbatim>\<open>BlockStorage\<close> of
  \<^verbatim>\<open>src/block_storage.go\<close>, with the behaviour \<^verbatim>\<open>BlockStorageDisk\<close> (\<^verbatim>\<open>src/block_storage_disk.go\<close>)
  gives it: one area holds the whole blocks, another the headers with the time each was stored.
  \<^verbatim>\<open>Store\<close> writes the block first and the header second, so a failure in between leaves a block
  without a header. An absent block is a decoding error in \<^verbatim>\<open>GetBlock\<close> (the missing file's empty
  text does not parse), an absent header is nil. The fault fields say which reads and writes fail.
\<close>

record block_store =
  bs_readOnly :: bool
  bs_blocks :: "block_id \<rightharpoonup> block"
  bs_headers :: "block_id \<rightharpoonup> block_header \<times> int"
  bs_readFault :: "block_id \<Rightarrow> bool"
  bs_writeBlockFault :: bool
  bs_writeHeaderFault :: bool

definition bs_Store :: "block_id \<Rightarrow> block \<Rightarrow> int \<Rightarrow> block_store \<Rightarrow> unit result \<times> block_store" where
  "bs_Store i b now bs =
     (if bs_readOnly bs then (Inl (Err ''Block storage is in read-only mode''), bs)
      else if bs_writeBlockFault bs then (Inl IOError, bs)
      else let bs' = bs\<lparr>bs_blocks := (bs_blocks bs)(i \<mapsto> b)\<rparr>
           in if bs_writeHeaderFault bs then (Inl IOError, bs')
              else (Inr (), bs'\<lparr>bs_headers := (bs_headers bs')(i \<mapsto> (Header b, now))\<rparr>))"

definition bs_GetBlock :: "block_store \<Rightarrow> block_id \<Rightarrow> block option result" where
  "bs_GetBlock bs i =
     (if bs_readFault bs i then Inl IOError
      else (case bs_blocks bs i of None \<Rightarrow> Inl (Err ''unexpected end of JSON input'')
            | Some b \<Rightarrow> Inr (Some b)))"

fun json_list :: "bytes list \<Rightarrow> bytes" where
  "json_list [] = []"
| "json_list [x] = x"
| "json_list (x # xs) = x @ [44] @ json_list xs"

definition block_json :: "block \<Rightarrow> bytes" where
  "block_json b = [123] @ json_key ''header'' @ header_json (Header b)
     @ json_opt False ''transactions'' ([91] @ json_list (map tx_json (Transactions b)) @ [93]) @ [125]"

definition bs_GetBlockBytes :: "block_store \<Rightarrow> block_id \<Rightarrow> bytes option result" where
  "bs_GetBlockBytes bs i = (if bs_readFault bs i then Inl IOError else Inr (map_option block_json (bs_blocks bs i)))"

definition bs_GetBlockHeader :: "block_store \<Rightarrow> block_id \<Rightarrow> (block_header \<times> int) option result" where
  "bs_GetBlockHeader bs i = (if bs_readFault bs i then Inl IOError else Inr (bs_headers bs i))"

definition bs_GetTransaction ::
  "block_store \<Rightarrow> block_id \<Rightarrow> int \<Rightarrow> (transaction \<times> block_header) option result" where
  "bs_GetTransaction bs i index =
     (if bs_readFault bs i then Inl IOError
      else (case bs_blocks bs i of None \<Rightarrow> Inl (Err ''Key path not found'')
            | Some b \<Rightarrow>
                if 0 \<le> index \<and> index < int (length (Transactions b))
                then Inr (Some (Transactions b ! nat index, Header b))
                else Inl (Err ''Key path not found'')))"

lemma bs_GetBlock_Inr: "bs_GetBlock bs i = Inr bo \<longleftrightarrow> \<not> bs_readFault bs i \<and> bo \<noteq> None \<and> bs_blocks bs i = bo"
  by (auto simp: bs_GetBlock_def split: option.splits)

lemma bs_GetBlockHeader_Inr:
  "bs_GetBlockHeader bs i = Inr ho \<longleftrightarrow> \<not> bs_readFault bs i \<and> bs_headers bs i = ho"
  by (auto simp: bs_GetBlockHeader_def)

lemma bs_GetTransaction_Inr:
  "bs_GetTransaction bs i n = Inr r \<longleftrightarrow>
     \<not> bs_readFault bs i \<and> (\<exists>b. bs_blocks bs i = Some b \<and> 0 \<le> n \<and> n < int (length (Transactions b))
       \<and> r = Some (Transactions b ! nat n, Header b))"
  by (auto simp: bs_GetTransaction_def split: option.splits)

end
