(* ===== verification/Balance_Cache.thy ===== *)
theory Balance_Cache
  imports Transaction "HOL-Library.AList"
begin

text \<open>
  \<^verbatim>\<open>src/balance_cache.go\<close>: a partial, unconfirmed view of the ledger's balances. The cache is an
  association list from 32-byte keys to balances; the ledger behind it is the function the cache
  calls, \<^verbatim>\<open>GetPublicKeyBalance\<close>. What a client may assume of that function is the locale
  \<open>balance_source\<close>: a read that succeeds returns the balance of a fixed table. The ledger's
  interpretation of the locale is in the theory \<open>Ledger\<close>.
\<close>

record balance_cache =
  minBalance :: int
  cache :: "(bytes \<times> int) list"

definition NewBalanceCache :: "int \<Rightarrow> balance_cache" where
  "NewBalanceCache m = \<lparr>minBalance = m, cache = []\<rparr>"

definition Reset :: "balance_cache \<Rightarrow> balance_cache" where
  "Reset b = b\<lparr>cache := []\<rparr>"

definition Balances :: "balance_cache \<Rightarrow> (bytes \<times> int) list" where
  "Balances b = cache b"

definition cachedBalance :: "(bytes \<Rightarrow> int result) \<Rightarrow> balance_cache \<Rightarrow> bytes \<Rightarrow> int result" where
  "cachedBalance getBalance b pk =
     (case map_of (cache b) (copy32 pk) of Some v \<Rightarrow> Inr v | None \<Rightarrow> getBalance pk)"

definition setCached :: "bytes \<Rightarrow> int \<Rightarrow> balance_cache \<Rightarrow> balance_cache" where
  "setCached pk v b = b\<lparr>cache := AList.update (copy32 pk) v (cache b)\<rparr>"

definition creditRecipient ::
  "(bytes \<Rightarrow> int result) \<Rightarrow> transaction \<Rightarrow> balance_cache \<Rightarrow> bool result \<times> balance_cache" where
  "creditRecipient getBalance tx b =
     (case cachedBalance getBalance b (octets (tx_To tx)) of Inl e \<Rightarrow> (Inl e, b)
      | Inr recipientBalance \<Rightarrow>
          (Inr True, setCached (octets (tx_To tx)) (i64 (recipientBalance + tx_Amount tx)) b))"

definition Apply ::
  "(bytes \<Rightarrow> int result) \<Rightarrow> transaction \<Rightarrow> balance_cache \<Rightarrow> bool result \<times> balance_cache" where
  "Apply getBalance tx b =
     (if \<not> IsCoinbase tx then
        (case cachedBalance getBalance b (octets (tx_From tx)) of Inl e \<Rightarrow> (Inl e, b)
         | Inr senderBalance \<Rightarrow>
             let totalSpent = i64 (tx_Amount tx + tx_Fee tx)
             in if totalSpent > senderBalance then (Inr False, b)
                else let senderBalance' = i64 (senderBalance - totalSpent)
                     in if senderBalance' > 0 \<and> senderBalance' < minBalance b then (Inr False, b)
                        else creditRecipient getBalance tx (setCached (octets (tx_From tx)) senderBalance' b))
      else creditRecipient getBalance tx b)"

definition debitRecipient ::
  "(bytes \<Rightarrow> int result) \<Rightarrow> transaction \<Rightarrow> balance_cache \<Rightarrow> unit result \<times> balance_cache" where
  "debitRecipient getBalance tx b =
     (case cachedBalance getBalance b (octets (tx_To tx)) of Inl e \<Rightarrow> (Inl e, b)
      | Inr recipientBalance \<Rightarrow>
          if recipientBalance < tx_Amount tx then (Inl (Panic ''Recipient balance went negative''), b)
          else (Inr (), setCached (octets (tx_To tx)) (i64 (recipientBalance - tx_Amount tx)) b))"

definition Undo ::
  "(bytes \<Rightarrow> int result) \<Rightarrow> transaction \<Rightarrow> balance_cache \<Rightarrow> unit result \<times> balance_cache" where
  "Undo getBalance tx b =
     (if \<not> IsCoinbase tx then
        (case cachedBalance getBalance b (octets (tx_From tx)) of Inl e \<Rightarrow> (Inl e, b)
         | Inr senderBalance \<Rightarrow>
             let totalSpent = i64 (tx_Amount tx + tx_Fee tx)
             in debitRecipient getBalance tx
                  (setCached (octets (tx_From tx)) (i64 (senderBalance + totalSpent)) b))
      else debitRecipient getBalance tx b)"

section \<open>What a transaction does to a table of balances\<close>

definition spent :: "transaction \<Rightarrow> int" where
  "spent tx = tx_Amount tx + tx_Fee tx"

definition transfer :: "transaction \<Rightarrow> (bytes \<Rightarrow> int) \<Rightarrow> (bytes \<Rightarrow> int)" where
  "transfer tx f =
     (let g = (if IsCoinbase tx then f
               else f(octets (tx_From tx) := f (octets (tx_From tx)) - spent tx))
      in g(octets (tx_To tx) := g (octets (tx_To tx)) + tx_Amount tx))"

definition untransfer :: "transaction \<Rightarrow> (bytes \<Rightarrow> int) \<Rightarrow> (bytes \<Rightarrow> int)" where
  "untransfer tx f =
     (let g = (if IsCoinbase tx then f
               else f(octets (tx_From tx) := f (octets (tx_From tx)) + spent tx))
      in g(octets (tx_To tx) := g (octets (tx_To tx)) - tx_Amount tx))"

text \<open>The shape and ranges that \<^verbatim>\<open>checkTransaction\<close> enforces, as far as balances need them.\<close>

definition tx_ok :: "transaction \<Rightarrow> bool" where
  "tx_ok tx \<longleftrightarrow> (IsCoinbase tx \<longrightarrow> tx_Fee tx = 0) \<and> (\<not> IsCoinbase tx \<longrightarrow> length (octets (tx_From tx)) = 32)
     \<and> length (octets (tx_To tx)) = 32 \<and> tx_From tx \<noteq> tx_To tx
     \<and> 0 < tx_Amount tx \<and> tx_Amount tx \<le> MAX_MONEY \<and> 0 \<le> tx_Fee tx \<and> tx_Fee tx \<le> MAX_MONEY"

lemma untransfer_transfer [simp]: "untransfer tx (transfer tx f) = f"
  by (rule ext) (simp add: untransfer_def transfer_def Let_def)

lemma transfer_untransfer [simp]: "transfer tx (untransfer tx f) = f"
  by (rule ext) (simp add: untransfer_def transfer_def Let_def)

text \<open>A transfer takes the fee out of the table; a coinbase puts its amount in.\<close>

lemma sum_fun_upd: "finite S \<Longrightarrow> k \<in> S \<Longrightarrow> sum (f(k := v)) S = sum f S - f k + (v :: int)"
proof -
  assume S: "finite S" "k \<in> S"
  have "sum (f(k := v)) (S - {k}) = sum f (S - {k})"
    by (rule sum.cong) auto
  with S show ?thesis
    using sum.remove [OF S, of f] sum.remove [OF S, of "f(k := v)"] by simp
qed

lemma sum_transfer:
  assumes "finite S" "octets (tx_To tx) \<in> S" "\<not> IsCoinbase tx \<longrightarrow> octets (tx_From tx) \<in> S"
  shows "sum (transfer tx f) S = sum f S + (if IsCoinbase tx then tx_Amount tx else - tx_Fee tx)"
  using assms by (simp add: transfer_def Let_def sum_fun_upd spent_def del: fun_upd_apply)

section \<open>The cache over a balance source\<close>

locale balance_source =
  fixes getBalance :: "bytes \<Rightarrow> int result"
    and base :: "bytes \<Rightarrow> int"
  assumes getBalance_base: "getBalance pk = Inr v \<Longrightarrow> v = base pk"
begin

definition view :: "balance_cache \<Rightarrow> bytes \<Rightarrow> int" where
  "view b pk = (case map_of (cache b) pk of Some v \<Rightarrow> v | None \<Rightarrow> base pk)"

lemma view_empty: "cache b = [] \<Longrightarrow> view b = base"
  by (simp add: view_def fun_eq_iff)

lemma cachedBalance_view:
  "length pk = 32 \<Longrightarrow> cachedBalance getBalance b pk = Inr v \<Longrightarrow> v = view b pk"
  by (auto simp: cachedBalance_def view_def dest: getBalance_base split: option.splits)

lemma view_setCached: "length pk = 32 \<Longrightarrow> view (setCached pk v b) = (view b)(pk := v)"
  by (auto simp: setCached_def view_def update_conv fun_eq_iff)

lemma creditRecipient_view:
  "length (octets (tx_To tx)) = 32 \<Longrightarrow> creditRecipient getBalance tx b = (Inr r, b') \<Longrightarrow>
   r \<and> view b' = (view b)(octets (tx_To tx) := i64 (view b (octets (tx_To tx)) + tx_Amount tx))"
  using cachedBalance_view [of "octets (tx_To tx)" b]
  by (cases "cachedBalance getBalance b (octets (tx_To tx))")
    (auto simp: creditRecipient_def view_setCached)

end

definition cache_ok :: "balance_cache \<Rightarrow> bool" where
  "cache_ok b \<longleftrightarrow> distinct (map fst (cache b)) \<and> (\<forall>k \<in> fst ` set (cache b). length k = 32)"

definition parties :: "transaction \<Rightarrow> bytes set" where
  "parties tx = (if IsCoinbase tx then {octets (tx_To tx)} else {octets (tx_From tx), octets (tx_To tx)})"

definition money_table :: "(bytes \<Rightarrow> int) \<Rightarrow> bool" where
  "money_table f \<longleftrightarrow> (\<forall>pk. 0 \<le> f pk \<and> f pk \<le> MAX_MONEY)"

lemma cache_ok_setCached: "cache_ok b \<Longrightarrow> cache_ok (setCached pk v b)"
  by (auto simp: cache_ok_def setCached_def distinct_update dom_update)

lemma keys_setCached:
  "length pk = 32 \<Longrightarrow> fst ` set (cache (setCached pk v b)) = insert pk (fst ` set (cache b))"
  by (simp add: setCached_def dom_update)

lemma setCached_minBalance [simp]: "minBalance (setCached pk v b) = minBalance b"
  by (simp add: setCached_def)

lemma i64_money:
  "0 \<le> x \<Longrightarrow> x \<le> 4 * MAX_MONEY \<Longrightarrow> i64 x = x"
  by (rule i64_small) simp_all

context balance_source
begin

lemma creditRecipient_cases:
  "length (octets (tx_To tx)) = 32 \<Longrightarrow> creditRecipient getBalance tx b = (r, b') \<Longrightarrow>
   (r = Inr True \<and> b' = setCached (octets (tx_To tx)) (i64 (view b (octets (tx_To tx)) + tx_Amount tx)) b)
   \<or> (\<exists>e. r = Inl e \<and> b' = b)"
  using cachedBalance_view [of "octets (tx_To tx)" b]
  by (cases "cachedBalance getBalance b (octets (tx_To tx))") (auto simp: creditRecipient_def)

lemma tx_ok_parts:
  assumes "tx_ok tx"
  shows "length (octets (tx_To tx)) = 32"
    and "i64 (tx_Amount tx + tx_Fee tx) = spent tx"
    and "0 \<le> tx_Amount tx" and "tx_Amount tx \<le> MAX_MONEY"
    and "0 \<le> spent tx" and "spent tx \<le> 2 * MAX_MONEY"
    and "\<not> IsCoinbase tx \<Longrightarrow> length (octets (tx_From tx)) = 32"
    and "\<not> IsCoinbase tx \<Longrightarrow> octets (tx_From tx) \<noteq> octets (tx_To tx)"
  using assms
  by (auto simp: tx_ok_def spent_def IsCoinbase_def octets_def intro!: i64_money split: option.splits)

lemma credit_no_wrap:
  assumes "tx_ok tx" "money_table (view b)"
  shows "i64 (view b pk + tx_Amount tx) = view b pk + tx_Amount tx"
  using assms tx_ok_parts(3,4) [OF assms(1)]
  by (intro i64_money) (auto simp: money_table_def intro: order_trans [OF add_mono])

lemma debit_no_wrap:
  assumes "money_table (view b)" "0 \<le> x" "x \<le> view b pk"
  shows "i64 (view b pk - x) = view b pk - x"
proof (rule i64_money)
  have "view b pk \<le> MAX_MONEY" using assms(1) by (simp add: money_table_def)
  with assms(2) show "view b pk - x \<le> 4 * MAX_MONEY" by simp
qed (use assms(3) in simp)

lemma Apply_coinbase:
  assumes "tx_ok tx" "money_table (view b)" "IsCoinbase tx" "Apply getBalance tx b = (Inr True, b')"
  shows "b' = setCached (octets (tx_To tx)) (view b (octets (tx_To tx)) + tx_Amount tx) b"
  using assms creditRecipient_cases [OF tx_ok_parts(1) [OF assms(1)], of b "Inr True" b']
  by (auto simp: Apply_def credit_no_wrap)

lemma Apply_spend:
  assumes ok: "tx_ok tx" and m: "money_table (view b)" and nc: "\<not> IsCoinbase tx"
    and app: "Apply getBalance tx b = (Inr True, b')"
  shows "spent tx \<le> view b (octets (tx_From tx))
    \<and> b' = setCached (octets (tx_To tx)) (view b (octets (tx_To tx)) + tx_Amount tx)
           (setCached (octets (tx_From tx)) (view b (octets (tx_From tx)) - spent tx) b)"
proof -
  let ?f = "octets (tx_From tx)" and ?t = "octets (tx_To tx)"
  note p = tx_ok_parts [OF ok]
  from app nc obtain s where s: "cachedBalance getBalance b ?f = Inr s"
    by (auto simp: Apply_def split: sum.splits)
  with p(7) nc have sv: "s = view b ?f" by (auto dest: cachedBalance_view)
  with app nc s p(2) have le: "spent tx \<le> view b ?f"
    by (auto simp: Apply_def Let_def split: if_splits)
  have sub: "i64 (view b ?f - spent tx) = view b ?f - spent tx"
    using m p(5) le by (rule debit_no_wrap)
  let ?b = "setCached ?f (view b ?f - spent tx) b"
  from app nc s p(2) sv sub have "creditRecipient getBalance tx ?b = (Inr True, b')"
    by (auto simp: Apply_def Let_def split: if_splits)
  moreover have "view ?b ?t = view b ?t" using p(7,8) nc by (simp add: view_setCached)
  ultimately show ?thesis
    using creditRecipient_cases [OF p(1), of ?b "Inr True" b'] credit_no_wrap [OF ok m] le by auto
qed

lemma Apply_True:
  assumes ok: "tx_ok tx" and m: "money_table (view b)"
    and app: "Apply getBalance tx b = (Inr True, b')"
  shows "view b' = transfer tx (view b)"
    and "0 \<le> view b' pk"
    and "cache_ok b \<Longrightarrow> cache_ok b'"
    and "fst ` set (cache b') = fst ` set (cache b) \<union> parties tx"
proof -
  note p = tx_ok_parts [OF ok]
  have "view b' = transfer tx (view b) \<and> 0 \<le> view b' pk \<and> (cache_ok b \<longrightarrow> cache_ok b')
    \<and> fst ` set (cache b') = fst ` set (cache b) \<union> parties tx"
  proof (cases "IsCoinbase tx")
    case True
    with Apply_coinbase [OF ok m True app] p m show ?thesis
      by (auto simp: transfer_def Let_def view_setCached keys_setCached parties_def money_table_def
          cache_ok_setCached)
  next
    case False
    with Apply_spend [OF ok m False app] p m show ?thesis
      by (auto simp: transfer_def Let_def view_setCached keys_setCached parties_def money_table_def
          cache_ok_setCached)
  qed
  then show "view b' = transfer tx (view b)" "0 \<le> view b' pk" "cache_ok b \<Longrightarrow> cache_ok b'"
    "fst ` set (cache b') = fst ` set (cache b) \<union> parties tx"
    by blast+
qed

lemma Apply_False:
  assumes "tx_ok tx" "money_table (view b)" "Apply getBalance tx b = (Inr False, b')"
  shows "\<not> IsCoinbase tx" and "b' = b"
    and "view b (octets (tx_From tx)) < spent tx
      \<or> 0 < view b (octets (tx_From tx)) - spent tx \<and> view b (octets (tx_From tx)) - spent tx < minBalance b"
proof -
  note p = tx_ok_parts [OF assms(1)]
  have cr: "creditRecipient getBalance tx c \<noteq> (Inr False, b')" for c
    by (auto simp: creditRecipient_def split: sum.splits)
  from assms(3) cr show nc: "\<not> IsCoinbase tx"
    by (auto simp: Apply_def)
  from assms(3) nc obtain s where s: "cachedBalance getBalance b (octets (tx_From tx)) = Inr s"
    by (auto simp: Apply_def split: sum.splits)
  with p(7) nc have sv: "s = view b (octets (tx_From tx))" by (auto dest: cachedBalance_view)
  show "b' = b"
    using assms(3) nc s cr by (auto simp: Apply_def Let_def split: if_splits)
  have "spent tx \<le> s \<Longrightarrow> i64 (s - spent tx) = s - spent tx"
    using assms(2) p(5) unfolding sv by (rule debit_no_wrap)
  with assms(3) nc s p(2) cr show "view b (octets (tx_From tx)) < spent tx
      \<or> 0 < view b (octets (tx_From tx)) - spent tx \<and> view b (octets (tx_From tx)) - spent tx < minBalance b"
    by (auto simp: Apply_def Let_def sv split: if_splits)
qed

lemma debitRecipient_Inr:
  assumes "tx_ok tx" "money_table (view b)" "debitRecipient getBalance tx b = (Inr u, b')"
  shows "tx_Amount tx \<le> view b (octets (tx_To tx))
    \<and> b' = setCached (octets (tx_To tx)) (view b (octets (tx_To tx)) - tx_Amount tx) b"
proof -
  note p = tx_ok_parts [OF assms(1)]
  from assms(3) obtain s where s: "cachedBalance getBalance b (octets (tx_To tx)) = Inr s"
    by (auto simp: debitRecipient_def split: sum.splits)
  with p(1) have "s = view b (octets (tx_To tx))" by (auto dest: cachedBalance_view)
  with assms(3) s p(3) debit_no_wrap [OF assms(2) p(3)] show ?thesis
    by (auto simp: debitRecipient_def split: if_splits)
qed

lemma Undo_Inr:
  assumes ok: "tx_ok tx" and m: "money_table (view b)" and m': "money_table (untransfer tx (view b))"
    and un: "Undo getBalance tx b = (Inr u, b')"
  shows "view b' = untransfer tx (view b)"
    and "cache_ok b \<Longrightarrow> cache_ok b'"
    and "fst ` set (cache b') = fst ` set (cache b) \<union> parties tx"
proof -
  let ?f = "octets (tx_From tx)" and ?t = "octets (tx_To tx)"
  note p = tx_ok_parts [OF ok]
  have "view b' = untransfer tx (view b) \<and> (cache_ok b \<longrightarrow> cache_ok b')
    \<and> fst ` set (cache b') = fst ` set (cache b) \<union> parties tx"
  proof (cases "IsCoinbase tx")
    case True
    with un have "debitRecipient getBalance tx b = (Inr u, b')" by (simp add: Undo_def)
    from debitRecipient_Inr [OF ok m this] True p show ?thesis
      by (auto simp: untransfer_def Let_def view_setCached keys_setCached parties_def cache_ok_setCached)
  next
    case False
    from un False obtain s where s: "cachedBalance getBalance b ?f = Inr s"
      by (auto simp: Undo_def split: sum.splits)
    with p(7) False have sv: "s = view b ?f" by (auto dest: cachedBalance_view)
    have fb: "view b ?f + spent tx \<le> MAX_MONEY"
      using m' False p(8) by (auto simp: money_table_def untransfer_def Let_def dest!: spec [of _ ?f])
    have "i64 (view b ?f + spent tx) = view b ?f + spent tx"
      using m p(5) fb by (intro i64_money) (auto simp: money_table_def)
    with un False s sv p(2) have d:
      "debitRecipient getBalance tx (setCached ?f (view b ?f + spent tx) b) = (Inr u, b')"
      by (simp add: Undo_def Let_def)
    have "money_table (view (setCached ?f (view b ?f + spent tx) b))"
      using m p fb False by (auto simp: view_setCached money_table_def)
    from debitRecipient_Inr [OF ok this d] False p show ?thesis
      by (auto simp: untransfer_def Let_def view_setCached keys_setCached parties_def cache_ok_setCached)
  qed
  then show "view b' = untransfer tx (view b)" "cache_ok b \<Longrightarrow> cache_ok b'"
    "fst ` set (cache b') = fst ` set (cache b) \<union> parties tx"
    by blast+
qed

text \<open>Undoing cannot panic when the balances are those a transfer left behind.\<close>

lemma Undo_ok:
  assumes ok: "tx_ok tx" and m: "money_table (view b)" and m': "money_table (untransfer tx (view b))"
    and rd: "\<And>pk. pk \<in> parties tx \<Longrightarrow> getBalance pk = Inr (base pk)"
  shows "\<exists>b'. Undo getBalance tx b = (Inr (), b')"
proof -
  let ?f = "octets (tx_From tx)" and ?t = "octets (tx_To tx)"
  note p = tx_ok_parts [OF ok]
  have t: "cachedBalance getBalance c ?t = Inr (view c ?t)" for c
    using p(1) rd [of ?t] by (simp add: cachedBalance_def view_def parties_def split: option.splits)
  have f: "\<not> IsCoinbase tx \<Longrightarrow> cachedBalance getBalance b ?f = Inr (view b ?f)"
    using p(7) rd [of ?f] by (simp add: cachedBalance_def view_def parties_def split: option.splits)
  have "tx_Amount tx \<le> view b ?t"
    using m' p(8) by (auto simp: money_table_def untransfer_def Let_def dest!: spec [of _ ?t] split: if_splits)
  then show ?thesis
    using p t f by (cases "IsCoinbase tx") (auto simp: Undo_def debitRecipient_def Let_def view_setCached)
qed

end

end
