(* ===== verification/Leveldb.thy ===== *)
theory Leveldb
  imports Prelude
begin

text \<open>
  The key-value store the ledger, the block headers and the peer addresses are kept in. LevelDB
  itself (\<^verbatim>\<open>github.com/syndtr/goleveldb\<close>) is third-party code; the model states the contract its
  documentation gives and the program relies on: an ordered map from byte strings to byte
  strings, batches that are applied atomically and in order, and iterators that visit a key range
  in the bytewise order of keys. Failures are an oracle in the state: \<open>readFault\<close> says which
  keys cannot be read, \<open>writeFault\<close> that writes fail, \<open>iterFault\<close> that snapshots and iterators
  fail. Every theorem about an operation holds for all values of the oracle.

  The laws the clients use are the locale \<open>kv_store\<close>; it is interpreted on the sorted
  association lists of the model.
\<close>

type_synonym kv = "(bytes \<times> bytes) list"

datatype batch_op = Put bytes bytes | Delete bytes

fun op_key :: "batch_op \<Rightarrow> bytes" where
  "op_key (Put k v) = k"
| "op_key (Delete k) = k"

fun op_val :: "batch_op \<Rightarrow> bytes option" where
  "op_val (Put k v) = Some v"
| "op_val (Delete k) = None"

text \<open>What a batch does to a key: \<open>None\<close> if it does not touch it.\<close>

primrec batch_at :: "batch_op list \<Rightarrow> bytes \<Rightarrow> bytes option option" where
  "batch_at [] k = None"
| "batch_at (x # xs) k =
     (case batch_at xs k of Some r \<Rightarrow> Some r | None \<Rightarrow> if op_key x = k then Some (op_val x) else None)"

fun write_ops :: "(bytes \<Rightarrow> bytes \<Rightarrow> 'd \<Rightarrow> 'd) \<Rightarrow> (bytes \<Rightarrow> 'd \<Rightarrow> 'd) \<Rightarrow> batch_op list \<Rightarrow> 'd \<Rightarrow> 'd" where
  "write_ops put del [] d = d"
| "write_ops put del (Put k v # xs) d = write_ops put del xs (put k v d)"
| "write_ops put del (Delete k # xs) d = write_ops put del xs (del k d)"

section \<open>The contract\<close>

locale kv_store =
  fixes get :: "'d \<Rightarrow> bytes \<Rightarrow> bytes option"
    and put :: "bytes \<Rightarrow> bytes \<Rightarrow> 'd \<Rightarrow> 'd"
    and del :: "bytes \<Rightarrow> 'd \<Rightarrow> 'd"
    and items :: "'d \<Rightarrow> (bytes \<times> bytes) list"
    and valid :: "'d \<Rightarrow> bool"
  assumes get_put: "get (put k v d) j = (if j = k then Some v else get d j)"
    and get_del: "get (del k d) j = (if j = k then None else get d j)"
    and valid_put: "valid d \<Longrightarrow> valid (put k v d)"
    and valid_del: "valid d \<Longrightarrow> valid (del k d)"
    and items_get: "valid d \<Longrightarrow> (k, v) \<in> set (items d) \<longleftrightarrow> get d k = Some v"
    and items_sorted: "valid d \<Longrightarrow> sorted_wrt (<) (map fst (items d))"
begin

lemma get_write_ops:
  "get (write_ops put del ops d) k = (case batch_at ops k of None \<Rightarrow> get d k | Some r \<Rightarrow> r)"
proof (induction ops arbitrary: d)
  case Nil
  then show ?case by simp
next
  case (Cons x xs)
  then show ?case
    by (cases x) (auto simp: get_put get_del split: option.splits)
qed

lemma valid_write_ops: "valid d \<Longrightarrow> valid (write_ops put del ops d)"
proof (induction ops arbitrary: d)
  case Nil
  then show ?case by simp
next
  case (Cons x xs)
  then show ?case
    by (cases x) (auto simp: valid_put valid_del)
qed

lemma items_eq: "valid d \<Longrightarrow> items d = map (\<lambda>k. (k, the (get d k))) (map fst (items d))"
proof -
  assume "valid d"
  then have "(fst e, the (get d (fst e))) = e" if "e \<in> set (items d)" for e
    using that items_get [of d "fst e" "snd e"] by (cases e) simp
  then show ?thesis by (simp add: comp_def map_idI)
qed

lemma items_determined:
  assumes "valid d" "valid e" "\<And>k. get d k = get e k"
  shows "items d = items e"
proof -
  have "set (items d) = set (items e)"
    using assms by (auto simp: items_get)
  then have "map fst (items d) = map fst (items e)"
    using items_sorted [OF assms(1)] items_sorted [OF assms(2)] by (intro strict_sorted_equal) auto
  moreover have "get d = get e"
    using assms(3) by auto
  ultimately show ?thesis
    using items_eq [OF assms(1)] items_eq [OF assms(2)] by simp
qed

end

section \<open>Sorted association lists\<close>

fun kv_put :: "bytes \<Rightarrow> bytes \<Rightarrow> kv \<Rightarrow> kv" where
  "kv_put k v [] = [(k, v)]"
| "kv_put k v (e # d) = (if fst e < k then e # kv_put k v d
     else if fst e = k then (k, v) # d else (k, v) # e # d)"

definition kv_del :: "bytes \<Rightarrow> kv \<Rightarrow> kv" where
  "kv_del k d = filter (\<lambda>e. fst e \<noteq> k) d"

definition kv_valid :: "kv \<Rightarrow> bool" where
  "kv_valid d \<longleftrightarrow> sorted_wrt (<) (map fst d)"

lemma map_of_kv_put: "map_of (kv_put k v d) j = (if j = k then Some v else map_of d j)"
  by (induction d) (auto split: if_splits)

lemma map_of_kv_del: "map_of (kv_del k d) j = (if j = k then None else map_of d j)"
  by (induction d) (auto simp: kv_del_def)

lemma fst_kv_put: "fst ` set (kv_put k v d) = insert k (fst ` set d)"
  by (induction d) (auto split: if_splits)

lemma kv_valid_put: "kv_valid d \<Longrightarrow> kv_valid (kv_put k v d)"
proof (induction d)
  case Nil
  then show ?case by (simp add: kv_valid_def)
next
  case (Cons e d)
  then have "kv_valid (kv_put k v d)" by (simp add: kv_valid_def)
  with Cons.prems fst_kv_put [of k v d] show ?case
    by (auto simp: kv_valid_def not_less le_less intro: less_trans)
qed

lemma kv_valid_del: "kv_valid d \<Longrightarrow> kv_valid (kv_del k d)"
  unfolding kv_valid_def kv_del_def
  by (induction d) auto

lemma kv_valid_distinct: "kv_valid d \<Longrightarrow> distinct (map fst d)"
  by (simp add: kv_valid_def strict_sorted_iff)

interpretation ldb: kv_store map_of kv_put kv_del "\<lambda>d. d" kv_valid
proof (unfold_locales, goal_cases)
  case (5 d k v)
  then show ?case by (simp add: kv_valid_distinct)
qed (simp_all add: map_of_kv_put map_of_kv_del kv_valid_put kv_valid_del, simp add: kv_valid_def)

section \<open>The database and its operations\<close>

record leveldb =
  entries :: kv
  readFault :: "bytes \<Rightarrow> bool"
  writeFault :: bool
  iterFault :: bool

definition db_Get :: "leveldb \<Rightarrow> bytes \<Rightarrow> bytes option result" where
  "db_Get db k = (if readFault db k then Inl IOError else Inr (map_of (entries db) k))"

definition db_Has :: "leveldb \<Rightarrow> bytes \<Rightarrow> bool result" where
  "db_Has db k = (if readFault db k then Inl IOError else Inr (map_of (entries db) k \<noteq> None))"

definition db_Write :: "batch_op list \<Rightarrow> leveldb \<Rightarrow> unit result \<times> leveldb" where
  "db_Write ops db = (if writeFault db then (Inl IOError, db)
     else (Inr (), db\<lparr>entries := write_ops kv_put kv_del ops (entries db)\<rparr>))"

text \<open>The keys of an iterator over \<^verbatim>\<open>util.Range\<close> (limit excluded) and over \<^verbatim>\<open>util.BytesPrefix\<close>.\<close>

definition db_Range :: "bytes \<Rightarrow> bytes \<Rightarrow> leveldb \<Rightarrow> kv result" where
  "db_Range start limit db = (if iterFault db then Inl IOError
     else Inr (filter (\<lambda>e. start \<le> fst e \<and> fst e < limit) (entries db)))"

definition db_Prefix :: "bytes \<Rightarrow> leveldb \<Rightarrow> kv result" where
  "db_Prefix p db = (if iterFault db then Inl IOError
     else Inr (filter (\<lambda>e. take (length p) (fst e) = p) (entries db)))"

definition db_at :: "leveldb \<Rightarrow> bytes \<Rightarrow> bytes option" where
  "db_at db k = map_of (entries db) k"

definition db_ok :: "leveldb \<Rightarrow> bool" where
  "db_ok db \<longleftrightarrow> kv_valid (entries db)"

text \<open>Two databases that fail alike.\<close>

definition same_faults :: "leveldb \<Rightarrow> leveldb \<Rightarrow> bool" where
  "same_faults a b \<longleftrightarrow> readFault a = readFault b \<and> writeFault a = writeFault b \<and> iterFault a = iterFault b"

lemma db_Write_Inr:
  assumes "db_Write ops db = (Inr u, db')"
  shows "db_at db' k = (case batch_at ops k of None \<Rightarrow> db_at db k | Some r \<Rightarrow> r)"
    and "db_ok db \<Longrightarrow> db_ok db'"
    and "same_faults db db'"
  using assms
  by (auto simp: db_Write_def db_at_def db_ok_def same_faults_def ldb.get_write_ops
      ldb.valid_write_ops split: if_splits option.splits)

lemma db_Write_Inl: "db_Write ops db = (Inl e, db') \<Longrightarrow> db' = db"
  by (auto simp: db_Write_def split: if_splits)

lemma batch_at_append [simp]:
  "batch_at (xs @ ys) k = (case batch_at ys k of Some r \<Rightarrow> Some r | None \<Rightarrow> batch_at xs k)"
  by (induction xs) (auto split: option.splits)

lemma batch_at_None: "batch_at ops k = None \<longleftrightarrow> k \<notin> op_key ` set ops"
  by (induction ops) (auto split: option.splits)

lemma db_eqI:
  "db_ok a \<Longrightarrow> db_ok b \<Longrightarrow> same_faults a b \<Longrightarrow> (\<And>k. db_at a k = db_at b k) \<Longrightarrow> a = b"
  unfolding db_ok_def db_at_def same_faults_def
  by (auto intro!: leveldb.equality ldb.items_determined)

end
