(* ===== verification/Ledger_Schema.thy ===== *)
theory Ledger_Schema
  imports Encoding Leveldb
begin

text \<open>
  The LevelDB schema of the ledger, lines 910 to 1083 of \<^verbatim>\<open>src/ledger_disk.go\<close>: how keys and
  values are laid out in bytes. The lemmas show that keys of different tables never coincide,
  that within a table a key determines its parts, that every value decodes to what was encoded,
  and that the bytewise order of the per-key transaction index is the order of (height, index).
\<close>

definition computeBranchTypeKey :: "block_id \<Rightarrow> bytes" where
  "computeBranchTypeKey i = 66 # id_bytes i"

definition computeBlockHeightIndexKey :: "int \<Rightarrow> bytes" where
  "computeBlockHeightIndexKey height = 104 # be 8 height"

definition computeChainTipKey :: bytes where
  "computeChainTipKey = [84]"

definition computeTransactionIndexKey :: "tx_id \<Rightarrow> bytes" where
  "computeTransactionIndexKey i = 116 # id_bytes i"

definition computePubKeyTransactionIndexKey :: "bytes \<Rightarrow> int option \<Rightarrow> int option \<Rightarrow> bytes" where
  "computePubKeyTransactionIndexKey pubKey height index =
     107 # pubKey @ (case height of None \<Rightarrow> [] | Some h \<Rightarrow>
       be 8 h @ (case index of None \<Rightarrow> [] | Some i \<Rightarrow> be 4 (i32 i)))"

definition decodePubKeyTransactionIndexKey :: "bytes \<Rightarrow> (bytes \<times> int \<times> int) result" where
  "decodePubKeyTransactionIndexKey key =
     (case key of [] \<Rightarrow> Inl (Err ''EOF'') | _ # buf \<Rightarrow>
        bindE (read_array32 buf) (\<lambda>(pubKey, buf).
          bindE (read_i64 buf) (\<lambda>(height, buf).
            bindE (read_i32 buf) (\<lambda>(index, buf). Inr (pubKey, height, index)))))"

definition computePubKeyBalanceKey :: "bytes \<Rightarrow> bytes" where
  "computePubKeyBalanceKey pubKey = 98 # pubKey"

definition encodeChainTip :: "block_id \<Rightarrow> int \<Rightarrow> bytes" where
  "encodeChainTip i height = id_bytes i @ be 8 height"

definition decodeChainTip :: "bytes \<Rightarrow> (block_id \<times> int) result" where
  "decodeChainTip ctBytes =
     bindE (read_array32 ctBytes) (\<lambda>(i, buf).
       bindE (read_i64 buf) (\<lambda>(height, buf). Inr (id_of_bytes i, height)))"

definition encodeNumber :: "int \<Rightarrow> bytes" where
  "encodeNumber num = be 8 num"

text \<open>The balance readers ignore a read error and keep the zero they started from.\<close>

definition decodeNumber :: "bytes \<Rightarrow> int" where
  "decodeNumber bs = (case read_i64 bs of Inl e \<Rightarrow> 0 | Inr (n, buf) \<Rightarrow> n)"

definition encodeTransactionIndex :: "int \<Rightarrow> int \<Rightarrow> bytes" where
  "encodeTransactionIndex height index = be 8 height @ be 4 (i32 index)"

definition decodeTransactionIndex :: "bytes \<Rightarrow> (int \<times> int) result" where
  "decodeTransactionIndex indexBytes =
     bindE (read_i64 indexBytes) (\<lambda>(height, buf).
       bindE (read_i32 buf) (\<lambda>(index, buf). Inr (height, index)))"

lemmas schema_defs = computeBranchTypeKey_def computeBlockHeightIndexKey_def computeChainTipKey_def
  computeTransactionIndexKey_def computePubKeyTransactionIndexKey_def computePubKeyBalanceKey_def

section \<open>Keys are unambiguous\<close>

lemma key_tables_disjoint [simp]:
  "computeBranchTypeKey i \<noteq> computeBlockHeightIndexKey h"
  "computeBlockHeightIndexKey h \<noteq> computeBranchTypeKey i"
  "computeBranchTypeKey i \<noteq> computeChainTipKey"
  "computeChainTipKey \<noteq> computeBranchTypeKey i"
  "computeBranchTypeKey i \<noteq> computeTransactionIndexKey t"
  "computeTransactionIndexKey t \<noteq> computeBranchTypeKey i"
  "computeBranchTypeKey i \<noteq> computePubKeyTransactionIndexKey p ho xo"
  "computePubKeyTransactionIndexKey p ho xo \<noteq> computeBranchTypeKey i"
  "computeBranchTypeKey i \<noteq> computePubKeyBalanceKey q"
  "computePubKeyBalanceKey q \<noteq> computeBranchTypeKey i"
  "computeBlockHeightIndexKey h \<noteq> computeChainTipKey"
  "computeChainTipKey \<noteq> computeBlockHeightIndexKey h"
  "computeBlockHeightIndexKey h \<noteq> computeTransactionIndexKey t"
  "computeTransactionIndexKey t \<noteq> computeBlockHeightIndexKey h"
  "computeBlockHeightIndexKey h \<noteq> computePubKeyTransactionIndexKey p ho xo"
  "computePubKeyTransactionIndexKey p ho xo \<noteq> computeBlockHeightIndexKey h"
  "computeBlockHeightIndexKey h \<noteq> computePubKeyBalanceKey q"
  "computePubKeyBalanceKey q \<noteq> computeBlockHeightIndexKey h"
  "computeChainTipKey \<noteq> computeTransactionIndexKey t"
  "computeTransactionIndexKey t \<noteq> computeChainTipKey"
  "computeChainTipKey \<noteq> computePubKeyTransactionIndexKey p ho xo"
  "computePubKeyTransactionIndexKey p ho xo \<noteq> computeChainTipKey"
  "computeChainTipKey \<noteq> computePubKeyBalanceKey q"
  "computePubKeyBalanceKey q \<noteq> computeChainTipKey"
  "computeTransactionIndexKey t \<noteq> computePubKeyTransactionIndexKey p ho xo"
  "computePubKeyTransactionIndexKey p ho xo \<noteq> computeTransactionIndexKey t"
  "computeTransactionIndexKey t \<noteq> computePubKeyBalanceKey q"
  "computePubKeyBalanceKey q \<noteq> computeTransactionIndexKey t"
  "computePubKeyTransactionIndexKey p ho xo \<noteq> computePubKeyBalanceKey q"
  "computePubKeyBalanceKey q \<noteq> computePubKeyTransactionIndexKey p ho xo"
  by (simp_all add: schema_defs)

lemma key_inject [simp]:
  "computeBranchTypeKey i = computeBranchTypeKey j \<longleftrightarrow> i = j"
  "computeTransactionIndexKey t = computeTransactionIndexKey u \<longleftrightarrow> t = u"
  "computePubKeyBalanceKey p = computePubKeyBalanceKey q \<longleftrightarrow> p = q"
  by (simp_all add: schema_defs)

lemma height_key_inject:
  "int64 g \<Longrightarrow> int64 h \<Longrightarrow> computeBlockHeightIndexKey g = computeBlockHeightIndexKey h \<longleftrightarrow> g = h"
  by (simp add: schema_defs be8_inject)

lemma pk_key_inject:
  "length p = length q \<Longrightarrow> int64 g \<Longrightarrow> int64 h \<Longrightarrow> int32 i \<Longrightarrow> int32 j \<Longrightarrow>
   computePubKeyTransactionIndexKey p (Some g) (Some i) = computePubKeyTransactionIndexKey q (Some h) (Some j)
   \<longleftrightarrow> p = q \<and> g = h \<and> i = j"
  by (auto simp: schema_defs append_eq_append_conv be8_inject be4_inject i32_id)

section \<open>Values decode\<close>

lemma decode_chain_tip [codec_simps]: "int64 h \<Longrightarrow> decodeChainTip (encodeChainTip i h) = Inr (i, h)"
  using read_i64_be [of h "[]"]
  by (simp add: decodeChainTip_def encodeChainTip_def read_array32_append)

lemma decode_number [codec_simps]: "int64 n \<Longrightarrow> decodeNumber (encodeNumber n) = n"
  using read_i64_be [of n "[]"] by (simp add: decodeNumber_def encodeNumber_def)

lemma decode_tx_index [codec_simps]:
  "int64 h \<Longrightarrow> int32 i \<Longrightarrow> decodeTransactionIndex (encodeTransactionIndex h i) = Inr (h, i)"
  using read_i32_be [of i "[]"]
  by (simp add: decodeTransactionIndex_def encodeTransactionIndex_def read_i64_be i32_id)

lemma decode_pk_key [codec_simps]:
  "length p = 32 \<Longrightarrow> int64 h \<Longrightarrow> int32 i \<Longrightarrow>
   decodePubKeyTransactionIndexKey (computePubKeyTransactionIndexKey p (Some h) (Some i)) = Inr (p, h, i)"
  using read_i32_be [of i "[]"]
  by (simp add: decodePubKeyTransactionIndexKey_def schema_defs read_array32_append read_i64_be i32_id)

lemma int64_decodeNumber [simp]: "int64 (decodeNumber bs)"
  by (cases "length bs < 8") (simp_all add: decodeNumber_def read_i64_def, simp add: int64_def)

section \<open>The order of index keys\<close>

lemma pk_key_less:
  assumes "length p = length q" "0 \<le> g" "int64 g" "0 \<le> h" "int64 h" "0 \<le> i" "int32 i" "0 \<le> j" "int32 j"
  shows "computePubKeyTransactionIndexKey p (Some g) (Some i) < computePubKeyTransactionIndexKey q (Some h) (Some j)
    \<longleftrightarrow> p < q \<or> p = q \<and> (g < h \<or> g = h \<and> i < j)"
  using assms
  by (simp add: schema_defs append_less_append be_less_iff i32_id be_eq_iff int64_def int32_def)

end
