(* ===== verification/Ledger.thy ===== *)
theory Ledger
  imports Block_Storage Balance_Cache Ledger_Schema
begin

text \<open>
  \<^verbatim>\<open>src/ledger_disk.go\<close>, the implementation of the interface \<^verbatim>\<open>Ledger\<close> (\<^verbatim>\<open>src/ledger.go\<close>) on
  LevelDB. Every operation is modelled on the bytes of the database, with its error returns.
  The block storage the ledger reads old coinbases and pruned blocks from is an argument.
\<close>

text \<open>\<^verbatim>\<open>BranchType\<close> is an integer; a block the ledger has no record of is UNKNOWN.\<close>

type_synonym branch_type = int

definition MAIN :: branch_type where [simp]: "MAIN = 0"
definition SIDE :: branch_type where [simp]: "SIDE = 1"
definition ORPHAN :: branch_type where [simp]: "ORPHAN = 2"
definition UNKNOWN :: branch_type where [simp]: "UNKNOWN = 3"

record ledger =
  l_db :: leveldb
  l_prune :: bool

section \<open>Chain tip, height index and branch types\<close>

definition GetChainTip :: "ledger \<Rightarrow> (block_id \<times> int) option result" where
  "GetChainTip l =
     bindE (db_Get (l_db l) computeChainTipKey) (\<lambda>ct.
       case ct of None \<Rightarrow> Inr None
       | Some ctBytes \<Rightarrow> bindE (decodeChainTip ctBytes) (\<lambda>tip. Inr (Some tip)))"

definition GetBlockIDForHeight :: "ledger \<Rightarrow> int \<Rightarrow> block_id option result" where
  "GetBlockIDForHeight l height =
     bindE (db_Get (l_db l) (computeBlockHeightIndexKey height)) (\<lambda>v. Inr (map_option id_of_bytes v))"

definition SetBranchType :: "block_id \<Rightarrow> branch_type \<Rightarrow> ledger \<Rightarrow> unit result \<times> ledger" where
  "SetBranchType i branchType l =
     (case db_Write [Put (computeBranchTypeKey i) [word_of_int branchType]] (l_db l) of
        (r, db) \<Rightarrow> (r, l\<lparr>l_db := db\<rparr>))"

definition GetBranchType :: "ledger \<Rightarrow> block_id \<Rightarrow> branch_type result" where
  "GetBranchType l i =
     bindE (db_Get (l_db l) (computeBranchTypeKey i)) (\<lambda>v.
       case v of None \<Rightarrow> Inr UNKNOWN
       | Some [] \<Rightarrow> Inl (Panic ''index out of range'')
       | Some (b # _) \<Rightarrow> Inr (uint b))"

section \<open>Balances and transaction indices\<close>

definition GetPublicKeyBalance :: "ledger \<Rightarrow> bytes \<Rightarrow> int result" where
  "GetPublicKeyBalance l pubKey =
     bindE (db_Get (l_db l) (computePubKeyBalanceKey pubKey)) (\<lambda>v.
       case v of None \<Rightarrow> Inr 0 | Some balanceBytes \<Rightarrow> Inr (decodeNumber balanceBytes))"

fun balancesLoop :: "ledger \<Rightarrow> bytes list \<Rightarrow> (bytes \<times> int) list \<Rightarrow> (bytes \<times> int) list result" where
  "balancesLoop l [] balances = Inr balances"
| "balancesLoop l (pubKey # pubKeys) balances =
     bindE (db_Get (l_db l) (computePubKeyBalanceKey pubKey)) (\<lambda>v.
       balancesLoop l pubKeys (AList.update (copy32 pubKey)
         (case v of None \<Rightarrow> 0 | Some balanceBytes \<Rightarrow> decodeNumber balanceBytes) balances))"

definition getSnapshot :: "ledger \<Rightarrow> unit result" where
  "getSnapshot l = (if iterFault (l_db l) then Inl IOError else Inr ())"

definition GetPublicKeyBalances ::
  "ledger \<Rightarrow> bytes list \<Rightarrow> ((bytes \<times> int) list \<times> (block_id \<times> int) option) result" where
  "GetPublicKeyBalances l pubKeys =
     bindE (getSnapshot l) (\<lambda>_.
       bindE (GetChainTip l) (\<lambda>tip.
         bindE (balancesLoop l pubKeys []) (\<lambda>balances. Inr (balances, tip))))"

definition GetTransactionIndex :: "ledger \<Rightarrow> tx_id \<Rightarrow> (block_id option \<times> int) result" where
  "GetTransactionIndex l i =
     bindE (getSnapshot l) (\<lambda>_.
       bindE (db_Get (l_db l) (computeTransactionIndexKey i)) (\<lambda>v.
         case v of None \<Rightarrow> Inr (None, 0)
         | Some indexBytes \<Rightarrow>
             bindE (decodeTransactionIndex indexBytes) (\<lambda>(height, index).
               bindE (GetBlockIDForHeight l height) (\<lambda>blockID. Inr (blockID, index)))))"

section \<open>Connecting and disconnecting blocks\<close>

text \<open>The coinbase that matures with the block at the given height.\<close>

definition maturedCoinbase :: "block_store \<Rightarrow> ledger \<Rightarrow> int \<Rightarrow> transaction option result" where
  "maturedCoinbase bs l height =
     (if i64 (height - COINBASE_MATURITY) \<ge> 0 then
        bindE (GetBlockIDForHeight l (i64 (height - COINBASE_MATURITY))) (\<lambda>oldID.
          case oldID of None \<Rightarrow> Inl (Err ''Missing block at height'')
          | Some oldID \<Rightarrow>
              bindE (bs_GetTransaction bs oldID 0) (\<lambda>oldTx.
                case oldTx of None \<Rightarrow> Inl (Err ''Missing coinbase from block'')
                | Some (oldTx, _) \<Rightarrow> Inr (Some oldTx)))
      else Inr None)"

text \<open>The index entries of a transaction for its sender, if any, and its recipient.\<close>

definition partyKeys :: "transaction \<Rightarrow> int \<Rightarrow> nat \<Rightarrow> bytes list" where
  "partyKeys tx height i =
     (if IsCoinbase tx then []
      else [computePubKeyTransactionIndexKey (octets (tx_From tx)) (Some height) (Some (int i))])
     @ [computePubKeyTransactionIndexKey (octets (tx_To tx)) (Some height) (Some (int i))]"

definition applyToCache :: "ledger \<Rightarrow> transaction option \<Rightarrow> balance_cache \<Rightarrow> balance_cache result" where
  "applyToCache l txToApply balanceCache =
     (case txToApply of None \<Rightarrow> Inr balanceCache
      | Some tx \<Rightarrow>
          (case Apply (GetPublicKeyBalance l) tx balanceCache of
             (Inl e, _) \<Rightarrow> Inl e
           | (Inr False, _) \<Rightarrow> Inl (Err ''Sender has insuffcient balance in transaction'')
           | (Inr True, balanceCache') \<Rightarrow> Inr balanceCache'))"

fun connectTxs :: "crypto \<Rightarrow> block_store \<Rightarrow> ledger \<Rightarrow> int \<Rightarrow> nat \<Rightarrow> transaction list
    \<Rightarrow> batch_op list \<Rightarrow> balance_cache \<Rightarrow> tx_id list \<Rightarrow> (batch_op list \<times> balance_cache \<times> tx_id list) result" where
  "connectTxs cr bs l height i [] batch balanceCache txIDs = Inr (batch, balanceCache, txIDs)"
| "connectTxs cr bs l height i (tx # txs) batch balanceCache txIDs =
     (let txID = tx_ID cr tx; key = computeTransactionIndexKey txID
      in bindE (db_Has (l_db l) key) (\<lambda>ok.
           if ok then Inl (Err ''Transaction already processed'')
           else bindE (if IsCoinbase tx then maturedCoinbase bs l height else Inr (Some tx)) (\<lambda>txToApply.
             bindE (applyToCache l txToApply balanceCache) (\<lambda>balanceCache'.
               connectTxs cr bs l height (Suc i) txs
                 (batch @ [Put key (encodeTransactionIndex height (int i))]
                    @ map (\<lambda>k. Put k [1]) (partyKeys tx height i))
                 balanceCache' (txIDs @ [txID])))))"

definition balanceOps :: "(bytes \<times> int) list \<Rightarrow> batch_op list" where
  "balanceOps balances =
     map (\<lambda>(pubKey, balance). if balance = 0 then Delete (computePubKeyBalanceKey pubKey)
                    else Put (computePubKeyBalanceKey pubKey) (encodeNumber balance)) balances"

fun pruneTxs :: "crypto \<Rightarrow> int \<Rightarrow> nat \<Rightarrow> transaction list \<Rightarrow> batch_op list" where
  "pruneTxs cr height i [] = []"
| "pruneTxs cr height i (tx # txs) =
     Delete (computeTransactionIndexKey (tx_ID cr tx)) # map Delete (partyKeys tx height i)
     @ pruneTxs cr height (Suc i) txs"

fun restoreTxs :: "crypto \<Rightarrow> int \<Rightarrow> nat \<Rightarrow> transaction list \<Rightarrow> batch_op list" where
  "restoreTxs cr height i [] = []"
| "restoreTxs cr height i (tx # txs) =
     Put (computeTransactionIndexKey (tx_ID cr tx)) (encodeTransactionIndex height (int i))
     # map (\<lambda>k. Put k [1]) (partyKeys tx height i)
     @ restoreTxs cr height (Suc i) txs"

definition blockAtHeight :: "block_store \<Rightarrow> ledger \<Rightarrow> int \<Rightarrow> block result" where
  "blockAtHeight bs l height =
     bindE (GetBlockIDForHeight l height) (\<lambda>i.
       case i of None \<Rightarrow> Inl (Err ''Missing block ID for height'')
       | Some i \<Rightarrow> bindE (bs_GetBlock bs i) (\<lambda>b.
           case b of None \<Rightarrow> Inl (Err ''Missing block'') | Some b \<Rightarrow> Inr b))"

definition pruneIndices :: "crypto \<Rightarrow> block_store \<Rightarrow> ledger \<Rightarrow> int \<Rightarrow> batch_op list result" where
  "pruneIndices cr bs l height =
     bindE (blockAtHeight bs l height) (\<lambda>b. Inr (pruneTxs cr (Height (Header b)) 0 (Transactions b)))"

definition restoreIndices :: "crypto \<Rightarrow> block_store \<Rightarrow> ledger \<Rightarrow> int \<Rightarrow> batch_op list result" where
  "restoreIndices cr bs l height =
     bindE (blockAtHeight bs l height) (\<lambda>b. Inr (restoreTxs cr (Height (Header b)) 0 (Transactions b)))"

definition connectBatch ::
  "crypto \<Rightarrow> block_store \<Rightarrow> ledger \<Rightarrow> block_id \<Rightarrow> block \<Rightarrow> (batch_op list \<times> tx_id list) result" where
  "connectBatch cr bs l i b =
     bindE (GetChainTip l) (\<lambda>tip.
       if (case tip of None \<Rightarrow> False | Some (tipID, _) \<Rightarrow> tipID \<noteq> Previous (Header b))
       then Inl (Err ''Being asked to connect but previous does not match tip'')
       else bindE (connectTxs cr bs l (Height (Header b)) 0 (Transactions b) [] (NewBalanceCache 0) [])
         (\<lambda>(batch, balanceCache, txIDs).
            bindE (if l_prune l \<and> Height (Header b) \<ge> 2 * BLOCKS_UNTIL_NEW_SERIES
                   then pruneIndices cr bs l (Height (Header b) - 2 * BLOCKS_UNTIL_NEW_SERIES)
                   else Inr []) (\<lambda>pruned.
              Inr (batch @ balanceOps (Balances balanceCache)
                   @ [Put (computeBlockHeightIndexKey (Height (Header b))) (id_bytes i),
                      Put (computeBranchTypeKey i) [word_of_int MAIN],
                      Put computeChainTipKey (encodeChainTip i (Height (Header b)))]
                   @ pruned, txIDs))))"

definition writeBatch :: "(batch_op list \<times> 'a) result \<Rightarrow> ledger \<Rightarrow> 'a result \<times> ledger" where
  "writeBatch r l =
     (case r of Inl e \<Rightarrow> (Inl e, l)
      | Inr (batch, x) \<Rightarrow>
          (case db_Write batch (l_db l) of
             (Inl e, db) \<Rightarrow> (Inl e, l\<lparr>l_db := db\<rparr>)
           | (Inr _, db) \<Rightarrow> (Inr x, l\<lparr>l_db := db\<rparr>)))"

definition ConnectBlock ::
  "crypto \<Rightarrow> block_store \<Rightarrow> block_id \<Rightarrow> block \<Rightarrow> ledger \<Rightarrow> tx_id list result \<times> ledger" where
  "ConnectBlock cr bs i b l = writeBatch (connectBatch cr bs l i b) l"

definition undoInCache :: "ledger \<Rightarrow> transaction option \<Rightarrow> balance_cache \<Rightarrow> balance_cache result" where
  "undoInCache l txToUndo balanceCache =
     (case txToUndo of None \<Rightarrow> Inr balanceCache
      | Some tx \<Rightarrow>
          (case Undo (GetPublicKeyBalance l) tx balanceCache of
             (Inl e, _) \<Rightarrow> Inl e
           | (Inr _, balanceCache') \<Rightarrow> Inr balanceCache'))"

text \<open>The loop runs from the last transaction to the first: the list is the reversed block.\<close>

fun disconnectTxs :: "crypto \<Rightarrow> block_store \<Rightarrow> ledger \<Rightarrow> int \<Rightarrow> transaction list
    \<Rightarrow> batch_op list \<Rightarrow> balance_cache \<Rightarrow> tx_id list \<Rightarrow> (batch_op list \<times> balance_cache \<times> tx_id list) result" where
  "disconnectTxs cr bs l height [] batch balanceCache txIDs = Inr (batch, balanceCache, txIDs)"
| "disconnectTxs cr bs l height (tx # txs) batch balanceCache txIDs =
     (let txID = tx_ID cr tx; i = length txs
      in bindE (if IsCoinbase tx then maturedCoinbase bs l height else Inr (Some tx)) (\<lambda>txToUndo.
           bindE (undoInCache l txToUndo balanceCache) (\<lambda>balanceCache'.
             disconnectTxs cr bs l height txs
               (batch @ [Delete (computeTransactionIndexKey txID)]
                  @ map Delete (partyKeys tx height i))
               balanceCache' (txID # txIDs))))"

definition disconnectBatch ::
  "crypto \<Rightarrow> block_store \<Rightarrow> ledger \<Rightarrow> block_id \<Rightarrow> block \<Rightarrow> (batch_op list \<times> tx_id list) result" where
  "disconnectBatch cr bs l i b =
     bindE (GetChainTip l) (\<lambda>tip.
       case tip of None \<Rightarrow> Inl (Err ''Being asked to disconnect but no tip is currently set'')
       | Some (tipID, _) \<Rightarrow>
           if tipID \<noteq> i then Inl (Err ''Being asked to disconnect but it does not match tip'')
           else bindE (disconnectTxs cr bs l (Height (Header b)) (rev (Transactions b)) [] (NewBalanceCache 0) [])
             (\<lambda>(batch, balanceCache, txIDs).
                bindE (if l_prune l \<and> Height (Header b) \<ge> 2 * BLOCKS_UNTIL_NEW_SERIES
                       then restoreIndices cr bs l (Height (Header b) - 2 * BLOCKS_UNTIL_NEW_SERIES)
                       else Inr []) (\<lambda>restored.
                  Inr (batch @ balanceOps (Balances balanceCache)
                       @ [Delete (computeBlockHeightIndexKey (Height (Header b))),
                          Put (computeBranchTypeKey i) [word_of_int SIDE],
                          Put computeChainTipKey
                            (encodeChainTip (Previous (Header b)) (i64 (Height (Header b) - 1)))]
                       @ restored, txIDs))))"

definition DisconnectBlock ::
  "crypto \<Rightarrow> block_store \<Rightarrow> block_id \<Rightarrow> block \<Rightarrow> ledger \<Rightarrow> tx_id list result \<times> ledger" where
  "DisconnectBlock cr bs i b l = writeBatch (disconnectBatch cr bs l i b) l"

end
