(* ===== verification/Supply.thy ===== *)
theory Supply
  imports Balance_Cache
begin

text \<open>
  Tables of balances with finitely many non-zero entries, their total, and what a sequence of
  transfers does to it. These lemmas carry the conservation theorems of the ledger: transfers
  move money, coinbases create it, and fees leave the table until a coinbase pays them out.
\<close>

definition supp :: "(bytes \<Rightarrow> int) \<Rightarrow> bytes set" where
  "supp f = {pk. f pk \<noteq> 0}"

definition total :: "(bytes \<Rightarrow> int) \<Rightarrow> int" where
  "total f = sum f (supp f)"

definition supply_table :: "(bytes \<Rightarrow> int) \<Rightarrow> bool" where
  "supply_table f \<longleftrightarrow> finite (supp f) \<and> (\<forall>pk. 0 \<le> f pk) \<and> total f \<le> MAX_MONEY"

definition minted :: "transaction list \<Rightarrow> int" where
  "minted ts = sum_list (map (\<lambda>tx. if IsCoinbase tx then tx_Amount tx else 0) ts)"

definition fees :: "transaction list \<Rightarrow> int" where
  "fees ts = sum_list (map (\<lambda>tx. if IsCoinbase tx then 0 else tx_Fee tx) ts)"

definition transfers :: "transaction list \<Rightarrow> (bytes \<Rightarrow> int) \<Rightarrow> (bytes \<Rightarrow> int)" where
  "transfers ts f = fold transfer ts f"

lemma total_eq: "finite S \<Longrightarrow> supp f \<subseteq> S \<Longrightarrow> total f = sum f S"
  unfolding total_def supp_def by (rule sum.mono_neutral_left) auto

lemma supp_transfer: "supp (transfer tx f) \<subseteq> supp f \<union> parties tx"
  by (auto simp: supp_def transfer_def parties_def Let_def split: if_splits)

lemma finite_parties [simp]: "finite (parties tx)"
  by (simp add: parties_def)

lemma finite_supp_transfer: "finite (supp f) \<Longrightarrow> finite (supp (transfer tx f))"
  by (rule finite_subset [OF supp_transfer]) simp

lemma total_transfer:
  assumes "finite (supp f)"
  shows "total (transfer tx f) = total f + (if IsCoinbase tx then tx_Amount tx else - tx_Fee tx)"
proof -
  let ?S = "supp f \<union> parties tx"
  have S: "finite ?S" "octets (tx_To tx) \<in> ?S" "\<not> IsCoinbase tx \<longrightarrow> octets (tx_From tx) \<in> ?S"
    using assms by (auto simp: parties_def)
  have "total (transfer tx f) = sum (transfer tx f) ?S"
    using S(1) supp_transfer by (rule total_eq)
  also have "\<dots> = sum f ?S + (if IsCoinbase tx then tx_Amount tx else - tx_Fee tx)"
    using S by (rule sum_transfer)
  also have "sum f ?S = total f"
    using S(1) by (intro total_eq [symmetric]) auto
  finally show ?thesis .
qed

lemma le_total:
  assumes "finite (supp f)" "\<And>k. 0 \<le> f k"
  shows "f pk \<le> total f"
proof (cases "pk \<in> supp f")
  case True
  with assms show ?thesis unfolding total_def by (intro member_le_sum) auto
next
  case False
  then have "f pk = 0" by (simp add: supp_def)
  with assms show ?thesis by (simp add: total_def sum_nonneg)
qed

lemma supply_money: "supply_table f \<Longrightarrow> money_table f"
  unfolding supply_table_def money_table_def
  by (auto intro: order_trans [OF le_total])

lemma transfers_simps [simp]:
  "transfers [] f = f"
  "transfers (tx # ts) f = transfers ts (transfer tx f)"
  "transfers (ts @ us) f = transfers us (transfers ts f)"
  by (simp_all add: transfers_def)

lemma minted_simps [simp]:
  "minted [] = 0"
  "minted (tx # ts) = (if IsCoinbase tx then tx_Amount tx else 0) + minted ts"
  "minted (ts @ us) = minted ts + minted us"
  by (simp_all add: minted_def)

lemma fees_simps [simp]:
  "fees [] = 0"
  "fees (tx # ts) = (if IsCoinbase tx then 0 else tx_Fee tx) + fees ts"
  "fees (ts @ us) = fees ts + fees us"
  by (simp_all add: fees_def)

lemma minted_nonneg: "\<forall>tx \<in> set ts. tx_ok tx \<Longrightarrow> 0 \<le> minted ts"
  by (induction ts) (auto simp: tx_ok_def)

lemma fees_nonneg: "\<forall>tx \<in> set ts. tx_ok tx \<Longrightarrow> 0 \<le> fees ts"
  by (induction ts) (auto simp: tx_ok_def)

lemma finite_supp_transfers: "finite (supp f) \<Longrightarrow> finite (supp (transfers ts f))"
  by (induction ts arbitrary: f) (auto intro: finite_supp_transfer)

lemma total_transfers: "finite (supp f) \<Longrightarrow> total (transfers ts f) = total f + minted ts - fees ts"
  by (induction ts arbitrary: f) (auto simp: total_transfer finite_supp_transfer)

text \<open>Every intermediate table of a run of transfers is a table of money.\<close>

fun money_run :: "transaction list \<Rightarrow> (bytes \<Rightarrow> int) \<Rightarrow> bool" where
  "money_run [] f = money_table f"
| "money_run (tx # ts) f = (money_table f \<and> money_run ts (transfer tx f))"

lemma money_run_ends: "money_run ts f \<Longrightarrow> money_table f \<and> money_table (transfers ts f)"
  by (induction ts arbitrary: f) auto

lemma money_run_snoc:
  "money_run (ts @ [tx]) f \<longleftrightarrow> money_run ts f \<and> money_table (transfer tx (transfers ts f))"
  by (induction ts arbitrary: f) auto

text \<open>The amount moved by non-coinbase transactions bounds their fees by the money there is.\<close>

lemma fees_le_total:
  assumes "finite (supp f)" "money_run ts f"
  shows "fees ts \<le> total f + minted ts"
proof -
  have nn: "0 \<le> transfers ts f pk" for pk
    using money_run_ends [OF assms(2)] by (simp add: money_table_def)
  have "0 \<le> total (transfers ts f)"
    unfolding total_def by (intro sum_nonneg nn)
  with total_transfers [OF assms(1), of ts] show ?thesis by simp
qed

end
