(* ===== verification/Checks.thy ===== *)
theory Checks
  imports Block Balance_Cache
begin

text \<open>
  The context-free consensus rules: \<^verbatim>\<open>checkTransaction\<close>, \<^verbatim>\<open>checkTransactionSeries\<close>, \<^verbatim>\<open>checkBlock\<close>,
  \<^verbatim>\<open>computeMaxTransactionsPerBlock\<close> and \<^verbatim>\<open>BlockCreationReward\<close> of \<^verbatim>\<open>src/processor.go\<close>, and the
  checkpoints of \<^verbatim>\<open>src/checkpoints.go\<close>. The lemmas say what a transaction or block that passes is
  guaranteed to satisfy, how the reward schedule bounds the money supply, how the size limit grows,
  and how series numbers bound the time in which a transaction can be replayed.
\<close>

text \<open>Go's shifts by an unsigned 64-bit count.\<close>

definition go_shr :: "int \<Rightarrow> int \<Rightarrow> int" where
  "go_shr x n = (let c = n mod 18446744073709551616
     in if c \<ge> 64 then (if x < 0 then - 1 else 0) else x div 2 ^ nat c)"

definition go_shl :: "int \<Rightarrow> int \<Rightarrow> int" where
  "go_shl x n = (let c = n mod 18446744073709551616
     in if c \<ge> 64 then 0 else i64 (x * 2 ^ nat c))"

definition BlockCreationReward :: "int \<Rightarrow> int" where
  "BlockCreationReward height =
     (let halvings = height sdiv BLOCKS_UNTIL_REWARD_HALVING
      in if halvings \<ge> 64 then 0 else go_shr INITIAL_COINBASE_REWARD halvings)"

definition computeMaxTransactionsPerBlock :: "int \<Rightarrow> int result" where
  "computeMaxTransactionsPerBlock height =
     (if height \<ge> MAX_TRANSACTIONS_PER_BLOCK_EXCEEDED_AT_HEIGHT then Inr MAX_TRANSACTIONS_PER_BLOCK
      else let doublings = height sdiv BLOCKS_UNTIL_TRANSACTIONS_PER_BLOCK_DOUBLING
      in if doublings \<ge> 64 then Inl (Panic ''Overflow uint64'')
      else let remainder = height smod BLOCKS_UNTIL_TRANSACTIONS_PER_BLOCK_DOUBLING;
               factor = go_shl 1 doublings;
               interpolate = i64 (i64 (INITIAL_MAX_TRANSACTIONS_PER_BLOCK * factor) * remainder)
                 sdiv BLOCKS_UNTIL_TRANSACTIONS_PER_BLOCK_DOUBLING
      in Inr (i64 (i64 (INITIAL_MAX_TRANSACTIONS_PER_BLOCK * factor) + interpolate)))"

section \<open>Transactions\<close>

definition checkTransaction :: "transaction \<Rightarrow> unit result" where
  "checkTransaction tx =
     (if tx_Time tx < 0 \<or> tx_Time tx > MAX_NUMBER then Inl (Err ''Invalid transaction time'')
      else if tx_Nonce tx < 0 then Inl (Err ''Negative nonce value'')
      else if IsCoinbase tx \<and> tx_Fee tx > 0 then Inl (Err ''Coinbase can't have a fee'')
      else if IsCoinbase tx \<and> tx_Matures tx > 0 then Inl (Err ''Coinbase can't have a maturity'')
      else if IsCoinbase tx \<and> tx_Expires tx > 0 then Inl (Err ''Coinbase can't expire'')
      else if IsCoinbase tx \<and> length (octets (tx_Signature tx)) \<noteq> 0
        then Inl (Err ''Coinbase can't have a signature'')
      else if \<not> IsCoinbase tx \<and> length (octets (tx_From tx)) \<noteq> 32 then Inl (Err ''Invalid transaction sender'')
      else if \<not> IsCoinbase tx \<and> length (octets (tx_Signature tx)) \<noteq> 64
        then Inl (Err ''Invalid transaction signature'')
      else if tx_To tx = None then Inl (Err ''Transaction missing recipient'')
      else if length (octets (tx_To tx)) \<noteq> 32 then Inl (Err ''Invalid transaction recipient'')
      else if octets (tx_From tx) = octets (tx_To tx) then Inl (Err ''Transaction to self is invalid'')
      else if tx_Amount tx \<le> 0 then Inl (Err ''Transaction contains invalid amount'')
      else if tx_Amount tx > MAX_MONEY then Inl (Err ''Transaction contains too large of an amount'')
      else if tx_Fee tx < 0 then Inl (Err ''Transaction contains negative fee'')
      else if tx_Fee tx > MAX_MONEY then Inl (Err ''Transaction contains too large of a fee'')
      else if \<not> utf8_valid (tx_Memo tx) then Inl (Err ''Transaction memo contains invalid utf8 characters'')
      else if length (tx_Memo tx) > MAX_MEMO_LENGTH then Inl (Err ''Transaction memo length exceeded'')
      else if tx_Matures tx < 0 \<or> tx_Matures tx > MAX_NUMBER then Inl (Err ''Invalid maturity'')
      else if tx_Expires tx < 0 \<or> tx_Expires tx > MAX_NUMBER then Inl (Err ''Invalid expiration'')
      else if tx_Series tx \<le> 0 \<or> tx_Series tx > MAX_NUMBER then Inl (Err ''Invalid series'')
      else Inr ())"

definition checkTransactionSeries :: "transaction \<Rightarrow> int \<Rightarrow> bool" where
  "checkTransactionSeries tx height \<longleftrightarrow>
     (if tx_From tx = None then tx_Series tx = i64 (height sdiv BLOCKS_UNTIL_NEW_SERIES + 1)
      else let high = i64 (height sdiv BLOCKS_UNTIL_NEW_SERIES + 1);
               low = (if i64 (high - 1) = 0 then 1 else i64 (high - 1))
           in tx_Series tx \<ge> low \<and> tx_Series tx \<le> high)"

section \<open>Checkpoints\<close>

definition CheckpointsEnabled :: bool where
  "CheckpointsEnabled = True"

definition LatestCheckpointHeight :: int where
  "LatestCheckpointHeight = 18144"

definition Checkpoints :: "(int \<times> bytes) list" where
  "Checkpoints = [(18144, str ''000000000000b83e78ec29355d098256936389010d7450a288763ed4f191069e'')]"

definition CheckpointCheck :: "block_id \<Rightarrow> int \<Rightarrow> unit result" where
  "CheckpointCheck i height =
     (if \<not> CheckpointsEnabled then Inr ()
      else (case map_of Checkpoints height of None \<Rightarrow> Inr ()
            | Some checkpointID \<Rightarrow>
                if id_String i \<noteq> checkpointID then Inl (Err ''Block does not match checkpoint ID'')
                else Inr ()))"

section \<open>Blocks\<close>

fun checkTransactions :: "crypto \<Rightarrow> transaction list \<Rightarrow> tx_id list \<Rightarrow> tx_id list result" where
  "checkTransactions cr [] txIDs = Inr txIDs"
| "checkTransactions cr (tx # txs) txIDs =
     bindE (checkTransaction tx) (\<lambda>_. checkTransactions cr txs (List.insert (tx_ID cr tx) txIDs))"

definition checkBlock :: "crypto \<Rightarrow> block_id \<Rightarrow> block \<Rightarrow> int \<Rightarrow> unit result" where
  "checkBlock cr i b now =
     (let h = Header b; txs = Transactions b
      in if bh_Time h < 0 \<or> bh_Time h > MAX_NUMBER then Inl (Err ''Time value is invalid'')
      else if bh_Time h > i64 (now + MAX_FUTURE_SECONDS) then Inl (Err ''Timestamp too far in the future'')
      else if \<not> CheckPOW b i then Inl (Err ''Insufficient proof-of-work'')
      else if bh_Nonce h < 0 \<or> bh_Nonce h > MAX_NUMBER then Inl (Err ''Nonce value is invalid'')
      else if Height h < 0 \<or> Height h > MAX_NUMBER then Inl (Err ''Height value is invalid'')
      else bindE (CheckpointCheck i (Height h)) (\<lambda>_.
        if TransactionCount h < 0 then Inl (Err ''Negative transaction count in header'')
        else if TransactionCount h \<noteq> int (length txs)
          then Inl (Err ''Transaction count in header doesn't match block'')
        else if length txs = 0 then Inl (Err ''No transactions in block'')
        else if \<not> IsCoinbase (txs ! 0) then Inl (Err ''First transaction is not a coinbase'')
        else bindE (computeMaxTransactionsPerBlock (Height h)) (\<lambda>m.
          if int (length txs) > m then Inl (Err ''Block contains too many transactions'')
          else if (\<exists>tx \<in> set (drop 1 txs). IsCoinbase tx) then Inl (Err ''Multiple coinbase transactions'')
          else bindE (checkTransactions cr txs []) (\<lambda>txIDs.
            if length txIDs \<noteq> length txs then Inl (Err ''Duplicate transaction in block'')
            else bindE (computeHashListRoot cr [] txs) (\<lambda>(hashListRoot, _).
              if hashListRoot \<noteq> HashListRoot h then Inl (Err ''Hash list root mismatch'')
              else Inr ())))))"

section \<open>What a checked transaction satisfies\<close>

lemma checkTransaction_tx_ok: "checkTransaction tx = Inr () \<Longrightarrow> tx_ok tx"
  by (auto simp: checkTransaction_def tx_ok_def IsCoinbase_def octets_def split: if_splits option.splits)

lemma length_fold_insert_le: "length (fold List.insert xs ys) \<le> length ys + length xs"
proof (induction xs arbitrary: ys)
  case Nil
  then show ?case by simp
next
  case (Cons x xs)
  show ?case
    using Cons [of ys] Cons [of "x # ys"] by (cases "x \<in> set ys") simp_all
qed

lemma length_fold_insert:
  "length (fold List.insert xs ys) = length ys + length xs \<longleftrightarrow> distinct xs \<and> set xs \<inter> set ys = {}"
proof (induction xs arbitrary: ys)
  case Nil
  then show ?case by simp
next
  case (Cons x xs)
  show ?case
  proof (cases "x \<in> set ys")
    case True
    with length_fold_insert_le [of xs ys] show ?thesis by auto
  next
    case False
    with Cons.IH [of "x # ys"] show ?thesis by auto
  qed
qed

lemma checkTransactions_Inr:
  "checkTransactions cr txs ids = Inr ids' \<longleftrightarrow>
     (\<forall>tx \<in> set txs. checkTransaction tx = Inr ()) \<and> ids' = fold List.insert (map (tx_ID cr) txs) ids"
  by (induction txs arbitrary: ids) (auto simp: result_simps)

lemma checkTransactions_distinct:
  "checkTransactions cr txs [] = Inr ids \<Longrightarrow> length ids = length txs \<Longrightarrow> distinct (map (tx_ID cr) txs)"
  using length_fold_insert [of "map (tx_ID cr) txs" "[]"] by (simp add: checkTransactions_Inr)

text \<open>The shape of a block that passed: what the ledger relies on.\<close>

definition block_shape :: "crypto \<Rightarrow> block \<Rightarrow> bool" where
  "block_shape cr b \<longleftrightarrow> (\<exists>c txs. Transactions b = c # txs \<and> IsCoinbase c \<and> (\<forall>tx \<in> set txs. \<not> IsCoinbase tx))
     \<and> (\<forall>tx \<in> set (Transactions b). tx_ok tx) \<and> distinct (map (tx_ID cr) (Transactions b))
     \<and> int (length (Transactions b)) \<le> MAX_TRANSACTIONS_PER_BLOCK
     \<and> 0 \<le> Height (Header b) \<and> Height (Header b) \<le> MAX_NUMBER"

section \<open>The block size limit\<close>

lemma go_shl_small: "0 \<le> n \<Longrightarrow> n < 63 \<Longrightarrow> go_shl 1 n = 2 ^ nat n"
proof -
  assume n: "0 \<le> n" "n < 63"
  then have "(2::int) ^ nat n \<le> 2 ^ 62" by (intro power_increasing) auto
  with n show ?thesis by (simp add: go_shl_def Let_def i64_small)
qed

lemma zdiv_le_mult: "x \<le> a * 105000 \<Longrightarrow> x div 105000 \<le> (a :: int)"
  using zdiv_mono1 [of x "a * 105000" 105000] by simp

lemma max_txs_formula:
  assumes "0 \<le> h" "h < MAX_TRANSACTIONS_PER_BLOCK_EXCEEDED_AT_HEIGHT"
  shows "computeMaxTransactionsPerBlock h =
    Inr (10000 * 2 ^ nat (h div 105000) + 10000 * 2 ^ nat (h div 105000) * (h mod 105000) div 105000)"
proof -
  let ?p = "(2::int) ^ nat (h div 105000)" and ?r = "h mod 105000"
  have d: "0 \<le> h div 105000" "h div 105000 \<le> 17" using assms by auto
  then have "nat (h div 105000) \<le> 17" by simp
  then have p: "1 \<le> ?p" "?p \<le> 131072"
    using power_increasing [of "nat (h div 105000)" 17 "2::int"] by auto
  have r: "0 \<le> ?r" "?r < 105000" by auto
  have "?p * ?r \<le> 131072 * 105000"
    using p r by (intro mult_mono) auto
  then have m: "0 \<le> 10000 * ?p * ?r" "10000 * ?p * ?r \<le> 1310720000 * 105000"
    using p r by (auto simp: mult.assoc mult.commute)
  then have q: "0 \<le> 10000 * ?p * ?r div 105000" "10000 * ?p * ?r div 105000 \<le> 1310720000"
    using zdiv_le_mult [OF m(2)] m(1) by (simp_all only: pos_imp_zdiv_nonneg_iff)
  have c: "\<not> MAX_TRANSACTIONS_PER_BLOCK_EXCEEDED_AT_HEIGHT \<le> h" "\<not> 64 \<le> h div 105000"
      "h sdiv BLOCKS_UNTIL_TRANSACTIONS_PER_BLOCK_DOUBLING = h div 105000"
      "h smod BLOCKS_UNTIL_TRANSACTIONS_PER_BLOCK_DOUBLING = ?r"
    using assms d by simp_all
  have s: "go_shl 1 (h div 105000) = ?p"
    using d by (intro go_shl_small) linarith+
  have w: "i64 (INITIAL_MAX_TRANSACTIONS_PER_BLOCK * ?p) = 10000 * ?p" "i64 (10000 * ?p * ?r) = 10000 * ?p * ?r"
      "i64 (10000 * ?p + 10000 * ?p * ?r div 105000) = 10000 * ?p + 10000 * ?p * ?r div 105000"
    unfolding INITIAL_MAX_TRANSACTIONS_PER_BLOCK_def using p m q by (intro i64_small; linarith)+
  have v: "(10000 * ?p * ?r) sdiv BLOCKS_UNTIL_TRANSACTIONS_PER_BLOCK_DOUBLING = 10000 * ?p * ?r div 105000"
    unfolding BLOCKS_UNTIL_TRANSACTIONS_PER_BLOCK_DOUBLING_def using m(1) by (intro sdiv_nonneg) simp_all
  show ?thesis
    by (simp only: computeMaxTransactionsPerBlock_def Let_def c s w v if_False)
qed

lemma max_txs_step:
  assumes "0 \<le> h" "h + 1 < MAX_TRANSACTIONS_PER_BLOCK_EXCEEDED_AT_HEIGHT"
    and "computeMaxTransactionsPerBlock h = Inr m" "computeMaxTransactionsPerBlock (h + 1) = Inr m'"
  shows "m \<le> m'"
proof -
  let ?f = "\<lambda>h :: int. 10000 * 2 ^ nat (h div 105000) + 10000 * 2 ^ nat (h div 105000) * (h mod 105000) div 105000 :: int"
  have "computeMaxTransactionsPerBlock h = Inr (?f h)" "computeMaxTransactionsPerBlock (h + 1) = Inr (?f (h + 1))"
    using assms(1,2) by (intro max_txs_formula; linarith)+
  with assms(3,4) have m: "m = ?f h" "m' = ?f (h + 1)"
    by (simp_all only: sum.inject)
  show ?thesis
  proof (cases "h mod 105000 = 104999")
    case False
    moreover have "h mod 105000 < 105000" by simp
    ultimately have r: "h mod 105000 + 1 < 105000" by linarith
    have dm: "(h + 1) div 105000 = h div 105000" "(h + 1) mod 105000 = h mod 105000 + 1"
      by (rule int_div_pos_eq [of _ _ _ "h mod 105000 + 1"] int_mod_pos_eq [of _ _ "h div 105000"],
          use r in simp_all)+
    show ?thesis unfolding m dm by (intro add_left_mono zdiv_mono1 mult_left_mono) auto
  next
    case True
    then have h: "h + 1 = 105000 * (h div 105000 + 1)"
      using mult_div_mod_eq [of 105000 h] unfolding distrib_left by linarith
    have dm: "(h + 1) div 105000 = h div 105000 + 1" "(h + 1) mod 105000 = 0"
      unfolding h by simp_all
    have n: "nat (h div 105000 + 1) = Suc (nat (h div 105000))" using assms(1) by (simp add: nat_add_distrib)
    let ?p = "(2::int) ^ nat (h div 105000)"
    have "10000 * ?p * 104999 div 105000 \<le> 10000 * ?p * 105000 div 105000"
      by (intro zdiv_mono1 mult_left_mono) auto
    then have "10000 * ?p * (h mod 105000) div 105000 \<le> 10000 * ?p"
      using True by simp
    then show ?thesis unfolding m dm n by simp
  qed
qed

section \<open>Series\<close>

lemma series_window:
  assumes "0 \<le> h" "h + 2 * BLOCKS_UNTIL_NEW_SERIES \<le> h'" "h' \<le> MAX_NUMBER" "checkTransactionSeries tx h"
  shows "\<not> checkTransactionSeries tx h'"
proof -
  have d: "h div 1008 + 2 \<le> h' div 1008" "0 \<le> h div 1008" "h' div 1008 \<le> MAX_NUMBER"
    using assms by auto
  then have w: "i64 (h div 1008 + 1) = h div 1008 + 1" "i64 (h' div 1008 + 1) = h' div 1008 + 1"
      "i64 (h' div 1008) = h' div 1008"
    by (simp_all add: i64_small)
  from assms d show ?thesis
    by (auto simp: checkTransactionSeries_def Let_def w split: if_splits)
qed

section \<open>The reward schedule\<close>

lemma reward_nat:
  "BlockCreationReward (int h) = (if h div 210000 \<ge> 64 then 0 else 5000000000 div 2 ^ (h div 210000))"
proof -
  have d: "int h sdiv 210000 = int (h div 210000)" by (simp add: zdiv_int)
  have "int (h div 210000) mod 18446744073709551616 = int (h div 210000)" if "h div 210000 < 64"
    using that by simp
  then show ?thesis
    by (auto simp: BlockCreationReward_def go_shr_def Let_def d)
qed

lemma reward_nonneg: "0 \<le> h \<Longrightarrow> 0 \<le> BlockCreationReward h"
  using reward_nat [of "nat h"] by (simp add: pos_imp_zdiv_nonneg_iff)

definition minedBy :: "nat \<Rightarrow> int" where
  "minedBy n = (\<Sum>h<n. BlockCreationReward (int h))"

lemma minedBy_epochs: "minedBy (m * 210000) = (\<Sum>k<m. 210000 * (if k \<ge> 64 then 0 else 5000000000 div 2 ^ k))"
proof -
  have "sum (\<lambda>h. BlockCreationReward (int h)) {k * 210000 ..< k * 210000 + 210000}
    = 210000 * (if k \<ge> 64 then 0 else 5000000000 div 2 ^ k)" for k
  proof -
    have "h div 210000 = k" if "h \<in> {k * 210000 ..< k * 210000 + 210000}" for h
      using that by (auto intro: div_nat_eqI simp: mult.commute)
    then have "sum (\<lambda>h. BlockCreationReward (int h)) {k * 210000 ..< k * 210000 + 210000}
      = (\<Sum>h \<in> {k * 210000 ..< k * 210000 + 210000}. if k \<ge> 64 then 0 else 5000000000 div 2 ^ k)"
      by (intro sum.cong) (simp_all add: reward_nat)
    then show ?thesis by simp
  qed
  then show ?thesis unfolding minedBy_def sum.nat_group [symmetric] by simp
qed

lemma minedBy_mono: "m \<le> n \<Longrightarrow> minedBy m \<le> minedBy n"
  unfolding minedBy_def by (rule sum_mono2) (auto intro: reward_nonneg)

lemma minedBy_33: "minedBy (33 * 210000) = 2099999997690000"
  unfolding minedBy_epochs by code_simp

lemma minedBy_final:
  assumes "33 * 210000 \<le> n" shows "minedBy n = 2099999997690000"
proof -
  have z: "BlockCreationReward (int h) = 0" if "33 * 210000 \<le> h" for h
  proof -
    have k: "33 \<le> h div 210000" using that div_le_mono [of "33 * 210000" h 210000] by simp
    have "(2::int) ^ 33 \<le> 2 ^ (h div 210000)" using k by (intro power_increasing) auto
    then show ?thesis by (simp add: reward_nat)
  qed
  have "minedBy n = minedBy (33 * 210000) + (\<Sum>h \<in> {33 * 210000 ..< n}. BlockCreationReward (int h))"
    unfolding minedBy_def lessThan_atLeast0 using assms by (intro sum.atLeastLessThan_concat [symmetric]) auto
  with z minedBy_33 show ?thesis by simp
qed

lemma minedBy_le: "minedBy n \<le> MAX_MONEY"
proof -
  have "minedBy n \<le> minedBy (max n (33 * 210000))" by (rule minedBy_mono) simp
  also have "\<dots> = 2099999997690000" by (rule minedBy_final) simp
  finally show ?thesis by simp
qed

lemma max_txs_defined: "0 \<le> h \<Longrightarrow> \<exists>m. computeMaxTransactionsPerBlock h = Inr m"
proof (cases "h < MAX_TRANSACTIONS_PER_BLOCK_EXCEEDED_AT_HEIGHT")
  case True
  moreover assume "0 \<le> h"
  ultimately show ?thesis using max_txs_formula by blast
qed (simp add: computeMaxTransactionsPerBlock_def)

lemma max_txs_last: "computeMaxTransactionsPerBlock 1852031 = Inr 2147471164"
  using max_txs_formula [of 1852031] by simp

lemma max_txs_first: "computeMaxTransactionsPerBlock 0 = Inr 10000"
  using max_txs_formula [of 0] by simp

lemma max_txs_mono_below:
  assumes "0 \<le> h" "h \<le> g" "g < MAX_TRANSACTIONS_PER_BLOCK_EXCEEDED_AT_HEIGHT"
    and "computeMaxTransactionsPerBlock h = Inr m" "computeMaxTransactionsPerBlock g = Inr n"
  shows "m \<le> n"
  using assms(2,3,5)
proof (induction arbitrary: n rule: int_ge_induct)
  case base
  with assms(4) show ?case by simp
next
  case (step i)
  obtain k where k: "computeMaxTransactionsPerBlock i = Inr k"
    using max_txs_defined [of i] assms(1) step.hyps by auto
  have "m \<le> k" using step.IH [OF _ k] step.prems(1) by simp
  also have "k \<le> n" using max_txs_step [OF _ step.prems(1) k step.prems(2)] assms(1) step.hyps by simp
  finally show ?case .
qed

lemma max_txs_bounds:
  assumes "0 \<le> h" "computeMaxTransactionsPerBlock h = Inr m"
  shows "10000 \<le> m" "m \<le> MAX_TRANSACTIONS_PER_BLOCK"
proof -
  have "10000 \<le> m \<and> m \<le> MAX_TRANSACTIONS_PER_BLOCK"
  proof (cases "h < MAX_TRANSACTIONS_PER_BLOCK_EXCEEDED_AT_HEIGHT")
    case True
    with max_txs_mono_below [OF _ _ True max_txs_first assms(2)]
      max_txs_mono_below [OF assms(1) _ _ assms(2) max_txs_last] assms(1)
    show ?thesis by simp
  next
    case False
    with assms(2) show ?thesis by (simp add: computeMaxTransactionsPerBlock_def)
  qed
  then show "10000 \<le> m" "m \<le> MAX_TRANSACTIONS_PER_BLOCK" by blast+
qed

lemma max_txs_mono:
  assumes "0 \<le> h" "h \<le> g"
    and "computeMaxTransactionsPerBlock h = Inr m" "computeMaxTransactionsPerBlock g = Inr n"
  shows "m \<le> n"
proof (cases "g < MAX_TRANSACTIONS_PER_BLOCK_EXCEEDED_AT_HEIGHT")
  case True
  then show ?thesis by (rule max_txs_mono_below [OF assms(1,2) _ assms(3,4)])
next
  case False
  then have "n = MAX_TRANSACTIONS_PER_BLOCK"
    using assms(4) by (simp add: computeMaxTransactionsPerBlock_def)
  with max_txs_bounds(2) [OF assms(1,3)] show ?thesis by simp
qed

lemma checkBlock_shape:
  assumes "checkBlock cr i b now = Inr ()"
  shows "block_shape cr b"
proof -
  obtain m ids where m: "computeMaxTransactionsPerBlock (Height (Header b)) = Inr m"
      "int (length (Transactions b)) \<le> m"
    and ids: "checkTransactions cr (Transactions b) [] = Inr ids" "length ids = length (Transactions b)"
    and ne: "Transactions b \<noteq> []" "IsCoinbase (Transactions b ! 0)"
      "\<forall>tx \<in> set (drop 1 (Transactions b)). \<not> IsCoinbase tx"
    and h: "0 \<le> Height (Header b)" "Height (Header b) \<le> MAX_NUMBER"
    using assms unfolding checkBlock_def Let_def
    by (auto simp: result_simps not_less split: if_splits)
  from max_txs_bounds(2) [OF h(1) m(1)] m(2) have "int (length (Transactions b)) \<le> MAX_TRANSACTIONS_PER_BLOCK"
    by linarith
  moreover have "\<forall>tx \<in> set (Transactions b). tx_ok tx"
    using ids(1) by (auto simp: checkTransactions_Inr intro: checkTransaction_tx_ok)
  ultimately show ?thesis
    using ne h checkTransactions_distinct [OF ids] by (cases "Transactions b") (auto simp: block_shape_def)
qed

end
