(* ===== verification/Ledger_Batch.thy ===== *)
theory Ledger_Batch
  imports Ledger Supply Checks
begin

text \<open>
  What the batches written by \<^verbatim>\<open>ConnectBlock\<close> and \<^verbatim>\<open>DisconnectBlock\<close> do to each table of the ledger.
  The loops over transactions are split into the effect on the balance cache (a sequence of
  transfers applied to the stored balances) and the index entries they write.
\<close>

section \<open>Stored balances\<close>

definition bal :: "ledger \<Rightarrow> bytes \<Rightarrow> int" where
  "bal l pk = (case db_at (l_db l) (computePubKeyBalanceKey pk) of None \<Rightarrow> 0 | Some v \<Rightarrow> decodeNumber v)"

lemma GetPublicKeyBalance_eq:
  "GetPublicKeyBalance l pk =
     (if readFault (l_db l) (computePubKeyBalanceKey pk) then Inl IOError else Inr (bal l pk))"
  by (auto simp: GetPublicKeyBalance_def db_Get_def bal_def db_at_def split: option.splits)

interpretation lb: balance_source "GetPublicKeyBalance l" "bal l" for l
  by unfold_locales (simp add: GetPublicKeyBalance_eq split: if_splits)

abbreviation cview :: "ledger \<Rightarrow> balance_cache \<Rightarrow> bytes \<Rightarrow> int" where
  "cview l \<equiv> balance_source.view (bal l)"

section \<open>The transactions a block applies\<close>

text \<open>A coinbase stands for the coinbase that matures with the block, if there is one.\<close>

definition applied :: "transaction option \<Rightarrow> transaction list \<Rightarrow> transaction list" where
  "applied m txs = concat (map (\<lambda>tx. if IsCoinbase tx then (case m of None \<Rightarrow> [] | Some t \<Rightarrow> [t]) else [tx]) txs)"

definition matured :: "block_store \<Rightarrow> ledger \<Rightarrow> int \<Rightarrow> transaction option" where
  "matured bs l h = (case maturedCoinbase bs l h of Inl e \<Rightarrow> None | Inr m \<Rightarrow> m)"

lemma applied_simps [simp]:
  "applied m [] = []"
  "applied m (tx # txs) = (if IsCoinbase tx then (case m of None \<Rightarrow> [] | Some t \<Rightarrow> [t]) else [tx]) @ applied m txs"
  "applied m (txs @ tys) = applied m txs @ applied m tys"
  by (simp_all add: applied_def)

lemma applied_rev: "applied m (rev txs) = rev (applied m txs)"
  by (induction txs) (auto split: option.splits)

lemma applied_no_coinbase: "\<forall>tx \<in> set txs. \<not> IsCoinbase tx \<Longrightarrow> applied m txs = txs"
  by (induction txs) auto

fun applyAll :: "ledger \<Rightarrow> transaction list \<Rightarrow> balance_cache \<Rightarrow> balance_cache result" where
  "applyAll l [] bc = Inr bc"
| "applyAll l (tx # txs) bc = bindE (applyToCache l (Some tx) bc) (applyAll l txs)"

fun undoAll :: "ledger \<Rightarrow> transaction list \<Rightarrow> balance_cache \<Rightarrow> balance_cache result" where
  "undoAll l [] bc = Inr bc"
| "undoAll l (tx # txs) bc = bindE (undoInCache l (Some tx) bc) (undoAll l txs)"

lemma db_Has_Inr: "db_Has db k = Inr r \<longleftrightarrow> \<not> readFault db k \<and> r = (db_at db k \<noteq> None)"
  by (auto simp: db_Has_def db_at_def)

lemma db_Get_Inr: "db_Get db k = Inr r \<longleftrightarrow> \<not> readFault db k \<and> r = db_at db k"
  by (auto simp: db_Get_def db_at_def)

lemma connectTxs_Inr:
  "connectTxs cr bs l h i txs batch bc ids = Inr (batch', bc', ids') \<Longrightarrow>
     batch' = batch @ restoreTxs cr h i txs \<and> ids' = ids @ map (tx_ID cr) txs
     \<and> (\<forall>tx \<in> set txs. db_at (l_db l) (computeTransactionIndexKey (tx_ID cr tx)) = None)
     \<and> (\<forall>tx \<in> set txs. IsCoinbase tx \<longrightarrow> maturedCoinbase bs l h = Inr (matured bs l h))
     \<and> applyAll l (applied (matured bs l h) txs) bc = Inr bc'"
proof (induction txs arbitrary: i batch bc ids)
  case Nil
  then show ?case by simp
next
  case (Cons tx txs)
  from Cons.prems obtain t c where
    no: "db_at (l_db l) (computeTransactionIndexKey (tx_ID cr tx)) = None"
    and t: "(if IsCoinbase tx then maturedCoinbase bs l h else Inr (Some tx)) = Inr t"
    and c: "applyToCache l t bc = Inr c"
    and r: "connectTxs cr bs l h (Suc i) txs
       (batch @ [Put (computeTransactionIndexKey (tx_ID cr tx)) (encodeTransactionIndex h (int i))]
          @ map (\<lambda>k. Put k [1]) (partyKeys tx h i)) c (ids @ [tx_ID cr tx]) = Inr (batch', bc', ids')"
    by (auto simp: result_simps Let_def db_Has_Inr split: if_splits)
  from t have "if IsCoinbase tx then maturedCoinbase bs l h = Inr t \<and> t = matured bs l h else t = Some tx"
    by (auto simp: matured_def split: if_splits)
  with Cons.IH [OF r] no c show ?case
    by (auto simp: applyToCache_def split: option.splits if_splits)
qed

text \<open>The index keys a block's transactions occupy.\<close>

definition partySet :: "int \<Rightarrow> nat \<Rightarrow> transaction list \<Rightarrow> bytes set" where
  "partySet h i txs = (\<Union>j<length txs. set (partyKeys (txs ! j) h (i + j)))"

lemma partySet_simps [simp]:
  "partySet h i [] = {}"
  "partySet h i (tx # txs) = set (partyKeys tx h i) \<union> partySet h (Suc i) txs"
  by (auto simp: partySet_def lessThan_Suc_eq_insert_0)

lemma partySet_snoc: "partySet h i (txs @ [tx]) = partySet h i txs \<union> set (partyKeys tx h (i + length txs))"
  by (induction txs arbitrary: i) (auto simp: Un_assoc)

lemma batch_at_uniform:
  "(\<And>x. x \<in> set ops \<Longrightarrow> op_key x = k \<Longrightarrow> op_val x = v) \<Longrightarrow>
   batch_at ops k = (if k \<in> op_key ` set ops then Some v else None)"
  by (induction ops) auto

lemma partyKeys_table: "k \<in> set (partyKeys tx h i) \<Longrightarrow> \<exists>r. k = 107 # r"
  by (auto simp: partyKeys_def schema_defs split: if_splits)

lemma partySet_table: "k \<in> partySet h i txs \<Longrightarrow> \<exists>r. k = 107 # r"
  by (auto simp: partySet_def dest: partyKeys_table)

lemma keys_restoreTxs:
  "op_key ` set (restoreTxs cr h i txs) = (\<lambda>tx. computeTransactionIndexKey (tx_ID cr tx)) ` set txs \<union> partySet h i txs"
  by (induction txs arbitrary: i) (auto simp: image_Un image_image)

lemma keys_pruneTxs:
  "op_key ` set (pruneTxs cr h i txs) = (\<lambda>tx. computeTransactionIndexKey (tx_ID cr tx)) ` set txs \<union> partySet h i txs"
  by (induction txs arbitrary: i) (auto simp: image_Un image_image)

lemma vals_pruneTxs: "x \<in> set (pruneTxs cr h i txs) \<Longrightarrow> op_val x = None"
  by (induction txs arbitrary: i) auto

lemma vals_restoreTxs_pk: "x \<in> set (restoreTxs cr h i txs) \<Longrightarrow> op_key x = 107 # r \<Longrightarrow> op_val x = Some [1]"
  by (induction txs arbitrary: i) (auto simp: schema_defs)

lemma vals_restoreTxs_tx:
  "x \<in> set (restoreTxs cr h i txs) \<Longrightarrow> op_key x = computeTransactionIndexKey t \<Longrightarrow>
   \<exists>j < length txs. tx_ID cr (txs ! j) = t \<and> op_val x = Some (encodeTransactionIndex h (int (i + j)))"
proof (induction txs arbitrary: i)
  case Nil
  then show ?case by simp
next
  case (Cons tx txs)
  from Cons.prems consider "x = Put (computeTransactionIndexKey (tx_ID cr tx)) (encodeTransactionIndex h (int i))"
    | k where "x = Put k [1]" "k \<in> set (partyKeys tx h i)" | "x \<in> set (restoreTxs cr h (Suc i) txs)"
    by auto
  then show ?case
  proof cases
    case 1
    with Cons.prems show ?thesis by (intro exI [of _ 0]) auto
  next
    case 2
    with Cons.prems partyKeys_table [OF 2(2)] show ?thesis by (auto simp: schema_defs)
  next
    case 3
    from Cons.IH [OF 3 Cons.prems(2)] obtain j where "j < length txs" "tx_ID cr (txs ! j) = t"
      "op_val x = Some (encodeTransactionIndex h (int (Suc i + j)))" by blast
    then show ?thesis by (intro exI [of _ "Suc j"]) auto
  qed
qed

section \<open>The balance cache over a block\<close>

lemma applyAll_Inr:
  assumes "\<forall>tx \<in> set ts. tx_ok tx" "supply_table (cview l bc)"
    and "total (cview l bc) + minted ts \<le> MAX_MONEY" "applyAll l ts bc = Inr bc'" "cache_ok bc"
  shows "cview l bc' = transfers ts (cview l bc) \<and> supply_table (cview l bc')
    \<and> money_run ts (cview l bc) \<and> cache_ok bc'
    \<and> fst ` set (cache bc') = fst ` set (cache bc) \<union> \<Union> (parties ` set ts)"
  using assms
proof (induction ts arbitrary: bc)
  case Nil
  then show ?case by (simp add: supply_money)
next
  case (Cons tx ts)
  have ok: "tx_ok tx" and oks: "\<forall>tx \<in> set ts. tx_ok tx" using Cons.prems(1) by auto
  have m: "money_table (cview l bc)" using Cons.prems(2) by (rule supply_money)
  from Cons.prems(4) obtain c where c: "Apply (GetPublicKeyBalance l) tx bc = (Inr True, c)"
    and r: "applyAll l ts c = Inr bc'"
    by (auto simp: result_simps applyToCache_def split: sum.splits prod.splits bool.splits)
  note A = lb.Apply_True [OF ok m c]
  have fin: "finite (supp (cview l bc))" using Cons.prems(2) by (simp add: supply_table_def)
  have tot: "total (cview l c) = total (cview l bc) + (if IsCoinbase tx then tx_Amount tx else - tx_Fee tx)"
    unfolding A(1) by (rule total_transfer [OF fin])
  have mn: "0 \<le> minted ts" using oks by (rule minted_nonneg)
  have fee: "0 \<le> tx_Fee tx" using ok by (simp add: tx_ok_def)
  have le: "total (cview l c) + minted ts \<le> MAX_MONEY"
    using Cons.prems(3) tot fee by (simp split: if_splits)
  from this mn have st: "supply_table (cview l c)"
    using A(2) finite_supp_transfer [OF fin, of tx] unfolding supply_table_def A(1) [symmetric] by auto
  note IH = Cons.IH [OF oks st le r A(3) [OF Cons.prems(5)]]
  then have "supply_table (cview l bc')" by blast
  with IH m A(1,4) show ?case by (simp add: Un_assoc)
qed

lemma undoAll_ok:
  assumes "\<forall>tx \<in> set ts. tx_ok tx" "money_run ts f" "cview l bc = transfers ts f" "cache_ok bc"
    and "\<And>pk. pk \<in> \<Union> (parties ` set ts) \<Longrightarrow> \<not> readFault (l_db l) (computePubKeyBalanceKey pk)"
  shows "\<exists>bc'. undoAll l (rev ts) bc = Inr bc' \<and> cview l bc' = f \<and> cache_ok bc'
    \<and> fst ` set (cache bc') = fst ` set (cache bc) \<union> \<Union> (parties ` set ts)"
  using assms
proof (induction ts arbitrary: bc rule: rev_induct)
  case Nil
  then show ?case by simp
next
  case (snoc tx ts)
  have ok: "tx_ok tx" and oks: "\<forall>tx \<in> set ts. tx_ok tx" using snoc.prems(1) by auto
  have run: "money_run ts f" "money_table (cview l bc)"
    using snoc.prems(2,3) by (simp_all add: money_run_snoc)
  have un: "untransfer tx (cview l bc) = transfers ts f"
    using snoc.prems(3) by simp
  have m: "money_table (untransfer tx (cview l bc))"
    using money_run_ends [OF run(1)] un by simp
  have rd: "GetPublicKeyBalance l pk = Inr (bal l pk)" if "pk \<in> parties tx" for pk
    using that snoc.prems(5) by (auto simp: GetPublicKeyBalance_eq)
  obtain c where c: "Undo (GetPublicKeyBalance l) tx bc = (Inr (), c)"
    using lb.Undo_ok [OF ok run(2) m rd] by blast
  note U = lb.Undo_Inr [OF ok run(2) m c]
  have "cview l c = transfers ts f" using U(1) un by simp
  moreover have "\<not> readFault (l_db l) (computePubKeyBalanceKey pk)" if "pk \<in> \<Union> (parties ` set ts)" for pk
    using that snoc.prems(5) [of pk] by auto
  ultimately obtain bc' where "undoAll l (rev ts) c = Inr bc'" "cview l bc' = f" "cache_ok bc'"
      "fst ` set (cache bc') = fst ` set (cache c) \<union> \<Union> (parties ` set ts)"
    using snoc.IH [OF oks run(1) _ U(2) [OF snoc.prems(4)]] by blast
  with c U(3) show ?case by (auto simp: undoInCache_def)
qed

text \<open>A successful application has read the balance of every party the cache did not hold.\<close>

context balance_source
begin

lemma creditRecipient_reads:
  assumes "creditRecipient getBalance tx b = (Inr r, b')" "length (octets (tx_To tx)) = 32"
  shows "fst ` set (cache b') = insert (octets (tx_To tx)) (fst ` set (cache b))"
    and "octets (tx_To tx) \<notin> fst ` set (cache b) \<Longrightarrow> \<exists>v. getBalance (octets (tx_To tx)) = Inr v"
proof -
  let ?t = "octets (tx_To tx)"
  from assms(1) obtain s where s: "cachedBalance getBalance b ?t = Inr s" "b' = setCached ?t (i64 (s + tx_Amount tx)) b"
    by (auto simp: creditRecipient_def split: sum.splits)
  show "fst ` set (cache b') = insert ?t (fst ` set (cache b))"
    unfolding s(2) using assms(2) by (rule keys_setCached)
  show "?t \<notin> fst ` set (cache b) \<Longrightarrow> \<exists>v. getBalance ?t = Inr v"
    using s(1) assms(2) by (auto simp: cachedBalance_def simp flip: map_of_eq_None_iff split: option.splits)
qed

lemma Apply_reads:
  assumes ok: "tx_ok tx" and app: "Apply getBalance tx b = (Inr True, b')"
  shows "fst ` set (cache b') = fst ` set (cache b) \<union> parties tx"
    and "pk \<in> parties tx \<Longrightarrow> pk \<notin> fst ` set (cache b) \<Longrightarrow> \<exists>v. getBalance pk = Inr v"
proof -
  let ?f = "octets (tx_From tx)" and ?t = "octets (tx_To tx)"
  note p = tx_ok_parts [OF ok]
  have "fst ` set (cache b') = fst ` set (cache b) \<union> parties tx
    \<and> (pk \<in> parties tx \<longrightarrow> pk \<notin> fst ` set (cache b) \<longrightarrow> (\<exists>v. getBalance pk = Inr v))"
  proof (cases "IsCoinbase tx")
    case True
    with app have "creditRecipient getBalance tx b = (Inr True, b')" by (simp add: Apply_def)
    from creditRecipient_reads [OF this p(1)] True show ?thesis by (auto simp: parties_def)
  next
    case False
    with app obtain s v where s: "cachedBalance getBalance b ?f = Inr s"
      and c: "creditRecipient getBalance tx (setCached ?f v b) = (Inr True, b')"
      by (auto simp: Apply_def Let_def split: sum.splits if_splits)
    have f: "length ?f = 32" using p(7) False by simp
    have "?f \<notin> fst ` set (cache b) \<Longrightarrow> \<exists>v. getBalance ?f = Inr v"
      using s f by (auto simp: cachedBalance_def simp flip: map_of_eq_None_iff split: option.splits)
    moreover note creditRecipient_reads [OF c p(1)] keys_setCached [OF f, of v b] p(8) [OF False]
    ultimately show ?thesis using False by (auto simp: parties_def)
  qed
  then show "fst ` set (cache b') = fst ` set (cache b) \<union> parties tx"
    "pk \<in> parties tx \<Longrightarrow> pk \<notin> fst ` set (cache b) \<Longrightarrow> \<exists>v. getBalance pk = Inr v"
    by blast+
qed

end

lemma applyAll_reads:
  assumes "applyAll l ts bc = Inr bc'" "\<forall>tx \<in> set ts. tx_ok tx" "pk \<in> \<Union> (parties ` set ts)"
    and "pk \<notin> fst ` set (cache bc)"
  shows "\<not> readFault (l_db l) (computePubKeyBalanceKey pk)"
  using assms
proof (induction ts arbitrary: bc)
  case Nil
  then show ?case by simp
next
  case (Cons tx ts)
  have ok: "tx_ok tx" using Cons.prems(2) by simp
  from Cons.prems(1) obtain c where c: "Apply (GetPublicKeyBalance l) tx bc = (Inr True, c)"
    and r: "applyAll l ts c = Inr bc'"
    by (auto simp: result_simps applyToCache_def split: sum.splits prod.splits bool.splits)
  note R = lb.Apply_reads [OF ok c]
  show ?case
  proof (cases "pk \<in> parties tx")
    case True
    with R(2) [OF True Cons.prems(4)] show ?thesis by (auto simp: GetPublicKeyBalance_eq split: if_splits)
  next
    case False
    with Cons.prems(4) R(1) have "pk \<notin> fst ` set (cache c)" by blast
    with Cons.IH [OF r] Cons.prems(2,3) False show ?thesis by auto
  qed
qed

section \<open>The batch of balances\<close>

lemma keys_balanceOps: "op_key ` set (balanceOps c) = computePubKeyBalanceKey ` fst ` set c"
  by (force simp: balanceOps_def)

lemma batch_at_balanceOps:
  assumes "distinct (map fst c)"
  shows "batch_at (balanceOps c) (computePubKeyBalanceKey pk) =
    (case map_of c pk of None \<Rightarrow> None | Some v \<Rightarrow> Some (if v = 0 then None else Some (encodeNumber v)))"
  using assms
  by (induction c) (auto simp: balanceOps_def simp flip: map_of_eq_None_iff split: option.splits)

section \<open>Disconnecting\<close>

text \<open>The index entries removed, for a reversed list of transactions.\<close>

fun unindexOps :: "crypto \<Rightarrow> int \<Rightarrow> transaction list \<Rightarrow> batch_op list" where
  "unindexOps cr h [] = []"
| "unindexOps cr h (tx # txs) =
     Delete (computeTransactionIndexKey (tx_ID cr tx)) # map Delete (partyKeys tx h (length txs))
     @ unindexOps cr h txs"

lemma disconnectTxs_eq:
  assumes "\<forall>tx \<in> set txs. IsCoinbase tx \<longrightarrow> maturedCoinbase bs l h = Inr (matured bs l h)"
  shows "disconnectTxs cr bs l h txs batch bc ids =
    bindE (undoAll l (applied (matured bs l h) txs) bc) (\<lambda>bc'.
      Inr (batch @ unindexOps cr h txs, bc', rev (map (tx_ID cr) txs) @ ids))"
  using assms
proof (induction txs arbitrary: batch bc ids)
  case Nil
  then show ?case by simp
next
  case (Cons tx txs)
  then show ?case
    by (cases "matured bs l h") (auto simp: Let_def bindE_assoc undoInCache_def)
qed

lemma keys_unindexOps:
  "op_key ` set (unindexOps cr h (rev txs)) =
     (\<lambda>tx. computeTransactionIndexKey (tx_ID cr tx)) ` set txs \<union> partySet h 0 txs"
  by (induction txs rule: rev_induct) (auto simp: image_Un image_image partySet_snoc)

lemma vals_unindexOps: "x \<in> set (unindexOps cr h txs) \<Longrightarrow> op_val x = None"
  by (induction txs) auto

section \<open>Success and failure of the two operations\<close>

lemma writeBatch_Inr:
  "writeBatch r l = (Inr x, l') \<longleftrightarrow>
     (\<exists>ops db. r = Inr (ops, x) \<and> db_Write ops (l_db l) = (Inr (), db) \<and> l' = l\<lparr>l_db := db\<rparr>)"
  by (auto simp: writeBatch_def split: sum.splits prod.splits)

lemma writeBatch_Inl: "writeBatch r l = (Inl e, l') \<Longrightarrow> l' = l"
  by (auto simp: writeBatch_def dest: db_Write_Inl split: sum.splits prod.splits)

lemma GetChainTip_eq:
  assumes "\<not> readFault (l_db l) computeChainTipKey"
  shows "db_at (l_db l) computeChainTipKey = None \<Longrightarrow> GetChainTip l = Inr None"
    and "db_at (l_db l) computeChainTipKey = Some (encodeChainTip i h) \<Longrightarrow> int64 h \<Longrightarrow>
      GetChainTip l = Inr (Some (i, h))"
  using assms by (auto simp: GetChainTip_def db_Get_def db_at_def decode_chain_tip)

lemma GetChainTip_read: "GetChainTip l = Inr r \<Longrightarrow> \<not> readFault (l_db l) computeChainTipKey"
  by (auto simp: GetChainTip_def db_Get_def result_simps)

lemma GetBlockIDForHeight_Inr:
  "GetBlockIDForHeight l h = Inr r \<longleftrightarrow> \<not> readFault (l_db l) (computeBlockHeightIndexKey h)
     \<and> r = map_option id_of_bytes (db_at (l_db l) (computeBlockHeightIndexKey h))"
  by (auto simp: GetBlockIDForHeight_def db_Get_def db_at_def result_simps)

definition pruneOps :: "crypto \<Rightarrow> block_store \<Rightarrow> ledger \<Rightarrow> int \<Rightarrow> batch_op list result" where
  "pruneOps cr bs l h = (if l_prune l \<and> h \<ge> 2 * BLOCKS_UNTIL_NEW_SERIES
     then pruneIndices cr bs l (h - 2 * BLOCKS_UNTIL_NEW_SERIES) else Inr [])"

definition restoreOps :: "crypto \<Rightarrow> block_store \<Rightarrow> ledger \<Rightarrow> int \<Rightarrow> batch_op list result" where
  "restoreOps cr bs l h = (if l_prune l \<and> h \<ge> 2 * BLOCKS_UNTIL_NEW_SERIES
     then restoreIndices cr bs l (h - 2 * BLOCKS_UNTIL_NEW_SERIES) else Inr [])"

lemma ConnectBlock_Inr:
  assumes "ConnectBlock cr bs i b l = (Inr ids, l')"
  defines "h \<equiv> Height (Header b)"
  obtains tip bc pruned where
    "GetChainTip l = Inr tip" "case tip of None \<Rightarrow> True | Some (t, _) \<Rightarrow> t = Previous (Header b)"
    "ids = map (tx_ID cr) (Transactions b)"
    "\<forall>tx \<in> set (Transactions b). db_at (l_db l) (computeTransactionIndexKey (tx_ID cr tx)) = None"
    "\<forall>tx \<in> set (Transactions b). IsCoinbase tx \<longrightarrow> maturedCoinbase bs l h = Inr (matured bs l h)"
    "applyAll l (applied (matured bs l h) (Transactions b)) (NewBalanceCache 0) = Inr bc"
    "pruneOps cr bs l h = Inr pruned" "l_prune l' = l_prune l"
    "db_Write (restoreTxs cr h 0 (Transactions b) @ balanceOps (Balances bc)
       @ [Put (computeBlockHeightIndexKey h) (id_bytes i), Put (computeBranchTypeKey i) [0],
          Put computeChainTipKey (encodeChainTip i h)] @ pruned) (l_db l) = (Inr (), l_db l')"
proof -
  from assms(1) obtain ops db where o: "connectBatch cr bs l i b = Inr (ops, ids)"
      "db_Write ops (l_db l) = (Inr (), db)" "l' = l\<lparr>l_db := db\<rparr>"
    by (auto simp: ConnectBlock_def writeBatch_Inr)
  from o(1) obtain tip batch bc pruned where p: "GetChainTip l = Inr tip"
      "\<not> (case tip of None \<Rightarrow> False | Some (t, _) \<Rightarrow> t \<noteq> Previous (Header b))"
      "connectTxs cr bs l h 0 (Transactions b) [] (NewBalanceCache 0) [] = Inr (batch, bc, ids)"
      "pruneOps cr bs l h = Inr pruned"
      "ops = batch @ balanceOps (Balances bc)
         @ [Put (computeBlockHeightIndexKey h) (id_bytes i), Put (computeBranchTypeKey i) [0],
            Put computeChainTipKey (encodeChainTip i h)] @ pruned"
    unfolding connectBatch_def h_def [symmetric] pruneOps_def [symmetric]
    by (auto simp: result_simps split: if_split_asm)
  from p(2) have "case tip of None \<Rightarrow> True | Some (t, _) \<Rightarrow> t = Previous (Header b)"
    by (auto split: option.splits)
  with connectTxs_Inr [OF p(3)] p o that show ?thesis by auto
qed

lemma DisconnectBlock_eq:
  assumes tip: "GetChainTip l = Inr (Some (i, k))"
    and m: "\<forall>tx \<in> set (Transactions b). IsCoinbase tx \<longrightarrow>
      maturedCoinbase bs l (Height (Header b)) = Inr (matured bs l (Height (Header b)))"
    and u: "undoAll l (rev (applied (matured bs l (Height (Header b))) (Transactions b))) (NewBalanceCache 0) = Inr bc"
    and r: "restoreOps cr bs l (Height (Header b)) = Inr restored"
  shows "DisconnectBlock cr bs i b l = writeBatch (Inr (unindexOps cr (Height (Header b)) (rev (Transactions b))
     @ balanceOps (Balances bc)
     @ [Delete (computeBlockHeightIndexKey (Height (Header b))), Put (computeBranchTypeKey i) [1],
        Put computeChainTipKey (encodeChainTip (Previous (Header b)) (i64 (Height (Header b) - 1)))]
     @ restored, map (tx_ID cr) (Transactions b))) l"
proof -
  have "\<forall>tx \<in> set (rev (Transactions b)). IsCoinbase tx \<longrightarrow>
      maturedCoinbase bs l (Height (Header b)) = Inr (matured bs l (Height (Header b)))"
    using m by simp
  from disconnectTxs_eq [OF this, of cr "[]" "NewBalanceCache 0" "[]"] tip u r show ?thesis
    unfolding DisconnectBlock_def disconnectBatch_def restoreOps_def [symmetric]
    by (simp add: applied_rev rev_map)
qed

end
