(* ===== verification/Ledger_Chain.thy ===== *)
theory Ledger_Chain
  imports Ledger_Batch
begin

text \<open>
  The abstract view of the ledger: a chain of blocks, oldest first. \<open>ledger_rel\<close> says what every
  table of the database holds for a given chain; the lemmas show that \<^verbatim>\<open>ConnectBlock\<close> refines
  appending a block to the chain and \<^verbatim>\<open>DisconnectBlock\<close> refines removing the last one, and that on
  such a chain the money in balances and immature coinbases is exactly the sum of the block rewards.
\<close>

section \<open>Chains\<close>

definition coinbaseOf :: "block \<Rightarrow> transaction" where
  "coinbaseOf b = hd (Transactions b)"

text \<open>The coinbase that matures with block \<open>h\<close> and the transactions that block applies.\<close>

definition maturesAt :: "block list \<Rightarrow> nat \<Rightarrow> transaction option" where
  "maturesAt chain h = (if 100 \<le> h then Some (coinbaseOf (chain ! (h - 100))) else None)"

definition effectsAt :: "block list \<Rightarrow> nat \<Rightarrow> transaction list" where
  "effectsAt chain h = applied (maturesAt chain h) (Transactions (chain ! h))"

definition chainEffects :: "block list \<Rightarrow> transaction list" where
  "chainEffects chain = concat (map (effectsAt chain) [0..<length chain])"

definition chainBal :: "block list \<Rightarrow> bytes \<Rightarrow> int" where
  "chainBal chain = transfers (chainEffects chain) (\<lambda>_. 0)"

text \<open>What the processor has checked of a block before it is connected at height \<open>n\<close>.\<close>

definition block_ok :: "crypto \<Rightarrow> nat \<Rightarrow> block \<Rightarrow> bool" where
  "block_ok cr n b \<longleftrightarrow> block_shape cr b \<and> Height (Header b) = int n
     \<and> tx_Amount (coinbaseOf b) = i64 (BlockCreationReward (int n) + fees (Transactions b))"

definition txIDs :: "crypto \<Rightarrow> block \<Rightarrow> tx_id set" where
  "txIDs cr b = tx_ID cr ` set (Transactions b)"

text \<open>The index entries of block \<open>h\<close> are still present: they are pruned 2016 blocks later.\<close>

definition window :: "bool \<Rightarrow> nat \<Rightarrow> nat \<Rightarrow> bool" where
  "window prune n h \<longleftrightarrow> h < n \<and> (prune \<longrightarrow> n \<le> h + 2016)"

definition chain_valid :: "crypto \<Rightarrow> bool \<Rightarrow> block list \<Rightarrow> bool" where
  "chain_valid cr prune chain \<longleftrightarrow>
     (\<forall>h < length chain. block_shape cr (chain ! h) \<and> Height (Header (chain ! h)) = int h
        \<and> tx_Amount (coinbaseOf (chain ! h)) = BlockCreationReward (int h) + fees (Transactions (chain ! h)))
     \<and> (\<forall>h < length chain. 0 < h \<longrightarrow> Previous (Header (chain ! h)) = block_ID cr (chain ! (h - 1)))
     \<and> (\<forall>a b. a < b \<and> b < length chain \<and> (prune \<longrightarrow> b \<le> a + 2016) \<longrightarrow>
          txIDs cr (chain ! a) \<inter> txIDs cr (chain ! b) = {})
     \<and> money_run (chainEffects chain) (\<lambda>_. 0)"

definition stored :: "crypto \<Rightarrow> block_store \<Rightarrow> block list \<Rightarrow> bool" where
  "stored cr bs chain \<longleftrightarrow> (\<forall>b \<in> set chain. bs_blocks bs (block_ID cr b) = Some b)"

section \<open>The relation between the database and a chain\<close>

definition tip_rel :: "crypto \<Rightarrow> block list \<Rightarrow> ledger \<Rightarrow> bool" where
  "tip_rel cr chain l \<longleftrightarrow> db_at (l_db l) computeChainTipKey =
     (if chain = [] then None else Some (encodeChainTip (block_ID cr (last chain)) (int (length chain) - 1)))"

definition height_rel :: "crypto \<Rightarrow> block list \<Rightarrow> ledger \<Rightarrow> bool" where
  "height_rel cr chain l \<longleftrightarrow> (\<forall>h. int64 h \<longrightarrow> db_at (l_db l) (computeBlockHeightIndexKey h) =
     (if 0 \<le> h \<and> h < int (length chain) then Some (id_bytes (block_ID cr (chain ! nat h))) else None))"

definition bal_rel :: "block list \<Rightarrow> ledger \<Rightarrow> bool" where
  "bal_rel chain l \<longleftrightarrow> (\<forall>pk. db_at (l_db l) (computePubKeyBalanceKey pk) =
     (if chainBal chain pk = 0 then None else Some (encodeNumber (chainBal chain pk))))"

definition tx_rel :: "crypto \<Rightarrow> block list \<Rightarrow> ledger \<Rightarrow> bool" where
  "tx_rel cr chain l \<longleftrightarrow>
     (\<forall>h j. window (l_prune l) (length chain) h \<and> j < length (Transactions (chain ! h)) \<longrightarrow>
        db_at (l_db l) (computeTransactionIndexKey (tx_ID cr (Transactions (chain ! h) ! j)))
          = Some (encodeTransactionIndex (int h) (int j)))
     \<and> (\<forall>t. db_at (l_db l) (computeTransactionIndexKey t) \<noteq> None \<longrightarrow>
        (\<exists>h. window (l_prune l) (length chain) h \<and> t \<in> txIDs cr (chain ! h)))"

definition pk_rel :: "block list \<Rightarrow> ledger \<Rightarrow> bool" where
  "pk_rel chain l \<longleftrightarrow> (\<forall>r. db_at (l_db l) (107 # r) =
     (if \<exists>h. window (l_prune l) (length chain) h \<and> 107 # r \<in> partySet (int h) 0 (Transactions (chain ! h))
      then Some [1] else None))"

definition branch_rel :: "crypto \<Rightarrow> block list \<Rightarrow> ledger \<Rightarrow> bool" where
  "branch_rel cr chain l \<longleftrightarrow>
     (\<forall>i. db_at (l_db l) (computeBranchTypeKey i) = Some [0] \<longleftrightarrow> i \<in> block_ID cr ` set chain)
     \<and> (\<forall>i v. db_at (l_db l) (computeBranchTypeKey i) = Some v \<longrightarrow> length v = 1)"

definition ledger_rel :: "crypto \<Rightarrow> block list \<Rightarrow> ledger \<Rightarrow> bool" where
  "ledger_rel cr chain l \<longleftrightarrow> db_ok (l_db l) \<and> tip_rel cr chain l \<and> height_rel cr chain l
     \<and> bal_rel chain l \<and> tx_rel cr chain l \<and> pk_rel chain l \<and> branch_rel cr chain l"

section \<open>Chains grow by one block\<close>

lemma maturesAt_append: "h \<le> length chain \<Longrightarrow> maturesAt (chain @ xs) h = maturesAt chain h"
proof -
  assume "h \<le> length chain"
  then have "h - 100 < length chain" if "100 \<le> h" using that by linarith
  then show ?thesis by (auto simp: maturesAt_def nth_append)
qed

lemma effectsAt_append: "h < length chain \<Longrightarrow> effectsAt (chain @ xs) h = effectsAt chain h"
  by (simp add: effectsAt_def maturesAt_append nth_append)

lemma chainEffects_snoc:
  "chainEffects (chain @ [b]) = chainEffects chain @ applied (maturesAt chain (length chain)) (Transactions b)"
proof -
  have m: "map (effectsAt (chain @ [b])) [0..<length chain] = map (effectsAt chain) [0..<length chain]"
    by (simp add: effectsAt_append)
  have e: "effectsAt (chain @ [b]) (length chain) = applied (maturesAt chain (length chain)) (Transactions b)"
    by (simp add: effectsAt_def maturesAt_append)
  have "chainEffects (chain @ [b]) = concat (map (effectsAt (chain @ [b])) [0..<length chain])
      @ effectsAt (chain @ [b]) (length chain)"
    by (simp add: chainEffects_def)
  then show ?thesis unfolding m e chainEffects_def .
qed

lemma chainBal_snoc:
  "chainBal (chain @ [b]) = transfers (applied (maturesAt chain (length chain)) (Transactions b)) (chainBal chain)"
  by (simp add: chainBal_def chainEffects_snoc)

lemma money_run_append:
  "money_run (ts @ us) f \<longleftrightarrow> money_run ts f \<and> money_run us (transfers ts f)"
proof (induction ts arbitrary: f)
  case Nil
  then show ?case using money_run_ends [of us f] by auto
qed auto

lemma chain_valid_block:
  assumes "chain_valid cr prune chain" "h < length chain"
  shows "block_shape cr (chain ! h)" "Height (Header (chain ! h)) = int h"
    "tx_Amount (coinbaseOf (chain ! h)) = BlockCreationReward (int h) + fees (Transactions (chain ! h))"
  using assms by (auto simp: chain_valid_def)

lemma shape_coinbase:
  assumes "block_shape cr b"
  shows "IsCoinbase (coinbaseOf b)" "tx_ok (coinbaseOf b)" "Transactions b \<noteq> []"
  using assms by (auto simp: block_shape_def coinbaseOf_def)

lemma applied_block:
  assumes "block_shape cr b"
  shows "applied m (Transactions b) = (case m of None \<Rightarrow> [] | Some t \<Rightarrow> [t]) @ tl (Transactions b)"
  using assms by (auto simp: block_shape_def applied_no_coinbase split: option.splits)

lemma minted_no_coinbase: "\<forall>tx \<in> set txs. \<not> IsCoinbase tx \<Longrightarrow> minted txs = 0"
  by (induction txs) auto

lemma minted_applied:
  assumes "block_shape cr b" "\<And>t. m = Some t \<Longrightarrow> IsCoinbase t"
  shows "minted (applied m (Transactions b)) = (case m of None \<Rightarrow> 0 | Some t \<Rightarrow> tx_Amount t)"
    and "fees (applied m (Transactions b)) = fees (Transactions b)"
proof -
  obtain c txs where t: "Transactions b = c # txs" "IsCoinbase c" "\<forall>tx \<in> set txs. \<not> IsCoinbase tx"
    using assms(1) by (auto simp: block_shape_def)
  from t(3) have "minted txs = 0" by (rule minted_no_coinbase)
  with applied_block [OF assms(1), of m] assms(2) t show
    "minted (applied m (Transactions b)) = (case m of None \<Rightarrow> 0 | Some t \<Rightarrow> tx_Amount t)"
    "fees (applied m (Transactions b)) = fees (Transactions b)"
    by (auto split: option.splits)
qed

lemma applied_ok:
  assumes "block_shape cr b" "\<And>t. m = Some t \<Longrightarrow> tx_ok t"
  shows "\<forall>tx \<in> set (applied m (Transactions b)). tx_ok tx"
  using assms applied_block [OF assms(1), of m]
  by (auto simp: block_shape_def split: option.splits)

lemma maturesAt_ok:
  assumes "chain_valid cr prune chain" "h \<le> length chain" "maturesAt chain h = Some t"
  shows "IsCoinbase t" "tx_ok t"
proof -
  from assms(2,3) have "h - 100 < length chain" "t = coinbaseOf (chain ! (h - 100))"
    by (auto simp: maturesAt_def split: if_splits)
  with shape_coinbase [OF chain_valid_block(1) [OF assms(1)]] show "IsCoinbase t" "tx_ok t"
    by auto
qed

section \<open>Money\<close>

definition coinbaseAmount :: "block list \<Rightarrow> nat \<Rightarrow> int" where
  "coinbaseAmount chain h = tx_Amount (coinbaseOf (chain ! h))"

text \<open>Coinbases that have not reached balances yet: those of the last hundred blocks.\<close>

definition immature :: "block list \<Rightarrow> int" where
  "immature chain = sum (coinbaseAmount chain) {length chain - 100..<length chain}"

lemma minted_concat: "minted (concat (map f [0..<n])) = (\<Sum>h<n. minted (f h))"
  by (induction n) simp_all

lemma fees_concat: "fees (concat (map f [0..<n])) = (\<Sum>h<n. fees (f h))"
  by (induction n) simp_all

lemma sum_shift: "(\<Sum>h<(n::nat). if k \<le> h then g (h - k) else 0) = (\<Sum>h<n - k. g h :: int)"
proof (induction n)
  case (Suc n)
  show ?case
  proof (cases "k \<le> n")
    case True
    with Suc show ?thesis by (simp add: Suc_diff_le)
  qed (use Suc in simp)
qed simp

lemma minted_chain:
  assumes "chain_valid cr prune chain"
  shows "minted (chainEffects chain) = sum (coinbaseAmount chain) {..<length chain - 100}"
    and "fees (chainEffects chain) = (\<Sum>h<length chain. fees (Transactions (chain ! h)))"
proof -
  have e: "minted (effectsAt chain h) = (if 100 \<le> h then coinbaseAmount chain (h - 100) else 0)"
    "fees (effectsAt chain h) = fees (Transactions (chain ! h))" if "h < length chain" for h
    using minted_applied [OF chain_valid_block(1) [OF assms that], of "maturesAt chain h"]
      maturesAt_ok(1) [OF assms, of h] that
    by (auto simp: effectsAt_def maturesAt_def coinbaseAmount_def split: if_splits)
  show "minted (chainEffects chain) = sum (coinbaseAmount chain) {..<length chain - 100}"
    unfolding chainEffects_def minted_concat sum_shift [symmetric] by (rule sum.cong) (auto simp: e)
  show "fees (chainEffects chain) = (\<Sum>h<length chain. fees (Transactions (chain ! h)))"
    unfolding chainEffects_def fees_concat by (rule sum.cong) (auto simp: e)
qed

lemma supp_zero [simp]: "supp (\<lambda>_. 0) = {}" "total (\<lambda>_. 0) = 0"
  by (simp_all add: supp_def total_def)

lemma chain_supply:
  assumes "chain_valid cr prune chain"
  shows "total (chainBal chain) + immature chain = minedBy (length chain)"
proof -
  let ?n = "length chain"
  have "total (chainBal chain) = minted (chainEffects chain) - fees (chainEffects chain)"
    unfolding chainBal_def using total_transfers [of "\<lambda>_. 0"] by simp
  also have "\<dots> = sum (coinbaseAmount chain) {..<?n - 100} - (\<Sum>h<?n. fees (Transactions (chain ! h)))"
    by (simp add: minted_chain [OF assms])
  finally have "total (chainBal chain) + immature chain
    = sum (coinbaseAmount chain) {..<?n - 100} + sum (coinbaseAmount chain) {?n - 100..<?n}
      - (\<Sum>h<?n. fees (Transactions (chain ! h)))"
    by (simp add: immature_def)
  also have "sum (coinbaseAmount chain) {..<?n - 100} + sum (coinbaseAmount chain) {?n - 100..<?n}
    = sum (coinbaseAmount chain) {..<?n}"
    unfolding lessThan_atLeast0 by (rule sum.atLeastLessThan_concat) auto
  also have "\<dots> - (\<Sum>h<?n. fees (Transactions (chain ! h)))
    = (\<Sum>h<?n. coinbaseAmount chain h - fees (Transactions (chain ! h)))"
    by (rule sum_subtractf [symmetric])
  also have "\<dots> = minedBy ?n"
    unfolding minedBy_def coinbaseAmount_def
    by (rule sum.cong) (auto simp: chain_valid_block(3) [OF assms])
  finally show ?thesis .
qed

lemma coinbase_nonneg:
  "chain_valid cr prune chain \<Longrightarrow> h < length chain \<Longrightarrow> 0 \<le> coinbaseAmount chain h"
  by (drule (1) chain_valid_block(1) [THEN shape_coinbase(2)]) (simp add: coinbaseAmount_def tx_ok_def)

lemma immature_ge:
  assumes "chain_valid cr prune chain" "length chain - 100 \<le> h" "h < length chain"
  shows "coinbaseAmount chain h \<le> immature chain"
  unfolding immature_def using assms by (intro member_le_sum) (auto intro: coinbase_nonneg)

lemma chain_table:
  assumes "chain_valid cr prune chain"
  shows "finite (supp (chainBal chain))" "0 \<le> chainBal chain pk" "supply_table (chainBal chain)"
    and "total (chainBal chain) + (case maturesAt chain (length chain) of None \<Rightarrow> 0 | Some t \<Rightarrow> tx_Amount t) \<le> MAX_MONEY"
proof -
  show fin: "finite (supp (chainBal chain))"
    unfolding chainBal_def by (rule finite_supp_transfers) simp
  have nn: "0 \<le> chainBal chain k" for k
    using assms money_run_ends [of "chainEffects chain" "\<lambda>_. 0"]
    by (auto simp: chain_valid_def chainBal_def money_table_def)
  then show "0 \<le> chainBal chain pk" .
  have i: "0 \<le> immature chain"
    unfolding immature_def by (intro sum_nonneg coinbase_nonneg [OF assms]) auto
  have t: "total (chainBal chain) + immature chain \<le> MAX_MONEY"
    using chain_supply [OF assms] minedBy_le by simp
  with i nn fin show "supply_table (chainBal chain)" by (simp add: supply_table_def)
  show "total (chainBal chain) + (case maturesAt chain (length chain) of None \<Rightarrow> 0 | Some t \<Rightarrow> tx_Amount t) \<le> MAX_MONEY"
  proof (cases "100 \<le> length chain")
    case True
    then have "coinbaseAmount chain (length chain - 100) \<le> immature chain"
      by (intro immature_ge [OF assms]) auto
    with t True show ?thesis by (simp add: maturesAt_def coinbaseAmount_def)
  next
    case False
    with t i show ?thesis by (simp add: maturesAt_def)
  qed
qed

end
