(* ===== verification/Ledger_Tables.thy ===== *)
theory Ledger_Tables
  imports Ledger_Chain
begin

text \<open>
  Each table of the ledger's database through the batches of \<^verbatim>\<open>ConnectBlock\<close> and \<^verbatim>\<open>DisconnectBlock\<close>:
  which keys a batch touches, what it leaves at them, and how the two transaction indices follow a
  chain that grows or shrinks by a block, with and without pruning.
\<close>

section \<open>Batches by table\<close>

definition index_ops :: "batch_op list \<Rightarrow> bool" where
  "index_ops ops \<longleftrightarrow> (\<forall>k \<in> op_key ` set ops. \<exists>r. k = 116 # r \<or> k = 107 # r)"

definition enc_bal :: "int \<Rightarrow> bytes option" where
  "enc_bal v = (if v = 0 then None else Some (encodeNumber v))"

lemma index_ops_None [simp]:
  assumes "index_ops ops"
  shows "batch_at ops computeChainTipKey = None" "batch_at ops (computeBlockHeightIndexKey h) = None"
    "batch_at ops (computeBranchTypeKey i) = None" "batch_at ops (computePubKeyBalanceKey pk) = None"
  using assms by (fastforce simp: index_ops_def batch_at_None schema_defs)+

lemma balanceOps_None [simp]:
  "batch_at (balanceOps c) computeChainTipKey = None" "batch_at (balanceOps c) (computeBlockHeightIndexKey h) = None"
  "batch_at (balanceOps c) (computeBranchTypeKey i) = None" "batch_at (balanceOps c) (116 # r) = None"
  "batch_at (balanceOps c) (107 # r) = None"
  unfolding batch_at_None keys_balanceOps by (auto simp: schema_defs)

lemma index_ops_txs:
  "index_ops (restoreTxs cr h i txs)" "index_ops (pruneTxs cr h i txs)" "index_ops (unindexOps cr h (rev txs))"
  unfolding index_ops_def keys_restoreTxs keys_pruneTxs keys_unindexOps
  by (auto simp: schema_defs dest: partySet_table)

lemma batch_tables:
  assumes "index_ops R" "index_ops P" "op_key H = computeBlockHeightIndexKey h"
    and "op_key B = computeBranchTypeKey i" "op_key T = computeChainTipKey"
    and w: "db_Write (R @ balanceOps c @ [H, B, T] @ P) db = (Inr (), db')"
  shows "db_at db' computeChainTipKey = op_val T"
    and "db_at db' (computeBlockHeightIndexKey g) =
      (if computeBlockHeightIndexKey g = computeBlockHeightIndexKey h then op_val H
       else db_at db (computeBlockHeightIndexKey g))"
    and "db_at db' (computeBranchTypeKey j) = (if j = i then op_val B else db_at db (computeBranchTypeKey j))"
    and "db_at db' (computePubKeyBalanceKey pk) =
      (case batch_at (balanceOps c) (computePubKeyBalanceKey pk) of None \<Rightarrow> db_at db (computePubKeyBalanceKey pk)
       | Some r \<Rightarrow> r)"
    and "k = 116 # r \<or> k = 107 # r \<Longrightarrow> db_at db' k = (case batch_at P k of Some v \<Rightarrow> v | None \<Rightarrow>
      (case batch_at R k of Some v \<Rightarrow> v | None \<Rightarrow> db_at db k))"
proof -
  note at = db_Write_Inr(1) [OF w]
  show "db_at db' computeChainTipKey = op_val T"
    "db_at db' (computeBlockHeightIndexKey g) =
      (if computeBlockHeightIndexKey g = computeBlockHeightIndexKey h then op_val H
       else db_at db (computeBlockHeightIndexKey g))"
    "db_at db' (computeBranchTypeKey j) = (if j = i then op_val B else db_at db (computeBranchTypeKey j))"
    "db_at db' (computePubKeyBalanceKey pk) =
      (case batch_at (balanceOps c) (computePubKeyBalanceKey pk) of None \<Rightarrow> db_at db (computePubKeyBalanceKey pk)
       | Some r \<Rightarrow> r)"
    using assms(1-5) by (auto simp: at split: option.splits)
  assume "k = 116 # r \<or> k = 107 # r"
  then have "op_key H \<noteq> k" "op_key B \<noteq> k" "op_key T \<noteq> k" "batch_at (balanceOps c) k = None"
    using assms(3-5) by (auto simp: schema_defs)
  then show "db_at db' k = (case batch_at P k of Some v \<Rightarrow> v | None \<Rightarrow>
      (case batch_at R k of Some v \<Rightarrow> v | None \<Rightarrow> db_at db k))"
    by (auto simp: at split: option.splits)
qed

lemma batch_balances:
  assumes "cache_ok bc" "\<And>pk. db_at (l_db l) (computePubKeyBalanceKey pk) = enc_bal (bal l pk)"
  shows "(case batch_at (balanceOps (Balances bc)) (computePubKeyBalanceKey pk) of
      None \<Rightarrow> db_at (l_db l) (computePubKeyBalanceKey pk) | Some r \<Rightarrow> r) = enc_bal (cview l bc pk)"
  using assms batch_at_balanceOps [of "cache bc" pk]
  by (auto simp: Balances_def cache_ok_def enc_bal_def lb.view_def split: option.splits)

section \<open>Reading the abstract chain\<close>

lemma bal_rel_eq:
  assumes "chain_valid cr prune chain" "bal_rel chain l"
  shows "bal l = chainBal chain" "db_at (l_db l) (computePubKeyBalanceKey pk) = enc_bal (bal l pk)"
proof -
  have "int64 (chainBal chain pk)" for pk
    using supply_money [OF chain_table(3) [OF assms(1)]]
    by (auto simp: money_table_def int64_def intro: order_trans [of _ 0] order_le_less_trans)
  then have "decodeNumber (encodeNumber (chainBal chain pk)) = chainBal chain pk" for pk
    by (rule decode_number)
  with assms(2) show b: "bal l = chainBal chain"
    by (auto simp: bal_rel_def bal_def fun_eq_iff)
  show "db_at (l_db l) (computePubKeyBalanceKey pk) = enc_bal (bal l pk)"
    using assms(2) unfolding b by (simp add: bal_rel_def enc_bal_def)
qed

lemma height_rel_at:
  assumes "height_rel cr chain l" "h < length chain" "int (length chain) \<le> MAX_NUMBER + 1"
  shows "db_at (l_db l) (computeBlockHeightIndexKey (int h)) = Some (id_bytes (block_ID cr (chain ! h)))"
  using assms by (auto simp: height_rel_def int64_def)

lemma matured_rel:
  assumes "height_rel cr chain l" "stored cr bs chain" "h \<le> length chain" "int (length chain) \<le> MAX_NUMBER + 1"
    and "maturedCoinbase bs l (int h) = Inr m"
  shows "m = maturesAt chain h"
proof (cases "100 \<le> h")
  case True
  then have k: "h - 100 < length chain" "int h - 100 = int (h - 100)" using assms(3) by auto
  have w: "i64 (int h - 100) = int (h - 100)" using True assms(3,4) by (simp add: i64_small)
  from assms(2) k(1) have "bs_blocks bs (block_ID cr (chain ! (h - 100))) = Some (chain ! (h - 100))"
    by (simp add: stored_def)
  with assms(5) w True height_rel_at [OF assms(1) k(1) assms(4)] show ?thesis
    by (auto simp: maturedCoinbase_def result_simps GetBlockIDForHeight_Inr bs_GetTransaction_Inr
        maturesAt_def coinbaseOf_def hd_conv_nth split: option.splits if_splits)
next
  case False
  then have "i64 (int h - 100) < 0" by (simp add: i64_id int64_def)
  with assms(5) False show ?thesis by (simp add: maturedCoinbase_def maturesAt_def)
qed

section \<open>The index tables\<close>

lemma batch_at_pruneTxs:
  "batch_at (pruneTxs cr h i txs) (computeTransactionIndexKey t) = (if t \<in> tx_ID cr ` set txs then Some None else None)"
  "batch_at (pruneTxs cr h i txs) (107 # r) = (if 107 # r \<in> partySet h i txs then Some None else None)"
proof -
  have "batch_at (pruneTxs cr h i txs) k = (if k \<in> op_key ` set (pruneTxs cr h i txs) then Some None else None)" for k
    by (rule batch_at_uniform) (rule vals_pruneTxs)
  then show "batch_at (pruneTxs cr h i txs) (computeTransactionIndexKey t) = (if t \<in> tx_ID cr ` set txs then Some None else None)"
    "batch_at (pruneTxs cr h i txs) (107 # r) = (if 107 # r \<in> partySet h i txs then Some None else None)"
    unfolding keys_pruneTxs by (auto simp: schema_defs dest: partySet_table)
qed

lemma batch_at_unindexOps:
  "batch_at (unindexOps cr h (rev txs)) (computeTransactionIndexKey t) = (if t \<in> tx_ID cr ` set txs then Some None else None)"
  "batch_at (unindexOps cr h (rev txs)) (107 # r) = (if 107 # r \<in> partySet h 0 txs then Some None else None)"
proof -
  have "batch_at (unindexOps cr h (rev txs)) k = (if k \<in> op_key ` set (unindexOps cr h (rev txs)) then Some None else None)" for k
    by (rule batch_at_uniform) (rule vals_unindexOps)
  then show "batch_at (unindexOps cr h (rev txs)) (computeTransactionIndexKey t) = (if t \<in> tx_ID cr ` set txs then Some None else None)"
    "batch_at (unindexOps cr h (rev txs)) (107 # r) = (if 107 # r \<in> partySet h 0 txs then Some None else None)"
    unfolding keys_unindexOps by (auto simp: schema_defs dest: partySet_table)
qed

lemma batch_at_restoreTxs_pk:
  "batch_at (restoreTxs cr h i txs) (107 # r) = (if 107 # r \<in> partySet h i txs then Some (Some [1]) else None)"
proof -
  have "batch_at (restoreTxs cr h i txs) (107 # r)
    = (if 107 # r \<in> op_key ` set (restoreTxs cr h i txs) then Some (Some [1]) else None)"
    by (rule batch_at_uniform) (rule vals_restoreTxs_pk)
  then show ?thesis unfolding keys_restoreTxs by (auto simp: schema_defs)
qed

lemma batch_at_restoreTxs_other:
  "t \<notin> tx_ID cr ` set txs \<Longrightarrow> batch_at (restoreTxs cr h i txs) (computeTransactionIndexKey t) = None"
  unfolding batch_at_None keys_restoreTxs by (auto simp: schema_defs dest: partySet_table)

lemma batch_at_restoreTxs_tx:
  assumes "distinct (map (tx_ID cr) txs)" "j < length txs"
  shows "batch_at (restoreTxs cr h i txs) (computeTransactionIndexKey (tx_ID cr (txs ! j)))
    = Some (Some (encodeTransactionIndex h (int (i + j))))"
proof -
  let ?k = "computeTransactionIndexKey (tx_ID cr (txs ! j))"
  have "op_val x = Some (encodeTransactionIndex h (int (i + j)))"
    if x: "x \<in> set (restoreTxs cr h i txs)" "op_key x = ?k" for x
  proof -
    from vals_restoreTxs_tx [OF x] obtain m where m: "m < length txs" "tx_ID cr (txs ! m) = tx_ID cr (txs ! j)"
      "op_val x = Some (encodeTransactionIndex h (int (i + m)))" by blast
    with assms have "m = j" using nth_eq_iff_index_eq [of "map (tx_ID cr) txs" m j] by simp
    with m(3) show ?thesis by simp
  qed
  then have "batch_at (restoreTxs cr h i txs) ?k = (if ?k \<in> op_key ` set (restoreTxs cr h i txs)
    then Some (Some (encodeTransactionIndex h (int (i + j)))) else None)"
    by (rule batch_at_uniform)
  moreover have "?k \<in> op_key ` set (restoreTxs cr h i txs)"
    using assms(2) unfolding keys_restoreTxs by (auto simp: image_iff)
  ultimately show ?thesis by simp
qed

lemma partyKeys_form:
  assumes "tx_ok tx" "k \<in> set (partyKeys tx h i)"
  shows "\<exists>p. length p = 32 \<and> k = computePubKeyTransactionIndexKey p (Some h) (Some (int i))"
  using assms lb.tx_ok_parts(1,7) [OF assms(1)] by (auto simp: partyKeys_def split: if_splits)

lemma partySet_form:
  assumes "k \<in> partySet h i txs" "\<forall>tx \<in> set txs. tx_ok tx"
  shows "\<exists>p m. length p = 32 \<and> k = computePubKeyTransactionIndexKey p (Some h) (Some m)"
proof -
  from assms(1) obtain j where j: "j < length txs" "k \<in> set (partyKeys (txs ! j) h (i + j))"
    by (auto simp: partySet_def)
  from j(1) assms(2) have "tx_ok (txs ! j)" by simp
  from partyKeys_form [OF this j(2)] show ?thesis by blast
qed

lemma partySet_height:
  assumes "k \<in> partySet g i txs" "k \<in> partySet h j tys" "\<forall>tx \<in> set txs \<union> set tys. tx_ok tx" "int64 g" "int64 h"
  shows "g = h"
proof -
  obtain m m' p q where k: "k = computePubKeyTransactionIndexKey p (Some g) (Some m)"
      "k = computePubKeyTransactionIndexKey q (Some h) (Some m')" "length p = 32" "length q = 32"
    using partySet_form [OF assms(1)] partySet_form [OF assms(2)] assms(3) by blast
  then have "be 8 g = be 8 h"
    by (auto simp: schema_defs append_eq_append_conv)
  with assms(4,5) show ?thesis by (simp add: be8_inject)
qed

section \<open>Pruned and restored blocks\<close>

definition prunedTxs :: "bool \<Rightarrow> block list \<Rightarrow> nat \<Rightarrow> transaction list" where
  "prunedTxs prune chain n = (if prune \<and> 2016 \<le> n then Transactions (chain ! (n - 2016)) else [])"

lemma blockAtHeight_rel:
  assumes "height_rel cr chain l" "stored cr bs chain" "h < length chain" "int (length chain) \<le> MAX_NUMBER + 1"
    and "blockAtHeight bs l (int h) = Inr b"
  shows "b = chain ! h"
proof -
  from assms(2,3) have "bs_blocks bs (block_ID cr (chain ! h)) = Some (chain ! h)"
    by (simp add: stored_def)
  with assms(5) height_rel_at [OF assms(1,3,4)] show ?thesis
    by (auto simp: blockAtHeight_def result_simps GetBlockIDForHeight_Inr bs_GetBlock_Inr split: option.splits)
qed

lemma pruneOps_rel:
  assumes "height_rel cr chain l" "stored cr bs chain" "n \<le> length chain" "int (length chain) \<le> MAX_NUMBER + 1"
    and "chain_valid cr prune chain"
  shows "pruneOps cr bs l (int n) = Inr ops \<Longrightarrow> ops = pruneTxs cr (int (n - 2016)) 0 (prunedTxs (l_prune l) chain n)"
    and "restoreOps cr bs l (int n) = Inr ops \<Longrightarrow> ops = restoreTxs cr (int (n - 2016)) 0 (prunedTxs (l_prune l) chain n)"
proof -
  have "(pruneOps cr bs l (int n) = Inr ops \<longrightarrow> ops = pruneTxs cr (int (n - 2016)) 0 (prunedTxs (l_prune l) chain n))
    \<and> (restoreOps cr bs l (int n) = Inr ops \<longrightarrow> ops = restoreTxs cr (int (n - 2016)) 0 (prunedTxs (l_prune l) chain n))"
  proof (cases "l_prune l \<and> 2016 \<le> n")
    case True
    then have k: "n - 2016 < length chain" "int n - 2 * BLOCKS_UNTIL_NEW_SERIES = int (n - 2016)"
      using assms(3) by auto
    have c: "l_prune l \<and> 2 * BLOCKS_UNTIL_NEW_SERIES \<le> int n" "l_prune l" "2016 \<le> n" using True by auto
    show ?thesis
      unfolding pruneOps_def restoreOps_def prunedTxs_def if_P [OF c(1)] if_P [OF True]
        pruneIndices_def restoreIndices_def k(2) bindE_Inr
      using blockAtHeight_rel [OF assms(1,2) k(1) assms(4)] chain_valid_block(2) [OF assms(5) k(1)] by auto
  next
    case False
    then have c: "\<not> (l_prune l \<and> 2 * BLOCKS_UNTIL_NEW_SERIES \<le> int n)" by auto
    show ?thesis
      unfolding pruneOps_def restoreOps_def prunedTxs_def if_not_P [OF c] if_not_P [OF False] by simp
  qed
  then show "pruneOps cr bs l (int n) = Inr ops \<Longrightarrow> ops = pruneTxs cr (int (n - 2016)) 0 (prunedTxs (l_prune l) chain n)"
    "restoreOps cr bs l (int n) = Inr ops \<Longrightarrow> ops = restoreTxs cr (int (n - 2016)) 0 (prunedTxs (l_prune l) chain n)"
    by blast+
qed

lemma window_Suc:
  "window prune (Suc n) h \<longleftrightarrow> h = n \<or> window prune n h \<and> \<not> (prune \<and> 2016 \<le> n \<and> h = n - 2016)"
  by (auto simp: window_def)

section \<open>The transaction index follows the chain\<close>

lemma txIDs_nth: "j < length (Transactions b) \<Longrightarrow> tx_ID cr (Transactions b ! j) \<in> txIDs cr b"
  by (simp add: txIDs_def)

lemma chain_valid_disjoint:
  assumes "chain_valid cr prune chain" "a < b" "b < length chain" "prune \<longrightarrow> b \<le> a + 2016"
    "t \<in> txIDs cr (chain ! a)"
  shows "t \<notin> txIDs cr (chain ! b)"
proof -
  have "txIDs cr (chain ! a) \<inter> txIDs cr (chain ! b) = {}"
    using assms(1-4) unfolding chain_valid_def by blast
  with assms(5) show ?thesis by blast
qed

lemma shape_distinct: "block_shape cr b \<Longrightarrow> distinct (map (tx_ID cr) (Transactions b))"
  by (simp add: block_shape_def)

lemma tx_rel_window:
  assumes "tx_rel cr chain l" "window (l_prune l) (length chain) h" "t \<in> txIDs cr (chain ! h)"
  shows "db_at (l_db l) (computeTransactionIndexKey t) \<noteq> None"
  using assms by (fastforce simp: tx_rel_def txIDs_def in_set_conv_nth)

lemma tx_rel_val:
  assumes "tx_rel cr chain l" "window (l_prune l) (length chain) h" "j < length (Transactions (chain ! h))"
  shows "db_at (l_db l) (computeTransactionIndexKey (tx_ID cr (Transactions (chain ! h) ! j)))
    = Some (encodeTransactionIndex (int h) (int j))"
  using assms by (simp add: tx_rel_def)

lemma tx_rel_connect:
  assumes v: "chain_valid cr (l_prune l) chain" and rel: "tx_rel cr chain l" and sh: "block_shape cr b"
    and new: "\<forall>t \<in> txIDs cr b. db_at (l_db l) (computeTransactionIndexKey t) = None"
    and pr: "l_prune l' = l_prune l"
    and at: "\<And>t. db_at (l_db l') (computeTransactionIndexKey t) =
      (case batch_at (pruneTxs cr k 0 (prunedTxs (l_prune l) chain (length chain))) (computeTransactionIndexKey t) of
         Some v \<Rightarrow> v | None \<Rightarrow> (case batch_at (restoreTxs cr (int (length chain)) 0 (Transactions b))
           (computeTransactionIndexKey t) of Some v \<Rightarrow> v | None \<Rightarrow> db_at (l_db l) (computeTransactionIndexKey t)))"
  shows "tx_rel cr (chain @ [b]) l'"
proof -
  let ?n = "length chain" and ?p = "l_prune l"
  let ?P = "tx_ID cr ` set (prunedTxs ?p chain ?n)"
  have P: "t \<in> ?P \<longleftrightarrow> ?p \<and> 2016 \<le> ?n \<and> t \<in> txIDs cr (chain ! (?n - 2016))" for t
    by (auto simp: prunedTxs_def txIDs_def)
  have live: "db_at (l_db l) (computeTransactionIndexKey t) \<noteq> None" if "t \<in> ?P" for t
    using that unfolding P by (intro tx_rel_window [OF rel, of "?n - 2016"]) (auto simp: window_def)
  have val: "db_at (l_db l') (computeTransactionIndexKey (tx_ID cr (Transactions ((chain @ [b]) ! h) ! j)))
      = Some (encodeTransactionIndex (int h) (int j))"
    if w: "window ?p (Suc ?n) h" and j: "j < length (Transactions ((chain @ [b]) ! h))" for h j
  proof (cases "h = ?n")
    case True
    with j have t: "tx_ID cr (Transactions b ! j) \<in> txIDs cr b" by (simp add: txIDs_nth)
    with new live have "tx_ID cr (Transactions b ! j) \<notin> ?P" by blast
    with True j show ?thesis
      by (simp add: at batch_at_pruneTxs batch_at_restoreTxs_tx [OF shape_distinct [OF sh]])
  next
    case False
    let ?t = "tx_ID cr (Transactions (chain ! h) ! j)"
    from False w have h: "window ?p ?n h" "h < ?n" "\<not> (?p \<and> 2016 \<le> ?n \<and> h = ?n - 2016)"
      by (auto simp: window_Suc window_def)
    with j have j': "j < length (Transactions (chain ! h))" by (simp add: nth_append)
    have old: "db_at (l_db l) (computeTransactionIndexKey ?t) = Some (encodeTransactionIndex (int h) (int j))"
      using rel h(1) j' by (simp add: tx_rel_def)
    with new have "?t \<notin> tx_ID cr ` set (Transactions b)" by (auto simp: txIDs_def)
    moreover have "?t \<notin> ?P"
    proof
      assume "?t \<in> ?P"
      then have a: "?p" "2016 \<le> ?n" "?t \<in> txIDs cr (chain ! (?n - 2016))" by (auto simp: P)
      with h have "?n - 2016 < h" by (auto simp: window_def)
      from chain_valid_disjoint [OF v this h(2) _ a(3)] h(2) a(2) txIDs_nth [OF j', of cr] show False by simp
    qed
    ultimately show ?thesis
      using h(2) by (simp add: nth_append at batch_at_pruneTxs batch_at_restoreTxs_other old)
  qed
  have "\<exists>h. window ?p (Suc ?n) h \<and> t \<in> txIDs cr ((chain @ [b]) ! h)"
    if t: "db_at (l_db l') (computeTransactionIndexKey t) \<noteq> None" for t
  proof (cases "t \<in> txIDs cr b")
    case True
    then show ?thesis by (intro exI [of _ ?n]) (simp add: window_Suc)
  next
    case False
    from t have np: "t \<notin> ?P" by (auto simp: at batch_at_pruneTxs)
    from t False np have "db_at (l_db l) (computeTransactionIndexKey t) \<noteq> None"
      by (auto simp: at batch_at_pruneTxs batch_at_restoreTxs_other txIDs_def)
    with rel obtain h where h: "window ?p ?n h" "t \<in> txIDs cr (chain ! h)" unfolding tx_rel_def by blast
    with np have "\<not> (?p \<and> 2016 \<le> ?n \<and> h = ?n - 2016)" by (auto simp: P)
    with h show ?thesis by (intro exI [of _ h]) (auto simp: window_Suc window_def nth_append)
  qed
  with val pr show ?thesis by (auto simp: tx_rel_def)
qed

lemma tx_rel_disconnect:
  assumes v: "chain_valid cr (l_prune l) (chain @ [b])" and rel: "tx_rel cr (chain @ [b]) l"
    and pr: "l_prune l' = l_prune l"
    and at: "\<And>t. db_at (l_db l') (computeTransactionIndexKey t) =
      (case batch_at (restoreTxs cr (int (length chain - 2016)) 0 (prunedTxs (l_prune l) chain (length chain)))
           (computeTransactionIndexKey t) of Some v \<Rightarrow> v | None \<Rightarrow>
         (case batch_at (unindexOps cr (int (length chain)) (rev (Transactions b))) (computeTransactionIndexKey t) of
           Some v \<Rightarrow> v | None \<Rightarrow> db_at (l_db l) (computeTransactionIndexKey t)))"
  shows "tx_rel cr chain l'"
proof -
  let ?n = "length chain" and ?p = "l_prune l"
  let ?P = "tx_ID cr ` set (prunedTxs ?p chain ?n)"
  have P: "t \<in> ?P \<longleftrightarrow> ?p \<and> 2016 \<le> ?n \<and> t \<in> txIDs cr (chain ! (?n - 2016))" for t
    by (auto simp: prunedTxs_def txIDs_def)
  have val: "db_at (l_db l') (computeTransactionIndexKey (tx_ID cr (Transactions (chain ! h) ! j)))
      = Some (encodeTransactionIndex (int h) (int j))"
    if w: "window ?p ?n h" and j: "j < length (Transactions (chain ! h))" for h j
  proof (cases "?p \<and> 2016 \<le> ?n \<and> h = ?n - 2016")
    case True
    then have h: "h < length (chain @ [b])" "(chain @ [b]) ! h = chain ! h" "length chain - 2016 = h"
      "prunedTxs ?p chain ?n = Transactions (chain ! h)"
      by (auto simp: nth_append prunedTxs_def)
    from shape_distinct [OF chain_valid_block(1) [OF v h(1)]] h(2)
    have d: "distinct (map (tx_ID cr) (Transactions (chain ! h)))" by simp
    show ?thesis
      unfolding at h(3,4) batch_at_restoreTxs_tx [OF d j] by simp
  next
    case False
    let ?t = "tx_ID cr (Transactions (chain ! h) ! j)"
    from False w have h: "window ?p (Suc ?n) h" "h < ?n" by (auto simp: window_Suc window_def)
    with tx_rel_val [OF rel, of h j] j
    have old: "db_at (l_db l) (computeTransactionIndexKey ?t) = Some (encodeTransactionIndex (int h) (int j))"
      by (simp add: nth_append)
    have t: "?t \<in> txIDs cr (chain ! h)" by (rule txIDs_nth [OF j])
    have "?t \<notin> txIDs cr b"
      using chain_valid_disjoint [OF v, of h ?n ?t] t h(2) w by (auto simp: nth_append window_def)
    moreover have "?t \<notin> ?P"
    proof
      assume a: "?t \<in> ?P"
      then have "?n - 2016 < h" "2016 \<le> ?n" using False w by (auto simp: P window_def)
      with chain_valid_disjoint [OF v, of "?n - 2016" h ?t] t h(2) a show False
        by (auto simp: P nth_append)
    qed
    ultimately show ?thesis
      by (simp add: at batch_at_unindexOps batch_at_restoreTxs_other old txIDs_def)
  qed
  have "\<exists>h. window ?p ?n h \<and> t \<in> txIDs cr (chain ! h)"
    if t: "db_at (l_db l') (computeTransactionIndexKey t) \<noteq> None" for t
  proof (cases "t \<in> ?P")
    case True
    then show ?thesis unfolding P by (intro exI [of _ "?n - 2016"]) (auto simp: window_def)
  next
    case False
    with t have nb: "t \<notin> txIDs cr b" and o: "db_at (l_db l) (computeTransactionIndexKey t) \<noteq> None"
      by (auto simp: at batch_at_unindexOps batch_at_restoreTxs_other txIDs_def split: if_splits)
    from o rel obtain h where h: "window ?p (Suc ?n) h" "t \<in> txIDs cr ((chain @ [b]) ! h)"
      by (auto simp: tx_rel_def)
    from h nb have "h \<noteq> ?n" by auto
    with h show ?thesis by (intro exI [of _ h]) (auto simp: window_def nth_append)
  qed
  with val pr show ?thesis by (auto simp: tx_rel_def)
qed

section \<open>The index by public key follows the chain\<close>

lemma shape_txs_ok: "block_shape cr b \<Longrightarrow> \<forall>tx \<in> set (Transactions b). tx_ok tx"
  by (simp add: block_shape_def)

lemma party_heights:
  assumes "block_shape cr a" "block_shape cr b" "k \<in> partySet (int g) 0 (Transactions a)"
    "k \<in> partySet (int h) 0 (Transactions b)" "int g \<le> MAX_NUMBER" "int h \<le> MAX_NUMBER"
  shows "g = h"
  using partySet_height [OF assms(3,4)] shape_txs_ok [OF assms(1)] shape_txs_ok [OF assms(2)] assms(5,6)
  by (auto simp: int64_def)

lemma pruned_party:
  "k \<in> partySet h 0 (prunedTxs prune chain n) \<longleftrightarrow>
     prune \<and> 2016 \<le> n \<and> k \<in> partySet h 0 (Transactions (chain ! (n - 2016)))"
  by (auto simp: prunedTxs_def)

lemma chain_height_bound:
  "chain_valid cr prune chain \<Longrightarrow> h < length chain \<Longrightarrow> int h \<le> MAX_NUMBER"
  by (auto simp: chain_valid_def block_shape_def)

lemma pk_rel_connect:
  assumes v: "chain_valid cr (l_prune l) chain" and rel: "pk_rel chain l" and sh: "block_shape cr b"
    and n: "int (length chain) \<le> MAX_NUMBER" and pr: "l_prune l' = l_prune l"
    and at: "\<And>r. db_at (l_db l') (107 # r) =
      (case batch_at (pruneTxs cr (int (length chain - 2016)) 0 (prunedTxs (l_prune l) chain (length chain))) (107 # r) of
         Some v \<Rightarrow> v | None \<Rightarrow> (case batch_at (restoreTxs cr (int (length chain)) 0 (Transactions b)) (107 # r) of
           Some v \<Rightarrow> v | None \<Rightarrow> db_at (l_db l) (107 # r)))"
  shows "pk_rel (chain @ [b]) l'"
proof -
  let ?n = "length chain" and ?p = "l_prune l"
  let ?in = "\<lambda>r h. 107 # r \<in> partySet (int h) 0 (Transactions ((chain @ [b]) ! h))"
  have shapes: "block_shape cr ((chain @ [b]) ! h) \<and> int h \<le> MAX_NUMBER" if "h \<le> ?n" for h
    using that chain_valid_block(1) [OF v, of h] chain_height_bound [OF v, of h] sh n
    by (auto simp: nth_append)
  have one: "g = h" if "?in r g" "?in r h" "g \<le> ?n" "h \<le> ?n" for r g h
    using party_heights [OF _ _ that(1,2)] shapes [OF that(3)] shapes [OF that(4)] by blast
  have pd: "107 # r \<in> partySet (int (?n - 2016)) 0 (prunedTxs ?p chain ?n) \<longleftrightarrow> ?p \<and> 2016 \<le> ?n \<and> ?in r (?n - 2016)" for r
    unfolding pruned_party by (auto simp: nth_append)
  have new: "107 # r \<in> partySet (int ?n) 0 (Transactions b) \<longleftrightarrow> ?in r ?n" for r by simp
  have old: "db_at (l_db l) (107 # r) = (if \<exists>h. window ?p ?n h \<and> ?in r h then Some [1] else None)" for r
  proof -
    have "(window ?p ?n h \<and> ?in r h) = (window ?p ?n h \<and> 107 # r \<in> partySet (int h) 0 (Transactions (chain ! h)))" for h
      by (auto simp: window_def nth_append)
    with rel show ?thesis by (simp add: pk_rel_def)
  qed
  have "db_at (l_db l') (107 # r) = (if \<exists>h. window ?p (Suc ?n) h \<and> ?in r h then Some [1] else None)" for r
  proof (cases "?p \<and> 2016 \<le> ?n \<and> ?in r (?n - 2016)")
    case True
    have "\<not> (window ?p (Suc ?n) h \<and> ?in r h)" for h
      using one [of r h "?n - 2016"] True by (auto simp: window_def)
    then have "\<not> (\<exists>h. window ?p (Suc ?n) h \<and> ?in r h)" by blast
    then show ?thesis unfolding at batch_at_pruneTxs pd if_P [OF True] by simp
  next
    case False
    have "db_at (l_db l') (107 # r) = (if ?in r ?n then Some [1] else db_at (l_db l) (107 # r))"
      unfolding at batch_at_pruneTxs pd if_not_P [OF False] batch_at_restoreTxs_pk new by simp
    moreover have "(\<exists>h. window ?p (Suc ?n) h \<and> ?in r h) \<longleftrightarrow> ?in r ?n \<or> (\<exists>h. window ?p ?n h \<and> ?in r h)"
      using False unfolding window_Suc by blast
    ultimately show ?thesis unfolding old by (cases "?in r ?n") simp_all
  qed
  with pr show ?thesis by (simp add: pk_rel_def)
qed

lemma pk_rel_disconnect:
  assumes v: "chain_valid cr (l_prune l) (chain @ [b])" and rel: "pk_rel (chain @ [b]) l"
    and pr: "l_prune l' = l_prune l"
    and at: "\<And>r. db_at (l_db l') (107 # r) =
      (case batch_at (restoreTxs cr (int (length chain - 2016)) 0 (prunedTxs (l_prune l) chain (length chain))) (107 # r) of
         Some v \<Rightarrow> v | None \<Rightarrow> (case batch_at (unindexOps cr (int (length chain)) (rev (Transactions b))) (107 # r) of
           Some v \<Rightarrow> v | None \<Rightarrow> db_at (l_db l) (107 # r)))"
  shows "pk_rel chain l'"
proof -
  let ?n = "length chain" and ?p = "l_prune l"
  let ?in = "\<lambda>r h. 107 # r \<in> partySet (int h) 0 (Transactions ((chain @ [b]) ! h))"
  have one: "g = h" if "?in r g" "?in r h" "g \<le> ?n" "h \<le> ?n" for r g h
    using party_heights [OF chain_valid_block(1) [OF v, of g] chain_valid_block(1) [OF v, of h] that(1,2)]
      chain_height_bound [OF v] that(3,4) by simp
  have pd: "107 # r \<in> partySet (int (?n - 2016)) 0 (prunedTxs ?p chain ?n) \<longleftrightarrow> ?p \<and> 2016 \<le> ?n \<and> ?in r (?n - 2016)" for r
    unfolding pruned_party by (auto simp: nth_append)
  have new: "107 # r \<in> partySet (int ?n) 0 (Transactions b) \<longleftrightarrow> ?in r ?n" for r by simp
  have old: "db_at (l_db l) (107 # r) = (if \<exists>h. window ?p (Suc ?n) h \<and> ?in r h then Some [1] else None)" for r
    using rel by (simp add: pk_rel_def)
  have "db_at (l_db l') (107 # r) = (if \<exists>h. window ?p ?n h \<and> ?in r h then Some [1] else None)" for r
  proof (cases "?p \<and> 2016 \<le> ?n \<and> ?in r (?n - 2016)")
    case True
    then have "window ?p ?n (?n - 2016) \<and> ?in r (?n - 2016)" by (auto simp: window_def)
    then have "\<exists>h. window ?p ?n h \<and> ?in r h" by blast
    then show ?thesis unfolding at batch_at_restoreTxs_pk pd if_P [OF True] by simp
  next
    case False
    have d: "db_at (l_db l') (107 # r) = (if ?in r ?n then None else db_at (l_db l) (107 # r))"
      unfolding at batch_at_restoreTxs_pk pd if_not_P [OF False] batch_at_unindexOps new by simp
    show ?thesis
    proof (cases "?in r ?n")
      case True
      have "\<not> (window ?p ?n h \<and> ?in r h)" for h
        using one [OF True, of h] by (auto simp: window_def)
      with True show ?thesis by (simp add: d)
    next
      case nin: False
      have "(window ?p (Suc ?n) h \<and> ?in r h) = (window ?p ?n h \<and> ?in r h)" for h
        using False nin unfolding window_Suc by blast
      with nin show ?thesis unfolding d old by simp
    qed
  qed
  moreover have "(window ?p ?n h \<and> ?in r h) = (window ?p ?n h \<and> 107 # r \<in> partySet (int h) 0 (Transactions (chain ! h)))" for r h
    by (auto simp: window_def nth_append)
  ultimately show ?thesis using pr by (simp add: pk_rel_def)
qed

end
