(* ===== verification/Ledger_Refine.thy ===== *)
theory Ledger_Refine
  imports Ledger_Tables
begin

text \<open>
  \<^verbatim>\<open>ConnectBlock\<close> and \<^verbatim>\<open>DisconnectBlock\<close> refine the abstract chain of \<open>Ledger_Chain\<close>: a successful
  connect appends the block, a successful disconnect removes it, a failed one changes nothing, and
  without faults a disconnect of the last block always succeeds.
\<close>

section \<open>Connecting a block appends it to the chain\<close>

lemma reward_bounds: "0 \<le> BlockCreationReward (int h)" "BlockCreationReward (int h) \<le> 5000000000"
proof -
  have "(5000000000::int) div 2 ^ (h div 210000) \<le> 5000000000 div 1"
    by (rule zdiv_mono2) auto
  then show "0 \<le> BlockCreationReward (int h)" "BlockCreationReward (int h) \<le> 5000000000"
    by (simp_all add: reward_nat pos_imp_zdiv_nonneg_iff)
qed

lemma connect_money:
  assumes v: "chain_valid cr prune chain" and rel: "bal_rel chain l" and ok: "block_ok cr (length chain) b"
    and app: "applyAll l (applied (maturesAt chain (length chain)) (Transactions b)) (NewBalanceCache 0) = Inr bc"
  shows "cview l bc = chainBal (chain @ [b])" "cache_ok bc" "money_run (chainEffects (chain @ [b])) (\<lambda>_. 0)"
    "tx_Amount (coinbaseOf b) = BlockCreationReward (int (length chain)) + fees (Transactions b)"
proof -
  let ?m = "maturesAt chain (length chain)"
  let ?ts = "applied ?m (Transactions b)"
  have sh: "block_shape cr b" using ok by (simp add: block_ok_def)
  note mok = maturesAt_ok [OF v order_refl]
  have view: "cview l (NewBalanceCache 0) = chainBal chain"
    using lb.view_empty [of "NewBalanceCache 0" l] bal_rel_eq(1) [OF v rel] by (simp add: NewBalanceCache_def)
  have oks: "\<forall>tx \<in> set ?ts. tx_ok tx" using applied_ok [OF sh] mok(2) by blast
  have mint: "minted ?ts = (case ?m of None \<Rightarrow> 0 | Some t \<Rightarrow> tx_Amount t)" "fees ?ts = fees (Transactions b)"
    using minted_applied [OF sh] mok(1) by blast+
  have le: "total (chainBal chain) + minted ?ts \<le> MAX_MONEY"
    unfolding mint using chain_table(4) [OF v] .
  have c0: "cache_ok (NewBalanceCache 0)" by (simp add: cache_ok_def NewBalanceCache_def)
  have A: "cview l bc = transfers ?ts (chainBal chain) \<and> supply_table (cview l bc)
    \<and> money_run ?ts (chainBal chain) \<and> cache_ok bc"
    using applyAll_Inr [OF oks _ _ app c0] chain_table(3) [OF v] le unfolding view by blast
  then show "cview l bc = chainBal (chain @ [b])" "cache_ok bc"
    by (simp_all add: chainBal_snoc)
  show "money_run (chainEffects (chain @ [b])) (\<lambda>_. 0)"
    using A v by (simp add: chainEffects_snoc money_run_append chain_valid_def chainBal_def)
  have f: "fees (Transactions b) \<le> MAX_MONEY"
  proof -
    have "fees ?ts \<le> total (chainBal chain) + minted ?ts"
      using fees_le_total [OF chain_table(1) [OF v]] A by blast
    with le show ?thesis unfolding mint(2) by linarith
  qed
  have "0 \<le> fees ?ts" by (rule fees_nonneg [OF oks])
  then have "i64 (BlockCreationReward (int (length chain)) + fees (Transactions b))
      = BlockCreationReward (int (length chain)) + fees (Transactions b)"
    using f reward_bounds [of "length chain"] by (intro i64_small) (simp_all add: mint(2))
  with ok show "tx_Amount (coinbaseOf b) = BlockCreationReward (int (length chain)) + fees (Transactions b)"
    by (simp add: block_ok_def)
qed

lemma chain_valid_snoc:
  assumes v: "chain_valid cr prune chain" and ok: "block_ok cr (length chain) b"
    and amt: "tx_Amount (coinbaseOf b) = BlockCreationReward (int (length chain)) + fees (Transactions b)"
    and run: "money_run (chainEffects (chain @ [b])) (\<lambda>_. 0)"
    and prev: "chain \<noteq> [] \<Longrightarrow> Previous (Header b) = block_ID cr (last chain)"
    and new: "\<And>h. window prune (length chain) h \<Longrightarrow> txIDs cr (chain ! h) \<inter> txIDs cr b = {}"
  shows "chain_valid cr prune (chain @ [b])"
proof -
  have "Previous (Header ((chain @ [b]) ! h)) = block_ID cr ((chain @ [b]) ! (h - 1))"
    if "h < Suc (length chain)" "0 < h" for h
  proof (cases "h = length chain")
    case True
    with that prev show ?thesis by (simp add: nth_append last_conv_nth)
  next
    case False
    with that have h: "h < length chain" "h - 1 < length chain" by auto
    with v that(2) have "Previous (Header (chain ! h)) = block_ID cr (chain ! (h - 1))"
      unfolding chain_valid_def by blast
    with h show ?thesis by (simp add: nth_append)
  qed
  moreover have "txIDs cr ((chain @ [b]) ! x) \<inter> txIDs cr ((chain @ [b]) ! y) = {}"
    if "x < y" "y < Suc (length chain)" "prune \<longrightarrow> y \<le> x + 2016" for x y
  proof (cases "y = length chain")
    case True
    with that new [of x] show ?thesis by (simp add: nth_append window_def)
  next
    case False
    with that have y: "x < length chain" "y < length chain" by auto
    from y show ?thesis
      using chain_valid_disjoint [OF v that(1) y(2) that(3)] by (auto simp: nth_append)
  qed
  moreover have "block_shape cr ((chain @ [b]) ! h) \<and> Height (Header ((chain @ [b]) ! h)) = int h
      \<and> tx_Amount (coinbaseOf ((chain @ [b]) ! h)) = BlockCreationReward (int h) + fees (Transactions ((chain @ [b]) ! h))"
    if "h < Suc (length chain)" for h
    using that chain_valid_block [OF v, of h] ok amt
    by (cases "h = length chain") (simp_all add: block_ok_def nth_append)
  ultimately show ?thesis unfolding chain_valid_def using run by simp
qed

lemma height_rel_connect:
  assumes "height_rel cr chain l" "int (length chain) \<le> MAX_NUMBER"
    and "\<And>g. db_at (l_db l') (computeBlockHeightIndexKey g) =
      (if computeBlockHeightIndexKey g = computeBlockHeightIndexKey (int (length chain)) then Some (id_bytes (block_ID cr b))
       else db_at (l_db l) (computeBlockHeightIndexKey g))"
  shows "height_rel cr (chain @ [b]) l'"
  unfolding height_rel_def
proof (intro allI impI)
  fix h assume h: "int64 h"
  have n: "int64 (int (length chain))" using assms(2) by (simp add: int64_def)
  show "db_at (l_db l') (computeBlockHeightIndexKey h) = (if 0 \<le> h \<and> h < int (length (chain @ [b]))
      then Some (id_bytes (block_ID cr ((chain @ [b]) ! nat h))) else None)"
  proof (cases "h = int (length chain)")
    case True
    then have "db_at (l_db l') (computeBlockHeightIndexKey h) = Some (id_bytes (block_ID cr b))"
      using assms(3) [of h] by simp
    with True show ?thesis by simp
  next
    case False
    then have "db_at (l_db l') (computeBlockHeightIndexKey h) = db_at (l_db l) (computeBlockHeightIndexKey h)"
      by (simp only: assms(3) height_key_inject [OF h n] if_False)
    also have "\<dots> = (if 0 \<le> h \<and> h < int (length chain) then Some (id_bytes (block_ID cr (chain ! nat h))) else None)"
      by (rule assms(1) [unfolded height_rel_def, rule_format, OF h])
    also have "\<dots> = (if 0 \<le> h \<and> h < int (length (chain @ [b]))
      then Some (id_bytes (block_ID cr ((chain @ [b]) ! nat h))) else None)"
    proof (cases "0 \<le> h \<and> h < int (length chain)")
      case True
      then have "nat h < length chain" by linarith
      with True show ?thesis by (simp add: nth_append)
    qed (use False in auto)
    finally show ?thesis .
  qed
qed

lemma stored_unique:
  assumes "stored cr bs chain" "chain_valid cr prune chain" "g < length chain" "h < length chain"
    "block_ID cr (chain ! g) = block_ID cr (chain ! h)"
  shows "g = h"
proof -
  have at: "bs_blocks bs (block_ID cr (chain ! k)) = Some (chain ! k)" if "k < length chain" for k
    using assms(1) that nth_mem unfolding stored_def by blast
  have "Some (chain ! g) = Some (chain ! h)"
    unfolding at [OF assms(3), symmetric] at [OF assms(4), symmetric] assms(5) ..
  then have "chain ! g = chain ! h" by (rule option.inject [THEN iffD1])
  then have "Height (Header (chain ! g)) = Height (Header (chain ! h))" by (rule arg_cong)
  then show ?thesis
    unfolding chain_valid_block(2) [OF assms(2,3)] chain_valid_block(2) [OF assms(2,4)] by simp
qed

lemma connect_refines:
  assumes v: "chain_valid cr (l_prune l) chain" and rel: "ledger_rel cr chain l" and st: "stored cr bs chain"
    and ok: "block_ok cr (length chain) b"
    and con: "ConnectBlock cr bs (block_ID cr b) b l = (Inr ids, l')"
  shows "chain_valid cr (l_prune l) (chain @ [b])" "ledger_rel cr (chain @ [b]) l'"
    "l_prune l' = l_prune l" "same_faults (l_db l) (l_db l')" "ids = map (tx_ID cr) (Transactions b)"
    "j \<noteq> block_ID cr b \<Longrightarrow> db_at (l_db l') (computeBranchTypeKey j) = db_at (l_db l) (computeBranchTypeKey j)"
proof -
  let ?n = "length chain" and ?h = "int (length chain)"
  have sh: "block_shape cr b" and h: "Height (Header b) = ?h" using ok by (auto simp: block_ok_def)
  have n: "?h \<le> MAX_NUMBER" using sh h by (simp add: block_shape_def)
  then have n1: "?h \<le> MAX_NUMBER + 1" by simp
  have rels: "db_ok (l_db l)" "tip_rel cr chain l" "height_rel cr chain l" "bal_rel chain l" "tx_rel cr chain l"
    "pk_rel chain l" "branch_rel cr chain l" using rel by (simp_all add: ledger_rel_def)
  obtain tip bc pruned where
    tip: "GetChainTip l = Inr tip" "case tip of None \<Rightarrow> True | Some (t, _) \<Rightarrow> t = Previous (Header b)"
    and ids: "ids = map (tx_ID cr) (Transactions b)"
    and new: "\<forall>tx \<in> set (Transactions b). db_at (l_db l) (computeTransactionIndexKey (tx_ID cr tx)) = None"
    and m: "\<forall>tx \<in> set (Transactions b). IsCoinbase tx \<longrightarrow> maturedCoinbase bs l ?h = Inr (matured bs l ?h)"
    and app: "applyAll l (applied (matured bs l ?h) (Transactions b)) (NewBalanceCache 0) = Inr bc"
    and pr: "pruneOps cr bs l ?h = Inr pruned" "l_prune l' = l_prune l"
    and w: "db_Write (restoreTxs cr ?h 0 (Transactions b) @ balanceOps (Balances bc)
       @ [Put (computeBlockHeightIndexKey ?h) (id_bytes (block_ID cr b)), Put (computeBranchTypeKey (block_ID cr b)) [0],
          Put computeChainTipKey (encodeChainTip (block_ID cr b) ?h)] @ pruned) (l_db l) = (Inr (), l_db l')"
    using con by (rule ConnectBlock_Inr) (simp_all only: h)
  have "maturedCoinbase bs l ?h = Inr (matured bs l ?h)"
    using m shape_coinbase(1,3) [OF sh] hd_in_set unfolding coinbaseOf_def by blast
  from matured_rel [OF rels(3) st order_refl n1 this] have "matured bs l ?h = maturesAt chain ?n" .
  note money = connect_money [OF v rels(4) ok app [unfolded this]]
  have P: "pruned = pruneTxs cr (int (?n - 2016)) 0 (prunedTxs (l_prune l) chain ?n)"
    by (rule pruneOps_rel(1) [OF rels(3) st order_refl n1 v pr(1)])
  note T = batch_tables [OF index_ops_txs(1) index_ops_txs(2) op_key.simps(1) op_key.simps(1) op_key.simps(1)
      w [unfolded P], unfolded op_val.simps]
  have newIDs: "\<forall>t \<in> txIDs cr b. db_at (l_db l) (computeTransactionIndexKey t) = None"
    using new by (simp add: txIDs_def)
  have prev: "Previous (Header b) = block_ID cr (last chain)" if "chain \<noteq> []"
  proof -
    have "int64 (?h - 1)" using n by (simp add: int64_def)
    with GetChainTip_eq(2) [OF GetChainTip_read [OF tip(1)]] rels(2) that tip show ?thesis
      by (simp add: tip_rel_def)
  qed
  have disj: "txIDs cr (chain ! k) \<inter> txIDs cr b = {}" if "window (l_prune l) ?n k" for k
    using tx_rel_window [OF rels(5) that] newIDs by blast
  show v': "chain_valid cr (l_prune l) (chain @ [b])"
    by (rule chain_valid_snoc [OF v ok money(4,3) prev disj])
  have "tip_rel cr (chain @ [b]) l'" using T(1) by (simp add: tip_rel_def)
  moreover have "height_rel cr (chain @ [b]) l'" by (rule height_rel_connect [OF rels(3) n T(2)])
  moreover have "bal_rel (chain @ [b]) l'"
    unfolding bal_rel_def T(4) batch_balances [OF money(2) bal_rel_eq(2) [OF v rels(4)]] money(1) enc_bal_def by simp
  moreover have "tx_rel cr (chain @ [b]) l'"
    by (rule tx_rel_connect [OF v rels(5) sh newIDs pr(2) T(5)]) (simp add: computeTransactionIndexKey_def)
  moreover have "pk_rel (chain @ [b]) l'"
    by (rule pk_rel_connect [OF v rels(6) sh n pr(2) T(5)]) simp
  moreover have "branch_rel cr (chain @ [b]) l'"
    using rels(7) unfolding branch_rel_def T(3) by (auto split: if_splits)
  ultimately show "ledger_rel cr (chain @ [b]) l'"
    using db_Write_Inr(2) [OF w rels(1)] by (simp add: ledger_rel_def)
  show "l_prune l' = l_prune l" "same_faults (l_db l) (l_db l')" "ids = map (tx_ID cr) (Transactions b)"
    using pr(2) db_Write_Inr(3) [OF w] ids by simp_all
  show "j \<noteq> block_ID cr b \<Longrightarrow> db_at (l_db l') (computeBranchTypeKey j) = db_at (l_db l) (computeBranchTypeKey j)"
    by (simp add: T(3))
qed

section \<open>Disconnecting the last block removes it from the chain\<close>

lemma chain_valid_prev:
  "chain_valid cr prune chain \<Longrightarrow> h < length chain \<Longrightarrow> 0 < h \<Longrightarrow>
   Previous (Header (chain ! h)) = block_ID cr (chain ! (h - 1))"
  unfolding chain_valid_def by blast

lemma chain_valid_butlast:
  assumes "chain_valid cr prune (chain @ [b])"
  shows "chain_valid cr prune chain"
proof -
  have "Previous (Header (chain ! h)) = block_ID cr (chain ! (h - 1))" if "h < length chain" "0 < h" for h
  proof -
    have "Previous (Header ((chain @ [b]) ! h)) = block_ID cr ((chain @ [b]) ! (h - 1))"
      using chain_valid_prev [OF assms, of h] that by simp
    moreover have "h - 1 < length chain" using that by simp
    ultimately show ?thesis using that by (simp add: nth_append)
  qed
  moreover have "txIDs cr (chain ! x) \<inter> txIDs cr (chain ! y) = {}"
    if "x < y \<and> y < length chain \<and> (prune \<longrightarrow> y \<le> x + 2016)" for x y
    using chain_valid_disjoint [OF assms, of x y] that by (auto simp: nth_append)
  moreover have "block_shape cr (chain ! h) \<and> Height (Header (chain ! h)) = int h
      \<and> tx_Amount (coinbaseOf (chain ! h)) = BlockCreationReward (int h) + fees (Transactions (chain ! h))"
    if "h < length chain" for h
    using chain_valid_block [OF assms, of h] that by (simp add: nth_append)
  moreover have "money_run (chainEffects chain) (\<lambda>_. 0)"
    using assms by (simp add: chain_valid_def chainEffects_snoc money_run_append)
  ultimately show ?thesis unfolding chain_valid_def by blast
qed

text \<open>What the ledger looks like once the batch of a disconnect has been written.\<close>

lemma disconnect_written:
  assumes v: "chain_valid cr (l_prune l) (chain @ [b])" and rel: "ledger_rel cr (chain @ [b]) l"
    and st: "stored cr bs (chain @ [b])" and ne: "chain \<noteq> []"
    and bc: "cview l bc = chainBal chain" "cache_ok bc" and pr: "l_prune l' = l_prune l"
    and w: "db_Write (unindexOps cr (int (length chain)) (rev (Transactions b)) @ balanceOps (Balances bc)
       @ [Delete (computeBlockHeightIndexKey (int (length chain))), Put (computeBranchTypeKey (block_ID cr b)) [1],
          Put computeChainTipKey (encodeChainTip (Previous (Header b)) (i64 (int (length chain) - 1)))]
       @ restoreTxs cr (int (length chain - 2016)) 0 (prunedTxs (l_prune l) chain (length chain))) (l_db l)
       = (Inr (), l_db l')"
  shows "ledger_rel cr chain l' \<and> (\<forall>j. db_at (l_db l') (computeBranchTypeKey j) =
    (if j = block_ID cr b then Some [1] else db_at (l_db l) (computeBranchTypeKey j)))"
proof -
  let ?n = "length chain" and ?h = "int (length chain)"
  have n: "?h \<le> MAX_NUMBER" using chain_height_bound [OF v, of ?n] by simp
  have rels: "db_ok (l_db l)" "height_rel cr (chain @ [b]) l" "bal_rel (chain @ [b]) l" "tx_rel cr (chain @ [b]) l"
    "pk_rel (chain @ [b]) l" "branch_rel cr (chain @ [b]) l" using rel by (simp_all add: ledger_rel_def)
  note T = batch_tables [OF index_ops_txs(3) index_ops_txs(1) op_key.simps(2) op_key.simps(1) op_key.simps(1)
      w, unfolded op_val.simps]
  have "Previous (Header ((chain @ [b]) ! ?n)) = block_ID cr ((chain @ [b]) ! (?n - 1))"
    using chain_valid_prev [OF v, of ?n] ne by simp
  then have "Previous (Header b) = block_ID cr (last chain)" using ne by (simp add: nth_append last_conv_nth)
  moreover have "i64 (?h - 1) = ?h - 1" using n ne by (simp add: i64_small Suc_le_eq)
  ultimately have "tip_rel cr chain l'" using T(1) ne by (simp add: tip_rel_def)
  moreover have "height_rel cr chain l'"
    unfolding height_rel_def
  proof (intro allI impI)
    fix h assume h: "int64 h"
    have "int64 ?h" using n by (simp add: int64_def)
    note T2 = T(2) [of h, unfolded height_key_inject [OF h this]]
    have at: "db_at (l_db l) (computeBlockHeightIndexKey h) = (if 0 \<le> h \<and> h < int (length (chain @ [b]))
        then Some (id_bytes (block_ID cr ((chain @ [b]) ! nat h))) else None)"
      by (rule rels(2) [unfolded height_rel_def, rule_format, OF h])
    show "db_at (l_db l') (computeBlockHeightIndexKey h) =
      (if 0 \<le> h \<and> h < ?h then Some (id_bytes (block_ID cr (chain ! nat h))) else None)"
    proof (cases "0 \<le> h \<and> h < ?h")
      case True
      then have "nat h < ?n" by linarith
      with True T2 at show ?thesis by (simp add: nth_append)
    next
      case False
      with T2 at show ?thesis by (auto split: if_splits)
    qed
  qed
  moreover have "bal_rel chain l'"
    unfolding bal_rel_def T(4) batch_balances [OF bc(2) bal_rel_eq(2) [OF v rels(3)]] bc(1) enc_bal_def by simp
  moreover have "tx_rel cr chain l'"
    by (rule tx_rel_disconnect [OF v rels(4) pr T(5)]) (simp add: computeTransactionIndexKey_def)
  moreover have "pk_rel chain l'"
    by (rule pk_rel_disconnect [OF v rels(5) pr T(5)]) simp
  moreover have "block_ID cr b \<notin> block_ID cr ` set chain"
  proof
    assume "block_ID cr b \<in> block_ID cr ` set chain"
    then obtain g where g: "g < ?n" "block_ID cr (chain ! g) = block_ID cr b" by (auto simp: in_set_conv_nth)
    with stored_unique [OF st v, of g ?n] show False by (simp add: nth_append)
  qed
  then have "branch_rel cr chain l'"
    using rels(6) unfolding branch_rel_def T(3) by (auto split: if_splits)
  ultimately show ?thesis
    using db_Write_Inr(2) [OF w rels(1)] T(3) by (simp add: ledger_rel_def)
qed

text \<open>An undo that returns leaves the balances of the shorter chain.\<close>

lemma undoAll_Inr:
  assumes "\<forall>tx \<in> set ts. tx_ok tx" "money_run ts f" "cview l bc = transfers ts f" "cache_ok bc"
    and "undoAll l (rev ts) bc = Inr bc'"
  shows "cview l bc' = f \<and> cache_ok bc'"
  using assms
proof (induction ts arbitrary: bc rule: rev_induct)
  case Nil
  then show ?case by simp
next
  case (snoc tx ts)
  have ok: "tx_ok tx" and oks: "\<forall>tx \<in> set ts. tx_ok tx" using snoc.prems(1) by auto
  have run: "money_run ts f" "money_table (cview l bc)"
    using snoc.prems(2,3) by (simp_all add: money_run_snoc)
  have un: "untransfer tx (cview l bc) = transfers ts f" using snoc.prems(3) by simp
  have m: "money_table (untransfer tx (cview l bc))" using money_run_ends [OF run(1)] un by simp
  from snoc.prems(5) obtain u c where c: "Undo (GetPublicKeyBalance l) tx bc = (Inr u, c)"
    and r: "undoAll l (rev ts) c = Inr bc'"
    by (auto simp: result_simps undoInCache_def split: sum.splits prod.splits)
  note U = lb.Undo_Inr [OF ok run(2) m c]
  from U(1) un have "cview l c = transfers ts f" by simp
  from snoc.IH [OF oks run(1) this U(2) [OF snoc.prems(4)] r] show ?case .
qed

lemma last_block_run:
  assumes v: "chain_valid cr prune (chain @ [b])" and rel: "bal_rel (chain @ [b]) l"
  defines "ts \<equiv> applied (maturesAt chain (length chain)) (Transactions b)"
  shows "\<forall>tx \<in> set ts. tx_ok tx" "money_run ts (chainBal chain)"
    "cview l (NewBalanceCache 0) = transfers ts (chainBal chain)" "cache_ok (NewBalanceCache 0)"
proof -
  have sh: "block_shape cr b" using chain_valid_block(1) [OF v, of "length chain"] by simp
  show "\<forall>tx \<in> set ts. tx_ok tx"
    unfolding ts_def using applied_ok [OF sh] maturesAt_ok(2) [OF chain_valid_butlast [OF v] order_refl] by blast
  show "money_run ts (chainBal chain)"
    using v by (simp add: chain_valid_def chainEffects_snoc money_run_append chainBal_def ts_def)
  show "cview l (NewBalanceCache 0) = transfers ts (chainBal chain)"
    using lb.view_empty [of "NewBalanceCache 0" l] bal_rel_eq(1) [OF v rel]
    by (simp add: NewBalanceCache_def chainBal_snoc ts_def)
  show "cache_ok (NewBalanceCache 0)" by (simp add: cache_ok_def NewBalanceCache_def)
qed

definition no_faults :: "block_store \<Rightarrow> ledger \<Rightarrow> bool" where
  "no_faults bs l \<longleftrightarrow> (\<forall>k. \<not> readFault (l_db l) k) \<and> \<not> writeFault (l_db l) \<and> (\<forall>i. \<not> bs_readFault bs i)"

lemma maturedCoinbase_ok:
  assumes "height_rel cr chain l" "stored cr bs chain" "h \<le> length chain" "int (length chain) \<le> MAX_NUMBER + 1"
    "chain_valid cr prune chain" "no_faults bs l"
  shows "maturedCoinbase bs l (int h) = Inr (maturesAt chain h)"
proof (cases "100 \<le> h")
  case True
  then have k: "h - 100 < length chain" using assms(3) by auto
  have w: "i64 (int h - 100) = int (h - 100)" using True assms(3,4) by (simp add: i64_small)
  from assms(2) k(1) have s: "bs_blocks bs (block_ID cr (chain ! (h - 100))) = Some (chain ! (h - 100))"
    by (simp add: stored_def)
  have "Transactions (chain ! (h - 100)) \<noteq> []" by (rule shape_coinbase(3) [OF chain_valid_block(1) [OF assms(5) k]])
  then have "bs_GetTransaction bs (block_ID cr (chain ! (h - 100))) 0
      = Inr (Some (coinbaseOf (chain ! (h - 100)), Header (chain ! (h - 100))))"
    using s assms(6) by (simp add: bs_GetTransaction_def no_faults_def coinbaseOf_def hd_conv_nth)
  moreover have "GetBlockIDForHeight l (int (h - 100)) = Inr (Some (block_ID cr (chain ! (h - 100))))"
    using height_rel_at [OF assms(1) k assms(4)] assms(6) by (simp add: GetBlockIDForHeight_Inr no_faults_def)
  ultimately show ?thesis unfolding maturedCoinbase_def COINBASE_MATURITY_def w by (simp add: maturesAt_def True)
next
  case False
  then have "i64 (int h - 100) < 0" by (simp add: i64_id int64_def)
  with False show ?thesis by (simp add: maturedCoinbase_def maturesAt_def)
qed

lemma restoreOps_ok:
  assumes "height_rel cr chain l" "stored cr bs chain" "h \<le> length chain" "int (length chain) \<le> MAX_NUMBER + 1"
    "no_faults bs l"
  shows "\<exists>ops. restoreOps cr bs l (int h) = Inr ops"
proof (cases "l_prune l \<and> 2016 \<le> h")
  case True
  then have k: "h - 2016 < length chain" "int h - 2 * BLOCKS_UNTIL_NEW_SERIES = int (h - 2016)"
    using assms(3) by auto
  have c: "l_prune l \<and> 2 * BLOCKS_UNTIL_NEW_SERIES \<le> int h" using True by auto
  from assms(2) k(1) have s: "bs_blocks bs (block_ID cr (chain ! (h - 2016))) = Some (chain ! (h - 2016))"
    by (simp add: stored_def)
  have "GetBlockIDForHeight l (int (h - 2016)) = Inr (Some (block_ID cr (chain ! (h - 2016))))"
    using height_rel_at [OF assms(1) k(1) assms(4)] assms(5) by (simp add: GetBlockIDForHeight_Inr no_faults_def)
  then show ?thesis
    unfolding restoreOps_def if_P [OF c] k(2) restoreIndices_def blockAtHeight_def
    using s assms(5) by (simp add: bs_GetBlock_def no_faults_def)
next
  case False
  then have "\<not> (l_prune l \<and> 2 * BLOCKS_UNTIL_NEW_SERIES \<le> int h)" by auto
  then show ?thesis unfolding restoreOps_def by (simp only: if_False) blast
qed

lemma disconnect_succeeds:
  assumes v: "chain_valid cr (l_prune l) (chain @ [b])" and rel: "ledger_rel cr (chain @ [b]) l"
    and st: "stored cr bs (chain @ [b])" and ne: "chain \<noteq> []" and nf: "no_faults bs l"
  shows "\<exists>l'. DisconnectBlock cr bs (block_ID cr b) b l = (Inr (map (tx_ID cr) (Transactions b)), l')
    \<and> ledger_rel cr chain l' \<and> (\<forall>j. db_at (l_db l') (computeBranchTypeKey j) =
      (if j = block_ID cr b then Some [1] else db_at (l_db l) (computeBranchTypeKey j)))
    \<and> l_prune l' = l_prune l \<and> same_faults (l_db l) (l_db l')"
proof -
  let ?n = "length chain" and ?h = "int (length chain)" and ?c = "chain @ [b]"
  have h: "Height (Header b) = ?h" using chain_valid_block(2) [OF v, of ?n] by simp
  have n: "?h \<le> MAX_NUMBER" using chain_height_bound [OF v, of ?n] by simp
  then have n1: "int (length ?c) \<le> MAX_NUMBER + 1" by simp
  have le: "?n \<le> length ?c" by simp
  have rels: "tip_rel cr ?c l" "height_rel cr ?c l" "bal_rel ?c l" using rel by (simp_all add: ledger_rel_def)
  have m: "maturedCoinbase bs l ?h = Inr (maturesAt chain ?n)"
    using maturedCoinbase_ok [OF rels(2) st le n1 v nf] by (simp add: maturesAt_append)
  then have m': "matured bs l ?h = maturesAt chain ?n" by (simp add: matured_def)
  have "int64 ?h" using n by (simp add: int64_def)
  then have tip: "GetChainTip l = Inr (Some (block_ID cr b, ?h))"
    using GetChainTip_eq(2) [of l] rels(1) nf by (simp add: tip_rel_def no_faults_def)
  note run = last_block_run [OF v rels(3)]
  obtain bc where bc: "undoAll l (rev (applied (maturesAt chain ?n) (Transactions b))) (NewBalanceCache 0) = Inr bc"
      "cview l bc = chainBal chain" "cache_ok bc"
    using undoAll_ok [OF run] nf unfolding no_faults_def by blast
  obtain ops where ops: "restoreOps cr bs l ?h = Inr ops" using restoreOps_ok [OF rels(2) st le n1 nf] by blast
  have P: "prunedTxs (l_prune l) ?c ?n = prunedTxs (l_prune l) chain ?n"
    by (auto simp: prunedTxs_def nth_append)
  have o: "ops = restoreTxs cr (int (?n - 2016)) 0 (prunedTxs (l_prune l) chain ?n)"
    using pruneOps_rel(2) [OF rels(2) st le n1 v ops] unfolding P .
  let ?ops = "unindexOps cr ?h (rev (Transactions b)) @ balanceOps (Balances bc)
       @ [Delete (computeBlockHeightIndexKey ?h), Put (computeBranchTypeKey (block_ID cr b)) [1],
          Put computeChainTipKey (encodeChainTip (Previous (Header b)) (i64 (?h - 1)))] @ ops"
  obtain db where w: "db_Write ?ops (l_db l) = (Inr (), db)" using nf by (simp add: db_Write_def no_faults_def)
  have "DisconnectBlock cr bs (block_ID cr b) b l = writeBatch (Inr (?ops, map (tx_ID cr) (Transactions b))) l"
    using DisconnectBlock_eq [OF tip, of b bs bc cr ops] m m' bc(1) ops unfolding h by simp
  also have "\<dots> = (Inr (map (tx_ID cr) (Transactions b)), l\<lparr>l_db := db\<rparr>)"
    using w by (simp add: writeBatch_def)
  finally show ?thesis
    using disconnect_written [OF v rel st ne bc(2,3), of "l\<lparr>l_db := db\<rparr>"] w db_Write_Inr(3) [OF w]
    unfolding o by simp
qed

lemma disconnectTxs_matured:
  "disconnectTxs cr bs l h txs batch bc ids = Inr r \<Longrightarrow>
   \<forall>tx \<in> set txs. IsCoinbase tx \<longrightarrow> maturedCoinbase bs l h = Inr (matured bs l h)"
  by (induction txs arbitrary: batch bc ids) (auto simp: result_simps Let_def matured_def split: if_splits)

lemma disconnect_refines:
  assumes v: "chain_valid cr (l_prune l) (chain @ [b])" and rel: "ledger_rel cr (chain @ [b]) l"
    and st: "stored cr bs (chain @ [b])" and ne: "chain \<noteq> []"
    and dis: "DisconnectBlock cr bs (block_ID cr b) b l = (Inr ids, l')"
  shows "ledger_rel cr chain l' \<and> (\<forall>j. db_at (l_db l') (computeBranchTypeKey j) =
      (if j = block_ID cr b then Some [1] else db_at (l_db l) (computeBranchTypeKey j)))
    \<and> l_prune l' = l_prune l \<and> same_faults (l_db l) (l_db l') \<and> ids = map (tx_ID cr) (Transactions b)"
proof -
  let ?n = "length chain" and ?h = "int (length chain)" and ?c = "chain @ [b]"
  have h: "Height (Header b) = ?h" using chain_valid_block(2) [OF v, of ?n] by simp
  have n1: "int (length ?c) \<le> MAX_NUMBER + 1" using chain_height_bound [OF v, of ?n] by simp
  have le: "?n \<le> length ?c" by simp
  have sh: "block_shape cr b" using chain_valid_block(1) [OF v, of ?n] by simp
  have rels: "height_rel cr ?c l" "bal_rel ?c l" using rel by (simp_all add: ledger_rel_def)
  from dis obtain ops db where o: "disconnectBatch cr bs l (block_ID cr b) b = Inr (ops, ids)"
      "db_Write ops (l_db l) = (Inr (), db)" "l' = l\<lparr>l_db := db\<rparr>"
    by (auto simp: DisconnectBlock_def writeBatch_Inr)
  from o(1) obtain batch bc restored where p:
      "disconnectTxs cr bs l ?h (rev (Transactions b)) [] (NewBalanceCache 0) [] = Inr (batch, bc, ids)"
      "restoreOps cr bs l ?h = Inr restored"
      "ops = batch @ balanceOps (Balances bc) @ [Delete (computeBlockHeightIndexKey ?h),
         Put (computeBranchTypeKey (block_ID cr b)) [1],
         Put computeChainTipKey (encodeChainTip (Previous (Header b)) (i64 (?h - 1)))] @ restored"
    unfolding disconnectBatch_def h restoreOps_def [symmetric]
    by (auto simp: result_simps split: if_split_asm option.splits)
  note m = disconnectTxs_matured [OF p(1)]
  have "maturedCoinbase bs l ?h = Inr (matured bs l ?h)"
    using m shape_coinbase(1,3) [OF sh] hd_in_set unfolding coinbaseOf_def set_rev by blast
  from matured_rel [OF rels(1) st le n1 this] have m': "matured bs l ?h = maturesAt chain ?n"
    by (simp add: maturesAt_append)
  from p(1) [unfolded disconnectTxs_eq [OF m]]
  have bc: "undoAll l (rev (applied (maturesAt chain ?n) (Transactions b))) (NewBalanceCache 0) = Inr bc"
      "batch = unindexOps cr ?h (rev (Transactions b))" "ids = map (tx_ID cr) (Transactions b)"
    by (auto simp: result_simps m' applied_rev rev_map)
  have P: "prunedTxs (l_prune l) ?c ?n = prunedTxs (l_prune l) chain ?n"
    by (auto simp: prunedTxs_def nth_append)
  have r: "restored = restoreTxs cr (int (?n - 2016)) 0 (prunedTxs (l_prune l) chain ?n)"
    using pruneOps_rel(2) [OF rels(1) st le n1 v p(2)] unfolding P .
  have "cview l bc = chainBal chain" "cache_ok bc"
    using undoAll_Inr [OF last_block_run [OF v rels(2)] bc(1)] by auto
  from disconnect_written [OF v rel st ne this, of l'] o(2,3) db_Write_Inr(3) [OF o(2)] bc(3) show ?thesis
    unfolding p(3) bc(2) r by simp
qed

lemma connect_failure: "ConnectBlock cr bs i b l = (Inl e, l') \<Longrightarrow> l' = l"
  unfolding ConnectBlock_def by (rule writeBatch_Inl)

lemma disconnect_failure: "DisconnectBlock cr bs i b l = (Inl e, l') \<Longrightarrow> l' = l"
  unfolding DisconnectBlock_def by (rule writeBatch_Inl)

text \<open>The chain determines every table but the branch types of blocks outside it.\<close>

lemma tx_rel_cases:
  assumes "tx_rel cr chain l"
  obtains "db_at (l_db l) (computeTransactionIndexKey t) = None"
      "\<And>h. window (l_prune l) (length chain) h \<Longrightarrow> t \<notin> txIDs cr (chain ! h)"
    | h j where "window (l_prune l) (length chain) h" "j < length (Transactions (chain ! h))"
      "t = tx_ID cr (Transactions (chain ! h) ! j)"
      "db_at (l_db l) (computeTransactionIndexKey t) = Some (encodeTransactionIndex (int h) (int j))"
proof (cases "db_at (l_db l) (computeTransactionIndexKey t) = None")
  case True
  with tx_rel_window [OF assms] that(1) show ?thesis by blast
next
  case False
  with assms obtain h where h: "window (l_prune l) (length chain) h" "t \<in> txIDs cr (chain ! h)"
    unfolding tx_rel_def by blast
  then obtain j where j: "j < length (Transactions (chain ! h))" "t = tx_ID cr (Transactions (chain ! h) ! j)"
    by (auto simp: txIDs_def in_set_conv_nth)
  with tx_rel_val [OF assms h(1) j(1)] h(1) that(2) show ?thesis by blast
qed

lemma ledger_rel_determines:
  assumes "ledger_rel cr chain l" "ledger_rel cr chain m" "l_prune l = l_prune m"
    and k: "k = computeChainTipKey \<or> (\<exists>h. int64 h \<and> k = computeBlockHeightIndexKey h)
      \<or> (\<exists>pk. k = computePubKeyBalanceKey pk) \<or> (\<exists>r. k = 107 # r) \<or> (\<exists>t. k = computeTransactionIndexKey t)"
  shows "db_at (l_db l) k = db_at (l_db m) k"
proof (cases "\<exists>t. k = computeTransactionIndexKey t")
  case True
  then obtain t where t: "k = computeTransactionIndexKey t" by blast
  have "tx_rel cr chain l" "tx_rel cr chain m" using assms(1,2) by (simp_all add: ledger_rel_def)
  note r = this
  show ?thesis
    unfolding t
  proof (rule tx_rel_cases [OF r(1), of t])
    assume a: "db_at (l_db l) (computeTransactionIndexKey t) = None"
      "\<And>h. window (l_prune l) (length chain) h \<Longrightarrow> t \<notin> txIDs cr (chain ! h)"
    have "db_at (l_db m) (computeTransactionIndexKey t) = None"
      using r(2) a(2) assms(3) unfolding tx_rel_def by auto
    with a(1) show "db_at (l_db l) (computeTransactionIndexKey t) = db_at (l_db m) (computeTransactionIndexKey t)"
      by simp
  next
    fix h j assume "window (l_prune l) (length chain) h" "j < length (Transactions (chain ! h))"
      "t = tx_ID cr (Transactions (chain ! h) ! j)"
      "db_at (l_db l) (computeTransactionIndexKey t) = Some (encodeTransactionIndex (int h) (int j))"
    with tx_rel_val [OF r(2), of h j] assms(3)
    show "db_at (l_db l) (computeTransactionIndexKey t) = db_at (l_db m) (computeTransactionIndexKey t)" by simp
  qed
next
  case False
  with assms show ?thesis by (auto simp: ledger_rel_def tip_rel_def height_rel_def bal_rel_def pk_rel_def)
qed

section \<open>When a block connects\<close>

context balance_source
begin

lemma Apply_ok:
  assumes ok: "tx_ok tx" and m: "money_table (view b)" and m': "money_table (transfer tx (view b))"
    and rd: "\<And>pk. pk \<in> parties tx \<Longrightarrow> getBalance pk = Inr (base pk)" and z: "minBalance b = 0"
  shows "\<exists>b'. Apply getBalance tx b = (Inr True, b')"
proof -
  let ?f = "octets (tx_From tx)" and ?t = "octets (tx_To tx)"
  note p = tx_ok_parts [OF ok]
  have t: "cachedBalance getBalance c ?t = Inr (view c ?t)" for c
    using p(1) rd [of ?t] by (simp add: cachedBalance_def view_def parties_def split: option.splits)
  then have cr: "\<exists>b'. creditRecipient getBalance tx c = (Inr True, b')" for c
    by (simp add: creditRecipient_def)
  show ?thesis
  proof (cases "IsCoinbase tx")
    case True
    with cr show ?thesis by (simp add: Apply_def)
  next
    case False
    have f: "cachedBalance getBalance b ?f = Inr (view b ?f)"
      using p(7) rd [of ?f] False by (simp add: cachedBalance_def view_def parties_def split: option.splits)
    have "0 \<le> transfer tx (view b) ?f" using m' by (simp add: money_table_def)
    then have "spent tx \<le> view b ?f" using False p(8) by (simp add: transfer_def Let_def)
    with f cr p(2) z False show ?thesis by (simp add: Apply_def Let_def)
  qed
qed

lemma Apply_minBalance: "Apply getBalance tx b = (r, b') \<Longrightarrow> minBalance b' = minBalance b"
  by (auto simp: Apply_def creditRecipient_def Let_def split: sum.splits if_splits)

end

lemma applyAll_ok:
  assumes "\<forall>tx \<in> set ts. tx_ok tx" "money_run ts (cview l bc)" "minBalance bc = 0"
    and "\<And>pk. \<not> readFault (l_db l) (computePubKeyBalanceKey pk)"
  shows "\<exists>bc'. applyAll l ts bc = Inr bc'"
  using assms
proof (induction ts arbitrary: bc)
  case Nil
  then show ?case by simp
next
  case (Cons tx ts)
  have ok: "tx_ok tx" and oks: "\<forall>tx \<in> set ts. tx_ok tx" using Cons.prems(1) by auto
  have m: "money_table (cview l bc)" "money_run ts (transfer tx (cview l bc))" using Cons.prems(2) by auto
  have m': "money_table (transfer tx (cview l bc))" using money_run_ends [OF m(2)] by blast
  have rd: "GetPublicKeyBalance l pk = Inr (bal l pk)" for pk using Cons.prems(4) by (simp add: GetPublicKeyBalance_eq)
  obtain c where c: "Apply (GetPublicKeyBalance l) tx bc = (Inr True, c)"
    using lb.Apply_ok [OF ok m(1) m' rd Cons.prems(3)] by blast
  have "cview l c = transfer tx (cview l bc)" by (rule lb.Apply_True(1) [OF ok m(1) c])
  with Cons.IH [OF oks, of c] m(2) lb.Apply_minBalance [OF c] Cons.prems(3,4) c show ?case
    by (simp add: applyToCache_def)
qed

lemma connectTxs_eq:
  assumes "\<forall>tx \<in> set txs. db_at (l_db l) (computeTransactionIndexKey (tx_ID cr tx)) = None"
    and "\<forall>tx \<in> set txs. IsCoinbase tx \<longrightarrow> maturedCoinbase bs l h = Inr m" "\<And>k. \<not> readFault (l_db l) k"
  shows "connectTxs cr bs l h i txs batch bc ids = bindE (applyAll l (applied m txs) bc) (\<lambda>bc'.
    Inr (batch @ restoreTxs cr h i txs, bc', ids @ map (tx_ID cr) txs))"
  using assms
proof (induction txs arbitrary: i batch bc ids)
  case Nil
  then show ?case by simp
next
  case (Cons tx txs)
  have "db_Has (l_db l) (computeTransactionIndexKey (tx_ID cr tx)) = Inr False"
    using Cons.prems(1,3) by (simp add: db_Has_Inr)
  with Cons show ?case
    by (cases m) (auto simp: Let_def bindE_assoc applyToCache_def)
qed

lemma pruneOps_ok:
  assumes "height_rel cr chain l" "stored cr bs chain" "h \<le> length chain" "int (length chain) \<le> MAX_NUMBER + 1"
    "no_faults bs l"
  shows "\<exists>ops. pruneOps cr bs l (int h) = Inr ops"
proof -
  obtain ops where "restoreOps cr bs l (int h) = Inr ops" using restoreOps_ok [OF assms] by blast
  then show ?thesis
    by (auto simp: restoreOps_def pruneOps_def restoreIndices_def pruneIndices_def result_simps split: if_splits)
qed

text \<open>Whether the new block's spends are covered, given the chain it extends.\<close>

definition affordable :: "block list \<Rightarrow> block \<Rightarrow> bool" where
  "affordable chain b \<longleftrightarrow> money_run (applied (maturesAt chain (length chain)) (Transactions b)) (chainBal chain)"

definition fresh_ids :: "crypto \<Rightarrow> bool \<Rightarrow> block list \<Rightarrow> block \<Rightarrow> bool" where
  "fresh_ids cr prune chain b \<longleftrightarrow> (\<forall>h. window prune (length chain) h \<longrightarrow> txIDs cr (chain ! h) \<inter> txIDs cr b = {})"

lemma connect_succeeds:
  assumes v: "chain_valid cr (l_prune l) chain" and rel: "ledger_rel cr chain l" and st: "stored cr bs chain"
    and ok: "block_ok cr (length chain) b" and nf: "no_faults bs l"
    and prev: "chain \<noteq> [] \<Longrightarrow> Previous (Header b) = block_ID cr (last chain)"
    and new: "fresh_ids cr (l_prune l) chain b" and aff: "affordable chain b"
  shows "\<exists>l'. ConnectBlock cr bs i b l = (Inr (map (tx_ID cr) (Transactions b)), l')"
proof -
  let ?n = "length chain" and ?h = "int (length chain)"
  have sh: "block_shape cr b" and h: "Height (Header b) = ?h" using ok by (auto simp: block_ok_def)
  have n1: "?h \<le> MAX_NUMBER + 1" and n: "int64 (?h - 1)" using sh h by (auto simp: block_shape_def int64_def)
  have rels: "tip_rel cr chain l" "height_rel cr chain l" "bal_rel chain l" "tx_rel cr chain l"
    using rel by (simp_all add: ledger_rel_def)
  have rd: "\<not> readFault (l_db l) k" for k using nf by (simp add: no_faults_def)
  have "db_at (l_db l) (computeTransactionIndexKey t) = None" if "t \<in> txIDs cr b" for t
    using rels(4) new that unfolding tx_rel_def fresh_ids_def by blast
  then have nw: "\<forall>tx \<in> set (Transactions b). db_at (l_db l) (computeTransactionIndexKey (tx_ID cr tx)) = None"
    by (simp add: txIDs_def)
  have m: "maturedCoinbase bs l ?h = Inr (maturesAt chain ?n)"
    by (rule maturedCoinbase_ok [OF rels(2) st order_refl n1 v nf])
  have oks: "\<forall>tx \<in> set (applied (maturesAt chain ?n) (Transactions b)). tx_ok tx"
    using applied_ok [OF sh] maturesAt_ok(2) [OF v order_refl] by blast
  have "cview l (NewBalanceCache 0) = chainBal chain"
    using lb.view_empty [of "NewBalanceCache 0" l] bal_rel_eq(1) [OF v rels(3)] by (simp add: NewBalanceCache_def)
  then obtain bc where bc: "applyAll l (applied (maturesAt chain ?n) (Transactions b)) (NewBalanceCache 0) = Inr bc"
    using applyAll_ok [OF oks, of l "NewBalanceCache 0"] aff rd by (auto simp: affordable_def NewBalanceCache_def)
  obtain ops where P: "pruneOps cr bs l ?h = Inr ops" using pruneOps_ok [OF rels(2) st order_refl n1 nf] by blast
  obtain tip where tip: "GetChainTip l = Inr tip" "\<not> (case tip of None \<Rightarrow> False | Some (t, _) \<Rightarrow> t \<noteq> Previous (Header b))"
    using GetChainTip_eq [OF rd] rels(1) n prev by (cases "chain = []") (auto simp: tip_rel_def)
  have c: "connectTxs cr bs l ?h 0 (Transactions b) [] (NewBalanceCache 0) []
      = Inr (restoreTxs cr ?h 0 (Transactions b), bc, map (tx_ID cr) (Transactions b))"
    using connectTxs_eq [OF nw, of bs ?h "maturesAt chain ?n" 0 "[]" "NewBalanceCache 0" "[]"] m rd bc by simp
  have wf: "\<not> writeFault (l_db l)" using nf by (simp add: no_faults_def)
  show ?thesis
    unfolding ConnectBlock_def connectBatch_def h tip(1) bindE_simps if_not_P [OF tip(2)] c prod.case
      pruneOps_def [symmetric] P writeBatch_def
    using wf by (simp add: db_Write_def)
qed

end
