(* ===== verification/Ledger_Props.thy ===== *)
theory Ledger_Props
  imports Ledger_Refine
begin

text \<open>
  The life of a ledger as a transition system: it starts empty, blocks the processor has checked
  are connected and disconnected, side-branch blocks are recorded, and the faults of the store may
  change at any time. Reachability carries the chain that the database represents. The properties
  of the ledger are stated here.
\<close>

inductive reach :: "crypto \<Rightarrow> bool \<Rightarrow> block list \<Rightarrow> ledger \<Rightarrow> bool" for cr prune where
  init: "entries (l_db l) = [] \<Longrightarrow> l_prune l = prune \<Longrightarrow> reach cr prune [] l"
| connect: "reach cr prune chain l \<Longrightarrow> stored cr bs chain \<Longrightarrow> block_ok cr (length chain) b \<Longrightarrow>
    ConnectBlock cr bs (block_ID cr b) b l = (r, l') \<Longrightarrow>
    reach cr prune (case r of Inl e \<Rightarrow> chain | Inr ids \<Rightarrow> chain @ [b]) l'"
| disconnect: "reach cr prune (chain @ [b]) l \<Longrightarrow> chain \<noteq> [] \<Longrightarrow> stored cr bs (chain @ [b]) \<Longrightarrow>
    DisconnectBlock cr bs (block_ID cr b) b l = (r, l') \<Longrightarrow>
    reach cr prune (case r of Inl e \<Rightarrow> chain @ [b] | Inr ids \<Rightarrow> chain) l'"
| side: "reach cr prune chain l \<Longrightarrow> i \<notin> block_ID cr ` set chain \<Longrightarrow> t \<noteq> MAIN \<Longrightarrow> 0 \<le> t \<Longrightarrow> t \<le> UNKNOWN \<Longrightarrow>
    SetBranchType i t l = (r, l') \<Longrightarrow> reach cr prune chain l'"
| faults: "reach cr prune chain l \<Longrightarrow> entries (l_db l') = entries (l_db l) \<Longrightarrow> l_prune l' = l_prune l \<Longrightarrow>
    reach cr prune chain l'"

lemma chain_valid_Nil [simp]: "chain_valid cr prune []"
  by (simp add: chain_valid_def chainEffects_def money_table_def)

lemma ledger_rel_init:
  assumes "entries (l_db l) = []"
  shows "ledger_rel cr [] l"
proof -
  have "db_at (l_db l) k = None" for k using assms by (simp add: db_at_def)
  with assms show ?thesis
    by (simp add: ledger_rel_def db_ok_def kv_valid_def tip_rel_def height_rel_def bal_rel_def tx_rel_def
        pk_rel_def branch_rel_def chainBal_def chainEffects_def window_def) auto
qed

lemma ledger_rel_entries:
  assumes "ledger_rel cr chain l" "entries (l_db l') = entries (l_db l)" "l_prune l' = l_prune l"
  shows "ledger_rel cr chain l'"
proof -
  have "db_at (l_db l') = db_at (l_db l)" using assms(2) by (auto simp: db_at_def)
  with assms show ?thesis
    by (simp add: ledger_rel_def db_ok_def tip_rel_def height_rel_def bal_rel_def tx_rel_def pk_rel_def branch_rel_def)
qed

lemma ledger_rel_side:
  assumes rel: "ledger_rel cr chain l" and i: "i \<notin> block_ID cr ` set chain" "t \<noteq> MAIN" "0 \<le> t" "t \<le> UNKNOWN"
    and s: "SetBranchType i t l = (r, l')"
  shows "ledger_rel cr chain l'" "l_prune l' = l_prune l"
proof -
  obtain r' db where w: "db_Write [Put (computeBranchTypeKey i) [word_of_int t]] (l_db l) = (r', db)"
    and l': "l' = l\<lparr>l_db := db\<rparr>" using s by (auto simp: SetBranchType_def split: prod.splits)
  show "l_prune l' = l_prune l" by (simp add: l')
  show "ledger_rel cr chain l'"
  proof (cases r')
    case (Inl e)
    with w have "db = l_db l" using db_Write_Inl by auto
    with rel show ?thesis by (simp add: l')
  next
    case (Inr u)
    with w have at: "db_at db k = (if k = computeBranchTypeKey i then Some [word_of_int t] else db_at (l_db l) k)" for k
      using db_Write_Inr(1) [of _ "l_db l" u db k] by auto
    have ok: "db_ok (l_db l) \<Longrightarrow> db_ok db" using w Inr db_Write_Inr(2) by blast
    have "t = 1 \<or> t = 2 \<or> t = 3" using i(2-4) by simp arith
    then have t: "(word_of_int t :: byte) \<noteq> 0" by auto
    have bt: "computeBranchTypeKey i = 66 # id_bytes i" by (simp add: computeBranchTypeKey_def)
    have "107 # k \<noteq> computeBranchTypeKey i" for k by (simp add: bt)
    with rel ok i(1) t show ?thesis
      by (auto simp: l' ledger_rel_def tip_rel_def height_rel_def bal_rel_def tx_rel_def pk_rel_def branch_rel_def at)
  qed
qed

lemma reach_inv: "reach cr prune chain l \<Longrightarrow> chain_valid cr prune chain \<and> ledger_rel cr chain l \<and> l_prune l = prune"
proof (induction rule: reach.induct)
  case (init l)
  then show ?case by (simp add: ledger_rel_init)
next
  case (connect chain l bs b r l')
  then show ?case
    using connect_failure [of cr bs _ b l] connect_refines [of cr l chain bs b _ l']
    by (cases r) auto
next
  case (disconnect chain b l bs r l')
  then show ?case
    using disconnect_failure [of cr bs _ b l] disconnect_refines [of cr l chain b bs _ l']
      chain_valid_butlast [of cr prune chain b]
    by (cases r) auto
next
  case (side chain l i t r l')
  then show ?case using ledger_rel_side [of cr chain l i t r l'] by auto
next
  case (faults chain l l')
  then show ?case using ledger_rel_entries by auto
qed

section \<open>A two-block chain\<close>

definition sample_coinbase :: "int \<Rightarrow> transaction" where
  "sample_coinbase m = sample_tx\<lparr>tx_Amount := 5000000000, tx_Nonce := m\<rparr>"

definition sample_block :: "block_id \<Rightarrow> int \<Rightarrow> int \<Rightarrow> block" where
  "sample_block prev h m = \<lparr>Header = \<lparr>Previous = prev, HashListRoot = 0, bh_Time = 0, Target = 1, ChainWork = 1,
     bh_Nonce = m, Height = h, TransactionCount = 1\<rparr>, Transactions = [sample_coinbase m]\<rparr>"

definition sample_genesis :: block where
  "sample_genesis = sample_block 0 0 1"

definition sample_second :: block where
  "sample_second = sample_block (block_ID sample_crypto sample_genesis) 1 10"

definition sample_ledger :: ledger where
  "sample_ledger = \<lparr>l_db = \<lparr>entries = [], readFault = \<lambda>_. False, writeFault = False, iterFault = False\<rparr>, l_prune = True\<rparr>"

definition sample_store :: block_store where
  "sample_store = \<lparr>bs_readOnly = False,
     bs_blocks = map_of [(block_ID sample_crypto sample_genesis, sample_genesis),
       (block_ID sample_crypto sample_second, sample_second)],
     bs_headers = Map.empty, bs_readFault = \<lambda>_. False, bs_writeBlockFault = False, bs_writeHeaderFault = False\<rparr>"

lemma itoa_small: "itoa 0 = [48]" "itoa 1 = [49]" "itoa 10 = [49, 48]"
  by (simp_all add: itoa_def digits.simps [of 0] digits.simps [of "Suc 0"] digits.simps [of 10])

lemma sample_ids:
  "tx_ID sample_crypto (sample_coinbase 1) \<noteq> tx_ID sample_crypto (sample_coinbase 10)"
  "block_ID sample_crypto sample_genesis \<noteq> block_ID sample_crypto sample_second"
  by (simp_all add: tx_ID_def sample_crypto_def sample_coinbase_def tx_json_def json_opt_def json_key_def str_def itoa_small
      block_ID_def header_ID_def header_json_def sample_genesis_def sample_second_def sample_block_def)

lemma sample_block_ok:
  "block_ok sample_crypto 0 sample_genesis" "block_ok sample_crypto 1 sample_second"
proof -
  have "BlockCreationReward 0 = 5000000000" "BlockCreationReward 1 = 5000000000"
    using reward_nat [of 0] reward_nat [of 1] by simp_all
  then show "block_ok sample_crypto 0 sample_genesis" "block_ok sample_crypto 1 sample_second"
    by (simp_all add: block_ok_def block_shape_def sample_genesis_def sample_second_def sample_block_def coinbaseOf_def
        sample_coinbase_def sample_tx_def IsCoinbase_def tx_ok_def i64_small)
qed

lemma sample_stored: "stored sample_crypto sample_store [sample_genesis, sample_second]"
  using sample_ids(2) by (simp add: stored_def sample_store_def)

lemma sample_no_faults: "no_faults sample_store l \<longleftrightarrow> (\<forall>k. \<not> readFault (l_db l) k) \<and> \<not> writeFault (l_db l)"
  by (simp add: no_faults_def sample_store_def)

lemma sample_chain:
  obtains l1 l2 where
    "ConnectBlock sample_crypto sample_store (block_ID sample_crypto sample_genesis) sample_genesis sample_ledger
       = (Inr (map (tx_ID sample_crypto) (Transactions sample_genesis)), l1)"
    "ConnectBlock sample_crypto sample_store (block_ID sample_crypto sample_second) sample_second l1
       = (Inr (map (tx_ID sample_crypto) (Transactions sample_second)), l2)"
    "reach sample_crypto True [sample_genesis] l1" "no_faults sample_store l1" "no_faults sample_store l2"
    "reach sample_crypto True [sample_genesis, sample_second] l2"
proof -
  have nf0: "no_faults sample_store sample_ledger" by (simp add: sample_no_faults sample_ledger_def)
  have r0: "reach sample_crypto True [] sample_ledger"
    by (rule reach.init) (simp_all add: sample_ledger_def)
  note i0 = reach_inv [OF r0]
  have st0: "stored sample_crypto sample_store []" by (simp add: stored_def)
  have st1: "stored sample_crypto sample_store [sample_genesis]" using sample_stored by (simp add: stored_def)
  have z: "money_table (\<lambda>_. 0)" by (simp add: money_table_def)
  have aff0: "affordable [] sample_genesis"
    by (simp add: affordable_def maturesAt_def sample_genesis_def sample_block_def sample_coinbase_def sample_tx_def
        IsCoinbase_def chainBal_def chainEffects_def z)
  obtain l1 where l1: "ConnectBlock sample_crypto sample_store (block_ID sample_crypto sample_genesis) sample_genesis sample_ledger
       = (Inr (map (tx_ID sample_crypto) (Transactions sample_genesis)), l1)"
    using connect_succeeds [of sample_crypto sample_ledger "[]" sample_store sample_genesis] i0 st0
      sample_block_ok(1) nf0 aff0 by (auto simp: fresh_ids_def window_def)
  have r1: "reach sample_crypto True [sample_genesis] l1"
    using reach.connect [OF r0 st0 _ l1] sample_block_ok(1) by simp
  note i1 = reach_inv [OF r1]
  have sf: "same_faults (l_db sample_ledger) (l_db l1)"
    using connect_refines(4) [of sample_crypto sample_ledger "[]" sample_store sample_genesis _ l1] i0 st0
      sample_block_ok(1) l1 by auto
  with nf0 have nf1: "no_faults sample_store l1" by (simp add: sample_no_faults same_faults_def)
  have c: "maturesAt [sample_genesis] (Suc 0) = None" by (simp add: maturesAt_def)
  have b1: "chainBal [sample_genesis] = (\<lambda>_. 0)"
    using chainBal_snoc [of "[]" sample_genesis]
    by (simp add: maturesAt_def sample_genesis_def sample_block_def sample_coinbase_def sample_tx_def IsCoinbase_def
        chainBal_def chainEffects_def)
  have aff1: "affordable [sample_genesis] sample_second"
    by (simp add: affordable_def c b1 z sample_second_def sample_block_def sample_coinbase_def sample_tx_def IsCoinbase_def)
  have "fresh_ids sample_crypto True [sample_genesis] sample_second"
    using sample_ids(1)
    by (auto simp: fresh_ids_def window_def txIDs_def sample_genesis_def sample_second_def sample_block_def)
  then obtain l2 where l2: "ConnectBlock sample_crypto sample_store (block_ID sample_crypto sample_second) sample_second l1
       = (Inr (map (tx_ID sample_crypto) (Transactions sample_second)), l2)"
    using connect_succeeds [of sample_crypto l1 "[sample_genesis]" sample_store sample_second] i1 st1
      sample_block_ok(2) nf1 aff1 by (auto simp: sample_second_def sample_block_def)
  have r2: "reach sample_crypto True [sample_genesis, sample_second] l2"
    using reach.connect [OF r1 st1 _ l2] sample_block_ok(2) by simp
  have "same_faults (l_db l1) (l_db l2)"
    using connect_refines(4) [of sample_crypto l1 "[sample_genesis]" sample_store sample_second _ l2] i1 st1
      sample_block_ok(2) l2 by auto
  with nf1 have nf2: "no_faults sample_store l2" by (simp add: sample_no_faults same_faults_def)
  from that [OF l1 l2 r1 nf1 nf2 r2] show ?thesis .
qed

section \<open>Properties\<close>

lemma reach_rels:
  assumes "reach cr prune chain l"
  shows "chain_valid cr prune chain" "l_prune l = prune" "tip_rel cr chain l" "height_rel cr chain l"
    "bal_rel chain l" "tx_rel cr chain l" "pk_rel chain l" "branch_rel cr chain l"
    "int (length chain) \<le> MAX_NUMBER + 1"
proof -
  show v: "chain_valid cr prune chain" and "l_prune l = prune" "tip_rel cr chain l" "height_rel cr chain l"
    "bal_rel chain l" "tx_rel cr chain l" "pk_rel chain l" "branch_rel cr chain l"
    using reach_inv [OF assms] by (auto simp: ledger_rel_def)
  show "int (length chain) \<le> MAX_NUMBER + 1"
    using chain_height_bound [OF v, of "length chain - 1"] by (cases chain) auto
qed

text \<open>
  C12 (invariant). In every reachable state of the ledger, whatever sequence of connects, disconnects
  and storage failures led to it, money is conserved: the recorded balances and the coinbases of the
  last hundred blocks add up to exactly the block rewards issued so far, which is at most
  \<^verbatim>\<open>MAX_MONEY\<close>, and every balance that can be read lies between zero and that total.
\<close>

theorem money_conserved:
  assumes "reach cr prune chain l"
  shows "total (bal l) + immature chain = (\<Sum>h<length chain. BlockCreationReward (int h))
    \<and> total (bal l) + immature chain \<le> MAX_MONEY
    \<and> (\<forall>pk v. GetPublicKeyBalance l pk = Inr v \<longrightarrow> 0 \<le> v \<and> v \<le> total (bal l))"
proof -
  note v = reach_rels(1) [OF assms]
  note b = bal_rel_eq(1) [OF v reach_rels(5) [OF assms]]
  have s: "total (bal l) + immature chain = minedBy (length chain)"
    using chain_supply [OF v] unfolding b .
  moreover have "0 \<le> v \<and> v \<le> total (bal l)" if "GetPublicKeyBalance l pk = Inr v" for pk v
    using that chain_table(2) [OF v] le_total [OF chain_table(1,2) [OF v]]
    by (auto simp: GetPublicKeyBalance_eq b split: if_splits)
  ultimately show ?thesis
    using minedBy_le [of "length chain"] by (simp add: minedBy_def)
qed

theorem money_conserved_witness:
  "\<exists>l. reach sample_crypto True [sample_genesis, sample_second] l
    \<and> total (bal l) + immature [sample_genesis, sample_second] = 10000000000"
proof -
  obtain l where l: "reach sample_crypto True [sample_genesis, sample_second] l" by (rule sample_chain)
  from money_conserved [OF l] reward_nat [of 0] reward_nat [of 1] l show ?thesis
    by (auto simp: lessThan_nat_numeral)
qed

lemma branch_answer:
  assumes "branch_rel cr chain l" "GetBranchType l j = Inr t"
  shows "t = MAIN \<longleftrightarrow> j \<in> block_ID cr ` set chain"
proof -
  have d: "\<And>v. db_at (l_db l) (computeBranchTypeKey j) = Some v \<Longrightarrow> length v = 1"
    and m: "db_at (l_db l) (computeBranchTypeKey j) = Some [0] \<longleftrightarrow> j \<in> block_ID cr ` set chain"
    using assms(1) by (auto simp: branch_rel_def)
  show ?thesis
  proof (cases "db_at (l_db l) (computeBranchTypeKey j)")
    case None
    with m assms(2) show ?thesis by (auto simp: GetBranchType_def result_simps db_Get_Inr)
  next
    case (Some w)
    with d obtain a where w: "w = [a]" by (auto simp: length_Suc_conv)
    with Some assms(2) have "t = uint a" by (auto simp: GetBranchType_def result_simps db_Get_Inr)
    then show ?thesis using m Some w by (auto simp: uint_0_iff)
  qed
qed

lemma tx_index_answer:
  assumes v: "chain_valid cr prune chain" and lp: "l_prune l = prune" and h: "height_rel cr chain l"
    and tx: "tx_rel cr chain l" and n: "int (length chain) \<le> MAX_NUMBER + 1"
    and g: "window prune (length chain) g" "x < length (Transactions (chain ! g))"
    and r: "GetTransactionIndex l (tx_ID cr (Transactions (chain ! g) ! x)) = Inr res"
  shows "res = (Some (block_ID cr (chain ! g)), int x)"
proof -
  have gl: "g < length chain" using g(1) by (simp add: window_def)
  have "int (length (Transactions (chain ! g))) \<le> MAX_TRANSACTIONS_PER_BLOCK"
    using chain_valid_block(1) [OF v gl] by (simp add: block_shape_def)
  with g(2) have x: "int32 (int x)" by (simp add: int32_def)
  have g64: "int64 (int g)" using n gl by (simp add: int64_def)
  have "db_at (l_db l) (computeTransactionIndexKey (tx_ID cr (Transactions (chain ! g) ! x)))
      = Some (encodeTransactionIndex (int g) (int x))"
    using tx_rel_val [OF tx] g lp by simp
  with r obtain i where "GetBlockIDForHeight l (int g) = Inr i" "res = (i, int x)"
    by (auto simp: GetTransactionIndex_def result_simps db_Get_Inr decode_tx_index [OF g64 x])
  with height_rel_at [OF h gl n] show ?thesis by (simp add: GetBlockIDForHeight_Inr)
qed

text \<open>
  C14 (refinement). What the ledger answers is what its chain says: the tip, the block at a height,
  the balance of a key, membership in the main branch, and the position of a transaction whose index
  has not been pruned, for every answer that is not an error.
\<close>

theorem ledger_answers:
  assumes "reach cr prune chain l"
  shows "(\<forall>tip. GetChainTip l = Inr tip \<longrightarrow>
      tip = (if chain = [] then None else Some (block_ID cr (last chain), int (length chain) - 1)))
    \<and> (\<forall>h i. GetBlockIDForHeight l h = Inr i \<and> int64 h \<longrightarrow>
      i = (if 0 \<le> h \<and> h < int (length chain) then Some (block_ID cr (chain ! nat h)) else None))
    \<and> (\<forall>pk v. GetPublicKeyBalance l pk = Inr v \<longrightarrow> v = chainBal chain pk)
    \<and> (\<forall>j t. GetBranchType l j = Inr t \<longrightarrow> (t = MAIN \<longleftrightarrow> j \<in> block_ID cr ` set chain))
    \<and> (\<forall>g x res. window prune (length chain) g \<and> x < length (Transactions (chain ! g))
        \<and> GetTransactionIndex l (tx_ID cr (Transactions (chain ! g) ! x)) = Inr res \<longrightarrow>
      res = (Some (block_ID cr (chain ! g)), int x))"
proof -
  note R = reach_rels [OF assms]
  have n64: "int64 (int (length chain) - 1)" using R(9) by (simp add: int64_def)
  have "tip = (if chain = [] then None else Some (block_ID cr (last chain), int (length chain) - 1))"
    if "GetChainTip l = Inr tip" for tip
    using that GetChainTip_eq [OF GetChainTip_read [OF that]] R(3) n64
    by (cases "chain = []") (auto simp: tip_rel_def)
  moreover have "i = (if 0 \<le> h \<and> h < int (length chain) then Some (block_ID cr (chain ! nat h)) else None)"
    if "GetBlockIDForHeight l h = Inr i \<and> int64 h" for h i
    using that R(4) by (simp add: GetBlockIDForHeight_Inr height_rel_def)
  moreover have "v = chainBal chain pk" if "GetPublicKeyBalance l pk = Inr v" for pk v
    using that by (auto simp: GetPublicKeyBalance_eq bal_rel_eq(1) [OF R(1,5)] split: if_splits)
  ultimately show ?thesis
    using branch_answer [OF R(8)] tx_index_answer [OF R(1,2,4,6,9)] by blast
qed

theorem ledger_answers_witness:
  "\<exists>l. GetChainTip l = Inr (Some (block_ID sample_crypto sample_second, 1))
    \<and> reach sample_crypto True [sample_genesis, sample_second] l"
proof -
  obtain l where nf: "no_faults sample_store l" and l: "reach sample_crypto True [sample_genesis, sample_second] l"
    by (rule sample_chain)
  have "\<not> readFault (l_db l) computeChainTipKey" using nf by (simp add: no_faults_def)
  then obtain tip where t: "GetChainTip l = Inr tip"
    using GetChainTip_eq(2) reach_rels(3) [OF l] by (auto simp: tip_rel_def int64_def)
  with ledger_answers [OF l] l show ?thesis by auto
qed

lemma chain_valid_conditions:
  assumes v: "chain_valid cr prune (chain @ [b])"
  shows "(chain \<noteq> [] \<longrightarrow> Previous (Header b) = block_ID cr (last chain)) \<and> fresh_ids cr prune chain b
    \<and> affordable chain b"
proof -
  have "Previous (Header b) = block_ID cr (last chain)" if "chain \<noteq> []"
    using chain_valid_prev [OF v, of "length chain"] that by (simp add: nth_append last_conv_nth)
  moreover have "txIDs cr (chain ! h) \<inter> txIDs cr b = {}" if "window prune (length chain) h" for h
    using chain_valid_disjoint [OF v, of h "length chain"] that by (auto simp: window_def nth_append)
  moreover have "affordable chain b"
    using v by (simp add: affordable_def chain_valid_def chainEffects_snoc money_run_append chainBal_def)
  ultimately show ?thesis by (simp add: fresh_ids_def)
qed

lemma connect_conditions:
  assumes r: "reach cr prune chain l" and st: "stored cr bs chain" and ok: "block_ok cr (length chain) b"
    and con: "ConnectBlock cr bs (block_ID cr b) b l = (Inr ids, l')"
  shows "chain_valid cr prune (chain @ [b])"
proof -
  have inv: "chain_valid cr (l_prune l) chain" "ledger_rel cr chain l" "l_prune l = prune"
    using reach_inv [OF r] by auto
  show ?thesis by (rule connect_refines(1) [OF inv(1,2) st ok con, unfolded inv(3)])
qed

text \<open>
  C18 (functional). Without storage faults, a block that has passed the processor's checks for the
  next height connects if and only if it extends the tip, none of its transactions is already
  indexed, and every balance stays within bounds while its transactions are applied one after the
  other; then the ledger represents the chain with the block appended. Otherwise an error is
  returned and the ledger is unchanged.
\<close>

theorem connect_iff:
  assumes "reach cr prune chain l" "stored cr bs chain" "block_ok cr (length chain) b" "no_faults bs l"
  shows "if (chain \<noteq> [] \<longrightarrow> Previous (Header b) = block_ID cr (last chain)) \<and> fresh_ids cr prune chain b
      \<and> affordable chain b
    then \<exists>l'. ConnectBlock cr bs (block_ID cr b) b l = (Inr (map (tx_ID cr) (Transactions b)), l')
      \<and> reach cr prune (chain @ [b]) l'
    else \<exists>e. ConnectBlock cr bs (block_ID cr b) b l = (Inl e, l)"
proof (cases "(chain \<noteq> [] \<longrightarrow> Previous (Header b) = block_ID cr (last chain)) \<and> fresh_ids cr prune chain b
      \<and> affordable chain b")
  case True
  have inv: "chain_valid cr (l_prune l) chain" "ledger_rel cr chain l" "l_prune l = prune"
    using reach_inv [OF assms(1)] by auto
  obtain l' where l': "ConnectBlock cr bs (block_ID cr b) b l = (Inr (map (tx_ID cr) (Transactions b)), l')"
    using connect_succeeds [OF inv(1,2) assms(2-4)] True inv(3) by blast
  with reach.connect [OF assms(1-3) l'] True show ?thesis by simp
next
  case False
  obtain r l' where c: "ConnectBlock cr bs (block_ID cr b) b l = (r, l')" by force
  with False chain_valid_conditions [OF connect_conditions [OF assms(1-3)]] obtain e where "r = Inl e" by (cases r) auto
  with c connect_failure show ?thesis unfolding if_not_P [OF False] by blast
qed

theorem connect_iff_witness:
  "\<exists>l l' e. let b = sample_block (block_ID sample_crypto sample_second) 1 10 in
    ConnectBlock sample_crypto sample_store (block_ID sample_crypto sample_second) sample_second l
      = (Inr (map (tx_ID sample_crypto) (Transactions sample_second)), l')
    \<and> ConnectBlock sample_crypto sample_store (block_ID sample_crypto b) b l = (Inl e, l)"
proof -
  obtain l l2 where c: "ConnectBlock sample_crypto sample_store (block_ID sample_crypto sample_second) sample_second l
      = (Inr (map (tx_ID sample_crypto) (Transactions sample_second)), l2)"
    and r: "reach sample_crypto True [sample_genesis] l" and nf: "no_faults sample_store l"
    by (rule sample_chain)
  let ?b = "sample_block (block_ID sample_crypto sample_second) 1 10"
  have st: "stored sample_crypto sample_store [sample_genesis]" using sample_stored by (simp add: stored_def)
  have ok: "block_ok sample_crypto (length [sample_genesis]) ?b"
    using sample_block_ok(2) by (simp add: block_ok_def block_shape_def sample_second_def sample_block_def coinbaseOf_def)
  have "Previous (Header ?b) \<noteq> block_ID sample_crypto (last [sample_genesis])"
    using sample_ids(2) by (simp add: sample_block_def)
  with connect_iff [OF r st ok nf] c show ?thesis by (auto simp: Let_def)
qed





text \<open>
  No transaction is recorded twice: a block containing a transaction whose index is
  still in the ledger is refused and the ledger stays as it was, with or without storage faults.
\<close>

theorem duplicate_refused:
  assumes "reach cr prune chain l" "window prune (length chain) h" "t \<in> txIDs cr (chain ! h)" "t \<in> txIDs cr b"
  shows "\<exists>e. ConnectBlock cr bs i b l = (Inl e, l)"
proof (cases "fst (ConnectBlock cr bs i b l)")
  case (Inl e)
  then show ?thesis using connect_failure [of cr bs i b l e "snd (ConnectBlock cr bs i b l)"] by (metis prod.collapse)
next
  case (Inr ids)
  then have c: "ConnectBlock cr bs i b l = (Inr ids, snd (ConnectBlock cr bs i b l))" by (metis prod.collapse)
  have "db_at (l_db l) (computeTransactionIndexKey t) \<noteq> None"
    using tx_rel_window [OF reach_rels(6) [OF assms(1)]] assms(2,3) reach_rels(2) [OF assms(1)] by simp
  moreover from c have "\<forall>tx \<in> set (Transactions b). db_at (l_db l) (computeTransactionIndexKey (tx_ID cr tx)) = None"
    by (rule ConnectBlock_Inr)
  ultimately show ?thesis using assms(4) by (auto simp: txIDs_def)
qed

theorem duplicate_refused_witness:
  "\<exists>l e. ConnectBlock sample_crypto sample_store 7 (sample_block 7 1 1) l = (Inl e, l)"
proof -
  obtain l where r: "reach sample_crypto True [sample_genesis] l" by (rule sample_chain)
  have "window True (length [sample_genesis]) 0" by (simp add: window_def)
  moreover have "tx_ID sample_crypto (sample_coinbase 1) \<in> txIDs sample_crypto ([sample_genesis] ! 0)"
    "tx_ID sample_crypto (sample_coinbase 1) \<in> txIDs sample_crypto (sample_block 7 1 1)"
    by (simp_all add: txIDs_def sample_genesis_def sample_block_def)
  ultimately show ?thesis using duplicate_refused [OF r] by blast
qed

end
