(* ===== verification/Targets.thy ===== *)
theory Targets
  imports Ledger_Props "HOL-Library.Multiset"
begin

text \<open>
  The proof-of-work target and the median timestamp of \<^verbatim>\<open>src/processor.go\<close>: \<^verbatim>\<open>computeTarget\<close> with Bitcoin's
  retargeting below height 28861 and Bitcoin Cash's moving average from there on, and
  \<^verbatim>\<open>computeMedianTimestamp\<close>. Headers come from the block storage; a header that is not there is nil, and
  reading a field of it is a panic. Big integers are \<open>int\<close>.
\<close>

abbreviation nilDereference :: error where
  "nilDereference \<equiv> Panic ''invalid memory address or nil pointer dereference''"

text \<open>\<^verbatim>\<open>big.Int.Div\<close> is Euclidean division.\<close>

definition bigDiv :: "int \<Rightarrow> int \<Rightarrow> int result" where
  "bigDiv x y = (if y = 0 then Inl (Panic ''division by zero'')
     else if y > 0 then Inr (x div y) else Inr (- (x div (- y))))"

definition getHeader :: "block_store \<Rightarrow> block_id \<Rightarrow> block_header option result" where
  "getHeader bs i = bindE (bs_GetBlockHeader bs i) (\<lambda>h. Inr (map_option fst h))"

primrec walkBack :: "nat \<Rightarrow> block_store \<Rightarrow> block_header option \<Rightarrow> block_header option result" where
  "walkBack 0 bs firstHeader = Inr firstHeader"
| "walkBack (Suc n) bs firstHeader =
     (case firstHeader of None \<Rightarrow> Inl nilDereference
      | Some h \<Rightarrow> bindE (getHeader bs (Previous h)) (walkBack n bs))"

definition clampTarget :: "int \<Rightarrow> block_id result" where
  "clampTarget newTargetInt =
     (case hex_decode INITIAL_TARGET of None \<Rightarrow> Inl (Err ''encoding/hex'')
      | Some initialTargetBytes \<Rightarrow>
          let maxTargetInt = be_val initialTargetBytes
          in if newTargetInt > maxTargetInt then SetBigInt maxTargetInt else SetBigInt newTargetInt)"

definition computeTargetBitcoin :: "block_header \<Rightarrow> block_store \<Rightarrow> block_id result" where
  "computeTargetBitcoin prevHeader bs =
     (if i64 (Height prevHeader + 1) smod RETARGET_INTERVAL \<noteq> 0 then Inr (Target prevHeader)
      else let blocksToGoBack = (if i64 (Height prevHeader + 1) \<noteq> RETARGET_INTERVAL then RETARGET_INTERVAL
                                 else RETARGET_INTERVAL - 1)
           in bindE (walkBack (nat blocksToGoBack) bs (Some prevHeader)) (\<lambda>firstHeader.
                case firstHeader of None \<Rightarrow> Inl nilDereference
                | Some firstHeader \<Rightarrow>
                    let actualTimespan = i64 (bh_Time prevHeader - bh_Time firstHeader);
                        minTimespan = RETARGET_TIME div 4;
                        maxTimespan = RETARGET_TIME * 4;
                        actualTimespan = (if actualTimespan < minTimespan then minTimespan else actualTimespan);
                        actualTimespan = (if actualTimespan > maxTimespan then maxTimespan else actualTimespan)
                    in bindE (bigDiv (GetBigInt (Target prevHeader) * actualTimespan) RETARGET_TIME) clampTarget))"

definition computeTargetBitcoinCash :: "block_header \<Rightarrow> block_store \<Rightarrow> ledger \<Rightarrow> block_id result" where
  "computeTargetBitcoinCash prevHeader bs l =
     bindE (GetBlockIDForHeight l (i64 (Height prevHeader - RETARGET_SMA_WINDOW))) (\<lambda>firstID.
       case firstID of None \<Rightarrow> Inl nilDereference
       | Some firstID \<Rightarrow>
           bindE (getHeader bs firstID) (\<lambda>firstHeader.
             case firstHeader of None \<Rightarrow> Inl nilDereference
             | Some firstHeader \<Rightarrow>
                 let workInt = (GetBigInt (ChainWork prevHeader) - GetBigInt (ChainWork firstHeader)) * TARGET_SPACING;
                     actualTimespan = i64 (bh_Time prevHeader - bh_Time firstHeader);
                     actualTimespan =
                       (if actualTimespan > 2 * RETARGET_SMA_WINDOW * TARGET_SPACING
                        then 2 * RETARGET_SMA_WINDOW * TARGET_SPACING
                        else if actualTimespan < (RETARGET_SMA_WINDOW div 2) * TARGET_SPACING
                        then (RETARGET_SMA_WINDOW div 2) * TARGET_SPACING
                        else actualTimespan)
                 in bindE (bigDiv workInt actualTimespan) (\<lambda>workInt.
                      bindE (bigDiv (2 ^ 256) workInt) (\<lambda>newTargetInt. clampTarget (newTargetInt - 1)))))"

definition computeTarget :: "block_header \<Rightarrow> block_store \<Rightarrow> ledger \<Rightarrow> block_id result" where
  "computeTarget prevHeader bs l =
     (if Height prevHeader \<ge> BITCOIN_CASH_RETARGET_ALGORITHM_HEIGHT
      then computeTargetBitcoinCash prevHeader bs l
      else computeTargetBitcoin prevHeader bs)"

primrec collectTimestamps :: "nat \<Rightarrow> block_store \<Rightarrow> block_header \<Rightarrow> int list \<Rightarrow> int list result" where
  "collectTimestamps 0 bs prevHeader timestamps = Inr timestamps"
| "collectTimestamps (Suc n) bs prevHeader timestamps =
     bindE (getHeader bs (Previous prevHeader)) (\<lambda>h.
       case h of None \<Rightarrow> Inr (timestamps @ [bh_Time prevHeader])
       | Some h \<Rightarrow> collectTimestamps n bs h (timestamps @ [bh_Time prevHeader]))"

definition computeMedianTimestamp :: "block_header \<Rightarrow> block_store \<Rightarrow> int result" where
  "computeMedianTimestamp prevHeader bs =
     bindE (collectTimestamps NUM_BLOCKS_FOR_MEDIAN_TMESTAMP bs prevHeader []) (\<lambda>timestamps.
       Inr (sort timestamps ! (length timestamps div 2)))"

section \<open>Targets\<close>

lemma clampTarget_eq: "clampTarget x = SetBigInt (if x > max_target then max_target else x)"
  unfolding clampTarget_def INITIAL_TARGET_decode option.case Let_def INITIAL_TARGET_val by (rule if_distrib [symmetric])

lemma clampTarget_ok:
  assumes "0 \<le> x"
  shows "\<exists>t. clampTarget x = Inr t \<and> GetBigInt t = min x max_target"
proof -
  have m: "0 \<le> max_target" "max_target < 2 ^ 256" by (simp_all add: max_target_def)
  have d: "clampTarget x = SetBigInt (min x max_target)" by (simp add: clampTarget_eq min_def)
  have "0 \<le> min x max_target" "min x max_target < 2 ^ 256" using assms m by (simp_all add: min_def)
  from SetBigInt_ok [OF this] show ?thesis unfolding d .
qed

lemma getHeader_Inr: "getHeader bs i = Inr h \<longleftrightarrow> \<not> bs_readFault bs i \<and> h = map_option fst (bs_headers bs i)"
  by (auto simp: getHeader_def bs_GetBlockHeader_def)

text \<open>Walking back along stored headers, as a relation.\<close>

inductive ancestor :: "block_store \<Rightarrow> nat \<Rightarrow> block_header \<Rightarrow> block_header \<Rightarrow> bool" for bs where
  self: "ancestor bs 0 h h"
| up: "bs_headers bs (Previous h) = Some (g, w) \<Longrightarrow> ancestor bs n g a \<Longrightarrow> ancestor bs (Suc n) h a"

lemma walkBack_ancestor:
  assumes "\<And>i. \<not> bs_readFault bs i"
  shows "ancestor bs n h a \<Longrightarrow> walkBack n bs (Some h) = Inr (Some a)"
proof (induction rule: ancestor.induct)
  case (up h g w n a)
  have "getHeader bs (Previous h) = Inr (Some g)" using assms up.hyps(1) by (simp add: getHeader_Inr)
  with up.IH show ?case by simp
qed simp

definition clampSpan :: "int \<Rightarrow> int \<Rightarrow> int \<Rightarrow> int" where
  "clampSpan lo hi t = max lo (min hi t)"

lemma computeTargetBitcoin_eq:
  assumes nf: "\<And>i. \<not> bs_readFault bs i" and h: "0 \<le> Height p" "Height p < MAX_NUMBER"
    and m: "(Height p + 1) mod 2016 = 0"
    and a: "ancestor bs (if Height p + 1 = 2016 then 2015 else 2016) p f"
  shows "\<exists>t. computeTargetBitcoin p bs = Inr t
    \<and> GetBigInt t = min (GetBigInt (Target p) * clampSpan 302400 4838400 (i64 (bh_Time p - bh_Time f)) div 1209600) max_target"
proof -
  have w: "i64 (Height p + 1) = Height p + 1" using h by (intro i64_small) auto
  have wb: "walkBack (nat (if Height p + 1 \<noteq> RETARGET_INTERVAL then RETARGET_INTERVAL
      else RETARGET_INTERVAL - 1)) bs (Some p) = Inr (Some f)"
    using walkBack_ancestor [OF nf a] by (cases "Height p + 1 = 2016") simp_all
  let ?s = "clampSpan 302400 4838400 (i64 (bh_Time p - bh_Time f))"
  have sp: "(if (if x < RETARGET_TIME div 4 then RETARGET_TIME div 4 else x) > RETARGET_TIME * 4 then RETARGET_TIME * 4
      else if x < RETARGET_TIME div 4 then RETARGET_TIME div 4 else x) = clampSpan 302400 4838400 x" for x :: int
    by (simp add: clampSpan_def max_def min_def)
  have z: "\<not> (Height p + 1) smod RETARGET_INTERVAL \<noteq> 0" using m h(1) by simp
  have "computeTargetBitcoin p bs = bindE (bigDiv (GetBigInt (Target p) * ?s) 1209600) clampTarget"
    unfolding computeTargetBitcoin_def Let_def w if_not_P [OF z] wb bindE_simps option.case sp
    by simp
  also have "\<dots> = clampTarget (GetBigInt (Target p) * ?s div 1209600)" by (simp add: bigDiv_def)
  finally have "computeTargetBitcoin p bs = clampTarget (GetBigInt (Target p) * ?s div 1209600)" .
  moreover have "0 \<le> GetBigInt (Target p) * ?s div 1209600"
    using GetBigInt_bounds(1) [of "Target p"] by (simp add: pos_imp_zdiv_nonneg_iff clampSpan_def)
  ultimately show ?thesis using clampTarget_ok by simp
qed

lemma computeTargetBitcoinCash_eq:
  assumes "GetBlockIDForHeight l (i64 (Height p - 144)) = Inr (Some i)" "getHeader bs i = Inr (Some f)"
    and s: "s = clampSpan 43200 172800 (i64 (bh_Time p - bh_Time f))"
    and w: "w = (GetBigInt (ChainWork p) - GetBigInt (ChainWork f)) * 600 div s" "0 < w" "w \<le> 2 ^ 256"
  shows "\<exists>t. computeTargetBitcoinCash p bs l = Inr t \<and> GetBigInt t = min (2 ^ 256 div w - 1) max_target"
proof -
  have s0: "0 < s" by (simp add: s clampSpan_def)
  have "computeTargetBitcoinCash p bs l = bindE (bigDiv ((GetBigInt (ChainWork p) - GetBigInt (ChainWork f)) * 600) s)
     (\<lambda>w. bindE (bigDiv (2 ^ 256) w) (\<lambda>n. clampTarget (n - 1)))"
  proof -
    have sp: "(if x > 2 * RETARGET_SMA_WINDOW * TARGET_SPACING then 2 * RETARGET_SMA_WINDOW * TARGET_SPACING
        else if x < RETARGET_SMA_WINDOW div 2 * TARGET_SPACING then RETARGET_SMA_WINDOW div 2 * TARGET_SPACING else x)
      = clampSpan 43200 172800 x" for x :: int
      by (simp add: clampSpan_def max_def min_def)
    have a1: "GetBlockIDForHeight l (i64 (Height p - RETARGET_SMA_WINDOW)) = Inr (Some i)" using assms(1) by simp
    show ?thesis
      unfolding computeTargetBitcoinCash_def a1 assms(2) bindE_simps option.case Let_def sp s by simp
  qed
  also have "\<dots> = clampTarget (2 ^ 256 div w - 1)"
  proof -
    have "bigDiv ((GetBigInt (ChainWork p) - GetBigInt (ChainWork f)) * 600) s = Inr w"
      unfolding bigDiv_def w(1) using s0 by simp
    moreover have "bigDiv (2 ^ 256) w = Inr (2 ^ 256 div w)" unfolding bigDiv_def using w(2) by simp
    ultimately show ?thesis by simp
  qed
  finally have c: "computeTargetBitcoinCash p bs l = clampTarget (2 ^ 256 div w - 1)" .
  have "w div w \<le> 2 ^ 256 div w" using w(2,3) by (intro zdiv_mono1) auto
  then have "0 \<le> 2 ^ 256 div w - 1" using w(2) by simp
  from clampTarget_ok [OF this] show ?thesis unfolding c .
qed

section \<open>The median timestamp\<close>

lemma collectTimestamps_spec:
  assumes "\<And>i. \<not> bs_readFault bs i"
  shows "\<exists>us. collectTimestamps (Suc n) bs h ts = Inr (ts @ us) \<and> us \<noteq> [] \<and> length us \<le> Suc n
    \<and> (\<forall>k < length us. \<exists>a. ancestor bs k h a \<and> us ! k = bh_Time a)
    \<and> (length us < Suc n \<longrightarrow> (\<exists>a. ancestor bs (length us - 1) h a \<and> bs_headers bs (Previous a) = None))"
proof (induction n arbitrary: h ts)
  case 0
  have g: "getHeader bs (Previous h) = Inr (map_option fst (bs_headers bs (Previous h)))"
    using assms by (simp add: getHeader_Inr)
  have "collectTimestamps (Suc 0) bs h ts = Inr (ts @ [bh_Time h])"
    by (simp add: g split: option.splits)
  then show ?case by (intro exI [of _ "[bh_Time h]"]) (auto intro: ancestor.self)
next
  case (Suc n)
  have g: "getHeader bs (Previous h) = Inr (map_option fst (bs_headers bs (Previous h)))"
    using assms by (simp add: getHeader_Inr)
  show ?case
  proof (cases "bs_headers bs (Previous h)")
    case None
    then have "collectTimestamps (Suc (Suc n)) bs h ts = Inr (ts @ [bh_Time h])" by (simp add: g)
    with None show ?thesis by (intro exI [of _ "[bh_Time h]"]) (auto intro: ancestor.self)
  next
    case (Some gw)
    obtain k w where gw: "gw = (k, w)" by fastforce
    have up: "ancestor bs (Suc m) h a" if "ancestor bs m k a" for m a
      using ancestor.up Some gw that by simp
    obtain us where us: "collectTimestamps (Suc n) bs k (ts @ [bh_Time h]) = Inr ((ts @ [bh_Time h]) @ us)" "us \<noteq> []"
      "length us \<le> Suc n" "\<forall>j < length us. \<exists>a. ancestor bs j k a \<and> us ! j = bh_Time a"
      "length us < Suc n \<longrightarrow> (\<exists>a. ancestor bs (length us - 1) k a \<and> bs_headers bs (Previous a) = None)"
      using Suc.IH by blast
    have "collectTimestamps (Suc (Suc n)) bs h ts = collectTimestamps (Suc n) bs k (ts @ [bh_Time h])"
      using Some gw g by (simp del: collectTimestamps.simps(2) add: collectTimestamps.simps(2) [of "Suc n"])
    then have "collectTimestamps (Suc (Suc n)) bs h ts = Inr (ts @ bh_Time h # us)" using us(1) by simp
    moreover have "\<exists>a. ancestor bs j h a \<and> (bh_Time h # us) ! j = bh_Time a" if "j < length (bh_Time h # us)" for j
    proof (cases j)
      case 0
      then show ?thesis by (auto intro: ancestor.self)
    next
      case (Suc m)
      with that us(4) obtain a where "ancestor bs m k a" "us ! m = bh_Time a" by auto
      with up Suc show ?thesis by auto
    qed
    moreover have "\<exists>a. ancestor bs (length us) h a \<and> bs_headers bs (Previous a) = None" if "length us < Suc n"
    proof -
      obtain a where a: "ancestor bs (length us - 1) k a" "bs_headers bs (Previous a) = None" using us(5) \<open>length us < Suc n\<close> by blast
      from up [OF a(1)] us(2) a(2) show ?thesis by auto
    qed
    ultimately show ?thesis using us(3) by (intro exI [of _ "bh_Time h # us"]) auto
  qed
qed

lemma sorted_below: "sorted xs \<Longrightarrow> i < length xs \<Longrightarrow> length (filter (\<lambda>x. x < xs ! i) xs) \<le> i"
  for xs :: "int list"
proof -
  assume s: "sorted xs" and i: "i < length xs"
  have "filter (\<lambda>x. x < xs ! i) (drop i xs) = []"
    using s i by (auto simp: filter_empty_conv in_set_conv_nth not_less sorted_iff_nth_mono)
  then have "filter (\<lambda>x. x < xs ! i) xs = filter (\<lambda>x. x < xs ! i) (take i xs)"
    using filter_append [of "\<lambda>x. x < xs ! i" "take i xs" "drop i xs"] by simp
  then show ?thesis using i by (simp add: order_trans [OF length_filter_le])
qed

lemma sorted_above: "sorted xs \<Longrightarrow> i < length xs \<Longrightarrow> length (filter (\<lambda>x. x > xs ! i) xs) < length xs - i"
  for xs :: "int list"
proof -
  assume s: "sorted xs" and i: "i < length xs"
  have t: "filter (\<lambda>x. x > xs ! i) (take (Suc i) xs) = []"
    using s i by (auto simp: filter_empty_conv in_set_conv_nth not_less sorted_iff_nth_mono)
  have "filter (\<lambda>x. x > xs ! i) xs = filter (\<lambda>x. x > xs ! i) (drop (Suc i) xs)"
    using filter_append [of "\<lambda>x. x > xs ! i" "take (Suc i) xs" "drop (Suc i) xs"] t by simp
  moreover have "length (filter (\<lambda>x. x > xs ! i) (drop (Suc i) xs)) \<le> length xs - Suc i"
    by (rule order_trans [OF length_filter_le]) simp
  ultimately show ?thesis using i by simp
qed

lemma length_filter_sort: "length (filter P (sort xs)) = length (filter P xs)"
  by (metis mset_filter mset_sort size_mset)

section \<open>Properties\<close>

text \<open>
  C31 (functional). \<^verbatim>\<open>computeMedianTimestamp\<close> looks at the header and its nearest ten stored ancestors, fewer only
  where the chain ends, and returns one of their times such that at most half of them are earlier and
  fewer than half are later.
\<close>

theorem median_timestamp:
  assumes nf: "\<And>i. \<not> bs_readFault bs i"
  shows "\<exists>ts m. computeMedianTimestamp p bs = Inr m \<and> ts \<noteq> [] \<and> length ts \<le> 11
    \<and> (\<forall>k < length ts. \<exists>a. ancestor bs k p a \<and> ts ! k = bh_Time a)
    \<and> (length ts < 11 \<longrightarrow> (\<exists>a. ancestor bs (length ts - 1) p a \<and> bs_headers bs (Previous a) = None))
    \<and> m \<in> set ts \<and> 2 * length (filter (\<lambda>t. t < m) ts) \<le> length ts \<and> 2 * length (filter (\<lambda>t. t > m) ts) < length ts"
proof -
  obtain ts where ts: "collectTimestamps 11 bs p [] = Inr ts" "ts \<noteq> []" "length ts \<le> 11"
    "\<forall>k < length ts. \<exists>a. ancestor bs k p a \<and> ts ! k = bh_Time a"
    "length ts < 11 \<longrightarrow> (\<exists>a. ancestor bs (length ts - 1) p a \<and> bs_headers bs (Previous a) = None)"
    using collectTimestamps_spec [OF nf, of 10 p "[]"] by auto
  let ?i = "length ts div 2" and ?s = "sort ts"
  have i: "?i < length ?s" using ts(2) by simp
  have "?s ! ?i \<in> set ts" using nth_mem [OF i] by simp
  moreover have "2 * length (filter (\<lambda>t. t < ?s ! ?i) ts) \<le> length ts"
    using sorted_below [OF sorted_sort i] unfolding length_filter_sort by simp
  moreover have "2 * length (filter (\<lambda>t. t > ?s ! ?i) ts) < length ts"
    using sorted_above [OF sorted_sort i] ts(2) unfolding length_filter_sort by simp
  moreover have "computeMedianTimestamp p bs = Inr (?s ! ?i)" by (simp add: computeMedianTimestamp_def ts(1))
  ultimately show ?thesis using ts(2-5) by blast
qed

text \<open>Two linked headers, the later one of an early date.\<close>

definition sample_header :: "int \<Rightarrow> block_id \<Rightarrow> int \<Rightarrow> int \<Rightarrow> block_header" where
  "sample_header h prev t w = \<lparr>Previous = prev, HashListRoot = 0, bh_Time = t, Target = word_of_int max_target,
     ChainWork = word_of_int w, bh_Nonce = 0, Height = h, TransactionCount = 1\<rparr>"

definition headers_store :: "(block_id \<times> block_header) list \<Rightarrow> block_store" where
  "headers_store hs = \<lparr>bs_readOnly = False, bs_blocks = Map.empty, bs_headers = (\<lambda>i. map_option (\<lambda>h. (h, 0)) (map_of hs i)),
     bs_readFault = \<lambda>_. False, bs_writeBlockFault = False, bs_writeHeaderFault = False\<rparr>"

theorem median_timestamp_witness:
  "\<exists>m. computeMedianTimestamp (sample_header 1 5 3 0) (headers_store [(5, sample_header 0 0 7 0)]) = Inr m \<and> m \<in> {3, 7}"
proof -
  let ?bs = "headers_store [(5, sample_header 0 0 7 0)]" and ?h = "sample_header 1 5 3 0"
  have nf: "\<not> bs_readFault ?bs i" for i by (simp add: headers_store_def)
  obtain ts m where m: "computeMedianTimestamp ?h ?bs = Inr m" "m \<in> set ts"
    "\<forall>k < length ts. \<exists>a. ancestor ?bs k ?h a \<and> ts ! k = bh_Time a"
    using median_timestamp [OF nf, of ?h] by blast
  have a: "a = ?h \<or> a = sample_header 0 0 7 0" if "ancestor ?bs k ?h a" for k a
    using that
  proof (cases rule: ancestor.cases)
    case (up g w n)
    from up(2) have "g = sample_header 0 0 7 0" by (simp add: headers_store_def sample_header_def split: if_splits)
    with up(3) show ?thesis
      by (cases rule: ancestor.cases) (auto simp: headers_store_def sample_header_def)
  qed simp
  from m(2) obtain k where "k < length ts" "ts ! k = m" by (auto simp: in_set_conv_nth)
  with m(3) a have "m = 3 \<or> m = 7" by (fastforce simp: sample_header_def)
  with m(1) show ?thesis by auto
qed

text \<open>
  C29 (bounds). Below height 28861 the target stays the same inside an interval of 2016 blocks; at the end of one
  it is scaled by the time the interval took, by a factor between one quarter and four, and never
  exceeds the initial target.
\<close>

theorem retarget_bitcoin:
  assumes nf: "\<And>i. \<not> bs_readFault bs i" and h: "0 \<le> Height p" "Height p < 28861"
    and t: "GetBigInt (Target p) \<le> max_target"
  shows "((Height p + 1) mod 2016 \<noteq> 0 \<longrightarrow> computeTarget p bs l = Inr (Target p))
    \<and> ((Height p + 1) mod 2016 = 0 \<longrightarrow> ancestor bs (if Height p + 1 = 2016 then 2015 else 2016) p f \<longrightarrow>
       (\<exists>t. computeTarget p bs l = Inr t
         \<and> GetBigInt t = min (GetBigInt (Target p) * clampSpan 302400 4838400 (i64 (bh_Time p - bh_Time f)) div 1209600) max_target
         \<and> GetBigInt (Target p) div 4 \<le> GetBigInt t \<and> GetBigInt t \<le> 4 * GetBigInt (Target p) \<and> GetBigInt t \<le> max_target))"
proof -
  have c: "computeTarget p bs l = computeTargetBitcoin p bs" using h by (simp add: computeTarget_def)
  have w: "i64 (Height p + 1) = Height p + 1" using h by (intro i64_small) auto
  let ?T = "GetBigInt (Target p)" and ?s = "clampSpan 302400 4838400 (i64 (bh_Time p - bh_Time f))"
  have T: "0 \<le> ?T" by (rule GetBigInt_bounds)
  have "?T * 302400 div 1209600 \<le> ?T * ?s div 1209600"
    using T by (intro zdiv_mono1 mult_left_mono) (auto simp: clampSpan_def)
  then have lo: "?T div 4 \<le> ?T * ?s div 1209600" by simp
  have "?T * ?s div 1209600 \<le> ?T * 4838400 div 1209600"
    using T by (intro zdiv_mono1 mult_left_mono) (auto simp: clampSpan_def)
  then have hi: "?T * ?s div 1209600 \<le> 4 * ?T" by simp
  have q: "?T div 4 \<le> max_target" using t T by (intro order_trans [OF _ t]) simp
  show ?thesis
    unfolding c
  proof (intro conjI impI)
    assume "(Height p + 1) mod 2016 \<noteq> 0"
    then have "(Height p + 1) smod RETARGET_INTERVAL \<noteq> 0" using h by simp
    then show "computeTargetBitcoin p bs = Inr (Target p)" unfolding computeTargetBitcoin_def w by (rule if_P)
  next
    assume a: "(Height p + 1) mod 2016 = 0" "ancestor bs (if Height p + 1 = 2016 then 2015 else 2016) p f"
    have "Height p < MAX_NUMBER" using h(2) by simp
    from computeTargetBitcoin_eq [OF nf h(1) this a] obtain u where "computeTargetBitcoin p bs = Inr u"
      "GetBigInt u = min (?T * ?s div 1209600) max_target"
      by (elim exE conjE)
    with lo hi q show "\<exists>t. computeTargetBitcoin p bs = Inr t
         \<and> GetBigInt t = min (?T * ?s div 1209600) max_target
         \<and> ?T div 4 \<le> GetBigInt t \<and> GetBigInt t \<le> 4 * ?T \<and> GetBigInt t \<le> max_target"
      by (intro exI [of _ u]) simp
  qed
qed

theorem retarget_bitcoin_witness:
  "computeTarget (sample_header 7 5 3 0) (headers_store []) sample_ledger = Inr (word_of_int max_target)"
proof -
  have nf: "\<not> bs_readFault (headers_store []) i" for i by (simp add: headers_store_def)
  have t: "GetBigInt (Target (sample_header 7 5 3 0)) \<le> max_target"
    by (simp add: sample_header_def GetBigInt_def max_target_def)
  have h: "0 \<le> Height (sample_header 7 5 3 0)" "Height (sample_header 7 5 3 0) < 28861" by (simp_all add: sample_header_def)
  from conjunct1 [OF retarget_bitcoin [OF nf h t]] show ?thesis by (simp add: sample_header_def)
qed

text \<open>
  C30 (bounds). From height 28861 on, when the main chain has a block 144 below whose chain work is at least 288
  less, \<^verbatim>\<open>computeTarget\<close> neither fails nor panics: the new target corresponds to the work of that
  window spread over its time, the time taken as no less than half and no more than twice the
  planned day, and it never exceeds the initial target. At constant target and on schedule it does
  not fall.
\<close>

theorem retarget_cash:
  assumes h: "28861 \<le> Height p" "Height p \<le> MAX_NUMBER"
    and f: "GetBlockIDForHeight l (Height p - 144) = Inr (Some i)" "getHeader bs i = Inr (Some f)"
    and W: "W = GetBigInt (ChainWork p) - GetBigInt (ChainWork f)" "288 \<le> W"
    and s: "s = clampSpan 43200 172800 (i64 (bh_Time p - bh_Time f))"
  shows "\<exists>t. computeTarget p bs l = Inr t \<and> GetBigInt t = min (2 ^ 256 div (W * 600 div s) - 1) max_target
    \<and> (s = 86400 \<longrightarrow> 0 < T \<longrightarrow> T \<le> max_target \<longrightarrow> W = 144 * (2 ^ 256 div (T + 1)) \<longrightarrow> T \<le> GetBigInt t)"
proof -
  have c: "computeTarget p bs l = computeTargetBitcoinCash p bs l" using h by (simp add: computeTarget_def)
  have sb: "43200 \<le> s" "s \<le> 172800" unfolding s clampSpan_def by auto
  have "288 * 600 div s \<le> W * 600 div s" using W(2) sb by (intro zdiv_mono1) auto
  moreover have "1 \<le> 288 * 600 div s"
    using sb zdiv_mono2 [of "288 * 600" s 172800] by simp
  ultimately have w0: "0 < W * 600 div s" by simp
  have "W < 2 ^ 256" using W(1) GetBigInt_bounds [of "ChainWork p"] GetBigInt_bounds [of "ChainWork f"] by simp
  have "W * 600 div s \<le> W * 600 div 43200" using W(2) sb by (intro zdiv_mono2) auto
  also have "\<dots> \<le> W" using W(2) by simp
  finally have w1: "W * 600 div s \<le> 2 ^ 256" using \<open>W < 2 ^ 256\<close> by simp
  have "i64 (Height p - 144) = Height p - 144" using h by (intro i64_small) auto
  then have f': "GetBlockIDForHeight l (i64 (Height p - 144)) = Inr (Some i)" using f(1) by simp
  obtain t where t: "computeTargetBitcoinCash p bs l = Inr t"
    "GetBigInt t = min (2 ^ 256 div (W * 600 div s) - 1) max_target"
    using computeTargetBitcoinCash_eq [OF f' f(2) s, of "W * 600 div s"] w0 w1 W(1) by auto
  have "T \<le> GetBigInt t" if T: "s = 86400" "0 < T" "T \<le> max_target" "W = 144 * (2 ^ 256 div (T + 1))"
  proof -
    let ?w = "2 ^ 256 div (T + 1)"
    have e: "W * 600 div s = ?w" unfolding T(1,4) by simp
    have "?w * (T + 1) + 2 ^ 256 mod (T + 1) = 2 ^ 256" by (rule div_mult_mod_eq)
    moreover have "0 \<le> 2 ^ 256 mod (T + 1)" using T(2) by (intro pos_mod_sign) simp
    ultimately have "?w * (T + 1) \<le> 2 ^ 256" by linarith
    then have "(T + 1) * ?w div ?w \<le> 2 ^ 256 div ?w" using w0 e by (intro zdiv_mono1) (auto simp: mult.commute)
    then have "T + 1 \<le> 2 ^ 256 div ?w" using w0 e by simp
    then show ?thesis unfolding t(2) e using T(3) by simp
  qed
  with t show ?thesis unfolding c by blast
qed

text \<open>A ledger that records block 7 at a height, and the header stored for it.\<close>

definition height_ledger :: "int \<Rightarrow> ledger" where
  "height_ledger h = \<lparr>l_db = \<lparr>entries = [(computeBlockHeightIndexKey h, id_bytes 7)], readFault = \<lambda>_. False,
     writeFault = False, iterFault = False\<rparr>, l_prune = False\<rparr>"

lemma height_ledger_at: "GetBlockIDForHeight (height_ledger h) h = Inr (Some 7)"
  by (simp add: GetBlockIDForHeight_def db_Get_def height_ledger_def)

lemma headers_store_at: "getHeader (headers_store [(7, h)]) 7 = Inr (Some h)"
  by (simp add: getHeader_Inr headers_store_def)

theorem retarget_cash_witness:
  "\<exists>t. computeTarget (sample_header 30000 5 86400 618484727952) (headers_store [(7, sample_header 29856 0 0 0)])
     (height_ledger 29856) = Inr t \<and> max_target \<le> GetBigInt t"
proof -
  let ?p = "sample_header 30000 5 86400 618484727952" and ?f = "sample_header 29856 0 0 0"
  have h: "28861 \<le> Height ?p" "Height ?p \<le> MAX_NUMBER" by (simp_all add: sample_header_def)
  have i: "GetBlockIDForHeight (height_ledger 29856) (Height ?p - 144) = Inr (Some 7)"
    using height_ledger_at [of 29856] by (simp add: sample_header_def)
  have W: "618484727952 = GetBigInt (ChainWork ?p) - GetBigInt (ChainWork ?f)" "(288 :: int) \<le> 618484727952"
    by (simp_all add: sample_header_def GetBigInt_def)
  have s: "86400 = clampSpan 43200 172800 (i64 (bh_Time ?p - bh_Time ?f))"
    by (simp add: sample_header_def clampSpan_def i64_small)
  have m: "0 < max_target" "618484727952 = 144 * (2 ^ 256 div (max_target + 1))" by (simp_all add: max_target_def)
  from retarget_cash [OF h i headers_store_at W s, of max_target] show ?thesis
  proof (elim exE conjE)
    fix t
    assume t: "computeTarget ?p (headers_store [(7, ?f)]) (height_ledger 29856) = Inr t"
      and "(86400 :: int) = 86400 \<longrightarrow> 0 < max_target \<longrightarrow> max_target \<le> max_target
        \<longrightarrow> 618484727952 = 144 * (2 ^ 256 div (max_target + 1)) \<longrightarrow> max_target \<le> GetBigInt t"
    then have "max_target \<le> GetBigInt t" using m by blast
    with t show ?thesis by blast
  qed
qed

text \<open>
  C32 (error). The window of \<^verbatim>\<open>computeTargetBitcoinCash\<close> is looked up by height on the main chain, not among the
  ancestors of the block. For a parent on another branch this fails in three ways: no main-chain
  block at that height is a nil dereference; one with the same chain work is a division by zero; one
  with more chain work can give a target above the initial target, the easiest allowed.
\<close>

theorem retarget_off_main_chain:
  assumes h: "28861 \<le> Height p" "Height p \<le> MAX_NUMBER"
  shows "(GetBlockIDForHeight l (Height p - 144) = Inr None \<longrightarrow> computeTarget p bs l = Inl nilDereference)
    \<and> (GetBlockIDForHeight l (Height p - 144) = Inr (Some i) \<longrightarrow> getHeader bs i = Inr (Some f) \<longrightarrow>
        (ChainWork f = ChainWork p \<longrightarrow> computeTarget p bs l = Inl (Panic ''division by zero''))
      \<and> (GetBigInt (ChainWork f) = GetBigInt (ChainWork p) + 144 \<longrightarrow> bh_Time f = bh_Time p \<longrightarrow>
           (\<exists>t. computeTarget p bs l = Inr t \<and> max_target < GetBigInt t)))"
proof -
  have c: "computeTarget p bs l = computeTargetBitcoinCash p bs l" using h by (simp add: computeTarget_def)
  have "i64 (Height p - 144) = Height p - 144" using h by (intro i64_small) auto
  then have w: "i64 (Height p - RETARGET_SMA_WINDOW) = Height p - 144" by simp
  have neg: "\<exists>t. computeTargetBitcoinCash p bs l = Inr t \<and> max_target < GetBigInt t"
    if a: "GetBlockIDForHeight l (Height p - 144) = Inr (Some i)" "getHeader bs i = Inr (Some f)"
      "GetBigInt (ChainWork f) = GetBigInt (ChainWork p) + 144" "bh_Time f = bh_Time p"
  proof -
    have "computeTargetBitcoinCash p bs l = clampTarget (- (2 ^ 255) - 1)"
      unfolding computeTargetBitcoinCash_def w a(1) bindE_simps option.case
      using a(2-4) by (simp add: bigDiv_def Let_def i64_small)
    also have "\<dots> = SetBigInt (- (2 ^ 255) - 1)"
      by (simp add: clampTarget_eq max_target_def)
    finally show ?thesis by (simp add: SetBigInt_def GetBigInt_def max_target_def)
  qed
  have "computeTargetBitcoinCash p bs l = Inl nilDereference" if "GetBlockIDForHeight l (Height p - 144) = Inr None"
    unfolding computeTargetBitcoinCash_def w that by simp
  moreover have "computeTargetBitcoinCash p bs l = Inl (Panic ''division by zero'')"
    if "GetBlockIDForHeight l (Height p - 144) = Inr (Some i)" "getHeader bs i = Inr (Some f)" "ChainWork f = ChainWork p"
    unfolding computeTargetBitcoinCash_def w that(1) using that(2,3) by (simp add: bigDiv_def Let_def)
  ultimately show ?thesis unfolding c using neg by blast
qed

theorem retarget_off_main_chain_witness:
  "\<exists>t. computeTarget (sample_header 30000 5 9 0) (headers_store [(7, sample_header 29856 0 9 144)]) (height_ledger 29856)
     = Inr t \<and> max_target < GetBigInt t"
proof -
  let ?p = "sample_header 30000 5 9 0" and ?f = "sample_header 29856 0 9 144"
  have h: "28861 \<le> Height ?p" "Height ?p \<le> MAX_NUMBER" by (simp_all add: sample_header_def)
  have i: "GetBlockIDForHeight (height_ledger 29856) (Height ?p - 144) = Inr (Some 7)"
    using height_ledger_at [of 29856] by (simp add: sample_header_def)
  have w: "GetBigInt (ChainWork ?f) = GetBigInt (ChainWork ?p) + 144" "bh_Time ?f = bh_Time ?p"
    by (simp_all add: sample_header_def GetBigInt_def)
  from retarget_off_main_chain [OF h, of "height_ledger 29856" "headers_store [(7, ?f)]" 7 ?f] i headers_store_at w
  show ?thesis by blast
qed

end
