(* ===== verification/Ledger_Queries.thy ===== *)
theory Ledger_Queries
  imports Ledger_Props
begin

text \<open>
  The queries of \<^verbatim>\<open>src/ledger_disk.go\<close> that iterate over the database: the transaction history of a
  public key (forward and in reverse), the sum of all balances, and the balance of a key recomputed
  from its history. The theorems relate each to the chain the ledger represents.
\<close>

section \<open>Operations\<close>

text \<open>The loop body both directions share: a block identifier is looked up once per height.\<close>

definition lookupHeight ::
  "ledger \<Rightarrow> (int \<times> block_id) list \<Rightarrow> int \<Rightarrow> (block_id \<times> (int \<times> block_id) list) result" where
  "lookupHeight l heightMap height =
     (case map_of heightMap height of Some i \<Rightarrow> Inr (i, heightMap)
      | None \<Rightarrow> bindE (GetBlockIDForHeight l height) (\<lambda>i.
          case i of None \<Rightarrow> Inl (Err ''No block found at height'')
          | Some i \<Rightarrow> Inr (i, (height, i) # heightMap)))"

fun indicesLoop :: "ledger \<Rightarrow> int \<Rightarrow> kv \<Rightarrow> (int \<times> block_id) list \<Rightarrow> block_id list \<Rightarrow> int list \<Rightarrow> int \<Rightarrow> int
    \<Rightarrow> (block_id list \<times> int list \<times> int \<times> int) result" where
  "indicesLoop l limit [] heightMap ids indices lastHeight lastIndex = Inr (ids, indices, lastHeight, lastIndex)"
| "indicesLoop l limit (e # es) heightMap ids indices lastHeight lastIndex =
     bindE (decodePubKeyTransactionIndexKey (fst e)) (\<lambda>(_, height, index).
       bindE (lookupHeight l heightMap height) (\<lambda>(i, heightMap').
         if limit \<noteq> 0 \<and> int (length (indices @ [index])) = limit
         then Inr (ids @ [i], indices @ [index], height, index)
         else indicesLoop l limit es heightMap' (ids @ [i]) (indices @ [index]) height index))"

definition getPublicKeyTransactionIndicesRangeForward ::
  "ledger \<Rightarrow> bytes \<Rightarrow> int \<Rightarrow> int \<Rightarrow> int \<Rightarrow> int \<Rightarrow> (block_id list \<times> int list \<times> int \<times> int) result" where
  "getPublicKeyTransactionIndicesRangeForward l pubKey startHeight endHeight startIndex limit =
     (let startKey = computePubKeyTransactionIndexKey pubKey (Some startHeight) (Some startIndex);
          endKey = computePubKeyTransactionIndexKey pubKey (Some (i64 (endHeight + 1))) None
      in bindE (getSnapshot l) (\<lambda>_. bindE (db_Range startKey endKey (l_db l)) (\<lambda>es.
           indicesLoop l limit es [] [] [] 0 0)))"

definition getPublicKeyTransactionIndicesRangeReverse ::
  "ledger \<Rightarrow> bytes \<Rightarrow> int \<Rightarrow> int \<Rightarrow> int \<Rightarrow> int \<Rightarrow> (block_id list \<times> int list \<times> int \<times> int) result" where
  "getPublicKeyTransactionIndicesRangeReverse l pubKey startHeight endHeight startIndex limit =
     (let endKey = computePubKeyTransactionIndexKey pubKey (Some endHeight) None;
          startKey = computePubKeyTransactionIndexKey pubKey (Some startHeight) (Some (i64 (startIndex + 1)))
      in bindE (getSnapshot l) (\<lambda>_. bindE (db_Range endKey startKey (l_db l)) (\<lambda>es.
           indicesLoop l limit (rev es) [] [] [] 0 0)))"

definition GetPublicKeyTransactionIndicesRange ::
  "ledger \<Rightarrow> bytes \<Rightarrow> int \<Rightarrow> int \<Rightarrow> int \<Rightarrow> int \<Rightarrow> (block_id list \<times> int list \<times> int \<times> int) result" where
  "GetPublicKeyTransactionIndicesRange l pubKey startHeight endHeight startIndex limit =
     (if endHeight \<ge> startHeight
      then getPublicKeyTransactionIndicesRangeForward l pubKey startHeight endHeight startIndex limit
      else getPublicKeyTransactionIndicesRangeReverse l pubKey startHeight endHeight startIndex limit)"

definition Balance :: "ledger \<Rightarrow> int result" where
  "Balance l = bindE (db_Prefix (computePubKeyBalanceKey []) (l_db l)) (\<lambda>es.
     Inr (fold (\<lambda>e total. i64 (total + decodeNumber (snd e))) es 0))"

fun balanceAtLoop :: "block_store \<Rightarrow> ledger \<Rightarrow> bytes \<Rightarrow> int \<Rightarrow> kv \<Rightarrow> int \<Rightarrow> int result" where
  "balanceAtLoop bs l pubKey currentHeight [] balance = Inr balance"
| "balanceAtLoop bs l pubKey currentHeight (e # es) balance =
     bindE (decodePubKeyTransactionIndexKey (fst e)) (\<lambda>(_, height, index).
       if index = 0 \<and> height > i64 (currentHeight - COINBASE_MATURITY)
       then balanceAtLoop bs l pubKey currentHeight es balance
       else bindE (GetBlockIDForHeight l height) (\<lambda>i.
         case i of None \<Rightarrow> Inl (Err ''No block found at height'')
         | Some i \<Rightarrow> bindE (bs_GetTransaction bs i index) (\<lambda>r.
             case r of None \<Rightarrow> Inl (Err ''No transaction found in block at index'')
             | Some (tx, _) \<Rightarrow>
                 if pubKey = octets (tx_To tx)
                 then balanceAtLoop bs l pubKey currentHeight es (i64 (balance + tx_Amount tx))
                 else if pubKey = octets (tx_From tx)
                 then (let balance' = i64 (i64 (balance - tx_Amount tx) - tx_Fee tx)
                       in if balance' < 0 then Inl (Err ''Balance went negative'')
                          else balanceAtLoop bs l pubKey currentHeight es balance')
                 else Inl (Err ''Transaction doesn't involve the public key''))))"

definition GetPublicKeyBalanceAt :: "block_store \<Rightarrow> ledger \<Rightarrow> bytes \<Rightarrow> int \<Rightarrow> int result" where
  "GetPublicKeyBalanceAt bs l pubKey height =
     bindE (GetChainTip l) (\<lambda>tip.
       let currentHeight = (case tip of None \<Rightarrow> 0 | Some (_, h) \<Rightarrow> h);
           startKey = computePubKeyTransactionIndexKey pubKey None None;
           endKey = computePubKeyTransactionIndexKey pubKey (Some (i64 (height + 1))) None
       in bindE (db_Range startKey endKey (l_db l)) (\<lambda>es.
            balanceAtLoop bs l pubKey currentHeight es 0))"

section \<open>The sum of all balances\<close>

lemma fold_i64_sum:
  "int64 acc \<Longrightarrow> fold (\<lambda>x t. i64 (t + f x)) xs acc = i64 (acc + sum_list (map f xs))"
proof (induction xs arbitrary: acc)
  case Nil
  then show ?case by (simp add: i64_id)
next
  case (Cons x xs)
  have "fold (\<lambda>x t. i64 (t + f x)) xs (i64 (acc + f x)) = i64 (i64 (acc + f x) + sum_list (map f xs))"
    by (rule Cons.IH) simp
  then show ?case by (simp add: i64_add_i64 add.assoc)
qed

lemma sum_entries:
  assumes "distinct (map fst es)"
    and at: "\<And>pk. map_of es (98 # pk) = (if f pk = 0 then None else Some (encodeNumber (f pk)))"
    and i: "\<And>pk. int64 (f pk)"
  shows "sum_list (map (\<lambda>e. decodeNumber (snd e)) (filter (\<lambda>e. take 1 (fst e) = [98]) es)) = total f"
proof -
  let ?es = "filter (\<lambda>e. take 1 (fst e) = [98]) es"
  have dist: "distinct ?es" "inj_on (\<lambda>e. tl (fst e)) (set ?es)"
  proof -
    show "distinct ?es" using assms(1) by (simp add: distinct_map)
    show "inj_on (\<lambda>e. tl (fst e)) (set ?es)"
    proof (rule inj_onI)
      fix x y assume "x \<in> set ?es" "y \<in> set ?es" "tl (fst x) = tl (fst y)"
      moreover from this have "fst x = fst y" by (cases "fst x"; cases "fst y") auto
      ultimately show "x = y" using assms(1) by (auto simp: distinct_map inj_on_def)
    qed
  qed
  have val: "decodeNumber (snd e) = f (tl (fst e)) \<and> f (tl (fst e)) \<noteq> 0" if e: "e \<in> set ?es" for e
  proof -
    obtain pk where pk: "fst e = 98 # pk" using e by (cases "fst e") auto
    have "e \<in> set es" using e by simp
    then have "(98 # pk, snd e) \<in> set es" using pk by (simp flip: pk)
    then have "map_of es (98 # pk) = Some (snd e)" by (rule map_of_is_SomeI [OF assms(1)])
    with at [of pk] decode_number [OF i [of pk]] pk show ?thesis by (auto split: if_splits)
  qed
  have img: "(\<lambda>e. tl (fst e)) ` set ?es = supp f"
  proof (intro set_eqI iffI)
    fix pk assume "pk \<in> supp f"
    then have "map_of es (98 # pk) = Some (encodeNumber (f pk))" by (simp add: at supp_def)
    then have "(98 # pk, encodeNumber (f pk)) \<in> set ?es" by (auto dest: map_of_SomeD)
    then show "pk \<in> (\<lambda>e. tl (fst e)) ` set ?es" by force
  qed (use val in \<open>auto simp: supp_def\<close>)
  have "sum_list (map (\<lambda>e. decodeNumber (snd e)) ?es) = (\<Sum>e \<in> set ?es. decodeNumber (snd e))"
    by (rule sum_list_distinct_conv_sum_set [OF dist(1)])
  also have "\<dots> = (\<Sum>e \<in> set ?es. f (tl (fst e)))" by (rule sum.cong) (use val in auto)
  also have "\<dots> = sum f ((\<lambda>e. tl (fst e)) ` set ?es)" using sum.reindex [OF dist(2), of f] by (simp add: comp_def)
  finally show ?thesis unfolding img total_def .
qed


lemma Balance_total:
  assumes "reach cr prune chain l" "\<not> iterFault (l_db l)"
  shows "Balance l = Inr (total (bal l))"
proof -
  note v = reach_rels(1) [OF assms(1)] and r = reach_rels(5) [OF assms(1)]
  have m: "supply_table (chainBal chain)" by (rule chain_table(3) [OF v])
  have i: "int64 (chainBal chain pk)" for pk
    using supply_money [OF m] by (auto simp: money_table_def int64_def intro: order_trans [of _ 0] order_le_less_trans)
  have "db_ok (l_db l)" using reach_inv [OF assms(1)] by (simp add: ledger_rel_def)
  then have d: "distinct (map fst (entries (l_db l)))" by (simp add: db_ok_def kv_valid_distinct)
  have at: "map_of (entries (l_db l)) (98 # pk) = (if chainBal chain pk = 0 then None else Some (encodeNumber (chainBal chain pk)))" for pk
    using r by (simp add: bal_rel_def db_at_def computePubKeyBalanceKey_def)
  have "0 \<le> total (chainBal chain)" "total (chainBal chain) \<le> MAX_MONEY"
    using m by (auto simp: supply_table_def total_def intro: sum_nonneg)
  then have "i64 (total (chainBal chain)) = total (chainBal chain)" by (intro i64_small) auto
  then show ?thesis
    using assms(2) fold_i64_sum [of 0 "\<lambda>e :: bytes \<times> bytes. decodeNumber (snd e)"] sum_entries [OF d at i]
    by (simp add: Balance_def db_Prefix_def computePubKeyBalanceKey_def bal_rel_eq(1) [OF v r] int64_def)
qed

section \<open>The history of a key\<close>

definition history :: "bool \<Rightarrow> block list \<Rightarrow> bytes \<Rightarrow> (nat \<times> nat) list" where
  "history prune chain pk =
     filter (\<lambda>(h, j). window prune (length chain) h \<and> pk \<in> parties (Transactions (chain ! h) ! j))
       (concat (map (\<lambda>h. map (Pair h) [0..<length (Transactions (chain ! h))]) [0..<length chain]))"

definition histKey :: "bytes \<Rightarrow> nat \<times> nat \<Rightarrow> bytes" where
  "histKey pk hj = computePubKeyTransactionIndexKey pk (Some (int (fst hj))) (Some (int (snd hj)))"

lemma set_history:
  "(h, j) \<in> set (history prune chain pk) \<longleftrightarrow> window prune (length chain) h \<and> j < length (Transactions (chain ! h))
     \<and> pk \<in> parties (Transactions (chain ! h) ! j)"
proof -
  have "(h, j) \<in> set (concat (map (\<lambda>h. map (Pair h) [0..<f h]) [0..<n])) \<longleftrightarrow> h < n \<and> j < f h" for f n
    by (induction n) (auto simp: less_Suc_eq)
  then show ?thesis by (auto simp: history_def window_def simp del: set_concat)
qed

lemma sorted_pairs: "sorted_wrt (<) (concat (map (\<lambda>h. map (Pair h) [0..<f h]) [0..<n])) \<and>
  (\<forall>x \<in> set (concat (map (\<lambda>h. map (Pair h) [0..<f h]) [0..<n])). fst x < (n :: nat))"
proof (induction n)
  case 0
  then show ?case by simp
next
  case (Suc n)
  have "sorted_wrt (<) (map (Pair n) [0..<f n])"
    by (simp add: sorted_wrt_map less_prod_simp)
  with Suc show ?case by (auto simp: sorted_wrt_append less_prod_simp)
qed

lemma sorted_history: "sorted_wrt (<) (history prune chain pk)"
  unfolding history_def by (rule sorted_wrt_filter) (rule sorted_pairs [THEN conjunct1])

lemma histKey_parts:
  "histKey pk (h, j) = (107 # pk) @ be 8 (int h) @ be 4 (i32 (int j))"
  by (simp add: histKey_def computePubKeyTransactionIndexKey_def)

lemma partyKeys_parties:
  "set (partyKeys tx (int h) j) = (\<lambda>p. histKey p (h, j)) ` parties tx"
  by (auto simp: partyKeys_def parties_def histKey_def)

lemma party_iff:
  assumes "block_shape cr b" "length pk = 32"
  shows "107 # pk @ r \<in> partySet (int h) 0 (Transactions b) \<longleftrightarrow>
    (\<exists>j < length (Transactions b). pk \<in> parties (Transactions b ! j) \<and> 107 # pk @ r = histKey pk (h, j))"
proof -
  have len: "length p = 32" if "p \<in> parties (Transactions b ! j)" "j < length (Transactions b)" for p j
  proof -
    have "tx_ok (Transactions b ! j)" using assms(1) that(2) by (simp add: block_shape_def)
    from lb.tx_ok_parts(1,7) [OF this] that(1) show ?thesis by (auto simp: parties_def split: if_splits)
  qed
  have same: "p = pk" if "length p = 32" "107 # pk @ r = histKey p (h, j)" for p j
    using that assms(2) by (auto simp: histKey_parts append_eq_append_conv)
  show ?thesis
  proof
    assume "107 # pk @ r \<in> partySet (int h) 0 (Transactions b)"
    then obtain j p where "j < length (Transactions b)" "p \<in> parties (Transactions b ! j)"
      "107 # pk @ r = histKey p (h, j)" by (auto simp: partySet_def partyKeys_parties)
    with same [OF len] show "\<exists>j < length (Transactions b). pk \<in> parties (Transactions b ! j) \<and> 107 # pk @ r = histKey pk (h, j)"
      by metis
  next
    assume "\<exists>j < length (Transactions b). pk \<in> parties (Transactions b ! j) \<and> 107 # pk @ r = histKey pk (h, j)"
    then show "107 # pk @ r \<in> partySet (int h) 0 (Transactions b)"
      by (auto simp: partySet_def partyKeys_parties)
  qed
qed


text \<open>The entries of a key range inside one public key's table, as positions in the chain.\<close>

lemma range_entries:
  assumes r: "reach cr prune chain l" and pk: "length pk = 32"
    and lo: "\<And>h j. int h \<le> MAX_NUMBER \<Longrightarrow> int32 (int j) \<Longrightarrow> a \<le> be 8 (int h) @ be 4 (i32 (int j)) \<longleftrightarrow> A (h, j)"
    and hi: "\<And>h j. int h \<le> MAX_NUMBER \<Longrightarrow> int32 (int j) \<Longrightarrow> be 8 (int h) @ be 4 (i32 (int j)) < b \<longleftrightarrow> B (h, j)"
  shows "map fst (filter (\<lambda>e. 107 # pk @ a \<le> fst e \<and> fst e < 107 # pk @ b) (entries (l_db l)))
    = map (histKey pk) (filter (\<lambda>x. A x \<and> B x) (history prune chain pk))"
proof -
  let ?es = "filter (\<lambda>e. 107 # pk @ a \<le> fst e \<and> fst e < 107 # pk @ b) (entries (l_db l))"
  let ?hs = "filter (\<lambda>x. A x \<and> B x) (history prune chain pk)"
  note R = reach_rels [OF r]
  have hb: "int h \<le> MAX_NUMBER" "block_shape cr (chain ! h)" if "window prune (length chain) h" for h
    using that chain_height_bound [OF R(1)] chain_valid_block(1) [OF R(1)] by (auto simp: window_def)
  have jb: "int32 (int j)" if "window prune (length chain) h" "j < length (Transactions (chain ! h))" for h j
    using hb(2) [OF that(1)] that(2) by (simp add: block_shape_def int32_def)
  have ok: "kv_valid (entries (l_db l))" using reach_inv [OF r] by (simp add: ledger_rel_def db_ok_def)
  have s1: "sorted_wrt (<) (map fst ?es)"
    using ok unfolding kv_valid_def sorted_wrt_map by (rule sorted_wrt_filter)
  have less: "histKey pk x < histKey pk y" if "x < y" "x \<in> set ?hs" "y \<in> set ?hs" for x y
  proof -
    obtain h j g i where xy: "x = (h, j)" "y = (g, i)" by (cases x; cases y)
    have w: "window prune (length chain) h" "window prune (length chain) g"
        "j < length (Transactions (chain ! h))" "i < length (Transactions (chain ! g))"
      using that(2,3) by (auto simp: xy set_history)
    have "int64 (int h)" "int64 (int g)" using hb(1) [OF w(1)] hb(1) [OF w(2)] by (auto simp: int64_def)
    with jb [OF w(1,3)] jb [OF w(2,4)] that(1) show ?thesis
      unfolding xy histKey_def fst_conv snd_conv by (subst pk_key_less) (auto simp: less_prod_simp)
  qed
  have "sorted_wrt (<) ?hs" by (rule sorted_wrt_filter [OF sorted_history])
  then have s2: "sorted_wrt (<) (map (histKey pk) ?hs)"
    unfolding sorted_wrt_map by (rule sorted_wrt_mono_rel [rotated]) (rule less)
  have "k \<in> set (map fst ?es) \<longleftrightarrow> k \<in> set (map (histKey pk) ?hs)" for k
  proof -
    have "k \<in> set (map fst ?es) \<longleftrightarrow> db_at (l_db l) k \<noteq> None \<and> 107 # pk @ a \<le> k \<and> k < 107 # pk @ b"
      by (force simp: db_at_def map_of_eq_None_iff)
    also have "\<dots> \<longleftrightarrow> (\<exists>c. k = 107 # pk @ c \<and> db_at (l_db l) (107 # pk @ c) \<noteq> None \<and> a \<le> c \<and> c < b)"
    proof (intro iffI; elim conjE exE)
      assume "db_at (l_db l) k \<noteq> None" "107 # pk @ a \<le> k" "k < 107 # pk @ b"
      with between_prefix [of "107 # pk" a k b]
      show "\<exists>c. k = 107 # pk @ c \<and> db_at (l_db l) (107 # pk @ c) \<noteq> None \<and> a \<le> c \<and> c < b" by auto
    next
      fix c assume "k = 107 # pk @ c" "db_at (l_db l) (107 # pk @ c) \<noteq> None" "a \<le> c" "c < b"
      then show "db_at (l_db l) k \<noteq> None \<and> 107 # pk @ a \<le> k \<and> k < 107 # pk @ b"
        by (simp add: append_le_append append_less_append_same)
    qed
    also have "\<dots> \<longleftrightarrow> (\<exists>h j. window prune (length chain) h \<and> j < length (Transactions (chain ! h))
        \<and> pk \<in> parties (Transactions (chain ! h) ! j) \<and> A (h, j) \<and> B (h, j) \<and> k = histKey pk (h, j))"
      (is "?L \<longleftrightarrow> ?R")
    proof -
      have E: "db_at (l_db l) (107 # pk @ c) \<noteq> None \<longleftrightarrow> (\<exists>h j. window prune (length chain) h \<and> j < length (Transactions (chain ! h))
          \<and> pk \<in> parties (Transactions (chain ! h) ! j) \<and> c = be 8 (int h) @ be 4 (i32 (int j)))" for c
      proof -
        have "db_at (l_db l) (107 # pk @ c) \<noteq> None \<longleftrightarrow>
          (\<exists>h. window prune (length chain) h \<and> 107 # pk @ c \<in> partySet (int h) 0 (Transactions (chain ! h)))"
          using R(7) unfolding pk_rel_def R(2) by simp
        then show ?thesis using party_iff [OF hb(2) pk, of _ c] by (auto simp: histKey_parts)
      qed
      show ?thesis
      proof
        assume ?L
        then obtain c h j where c: "k = 107 # pk @ c" "a \<le> c" "c < b"
          and hj: "window prune (length chain) h" "j < length (Transactions (chain ! h))"
          "pk \<in> parties (Transactions (chain ! h) ! j)" "c = be 8 (int h) @ be 4 (i32 (int j))" unfolding E by blast
        from c lo [OF hb(1) [OF hj(1)] jb [OF hj(1,2)]] hi [OF hb(1) [OF hj(1)] jb [OF hj(1,2)]] hj(4)
        have "A (h, j)" "B (h, j)" "k = histKey pk (h, j)" by (simp_all add: histKey_parts)
        with hj(1-3) show ?R by blast
      next
        assume ?R
        then obtain h j where hj: "window prune (length chain) h" "j < length (Transactions (chain ! h))"
          "pk \<in> parties (Transactions (chain ! h) ! j)" "A (h, j)" "B (h, j)" "k = histKey pk (h, j)" by blast
        let ?c = "be 8 (int h) @ be 4 (i32 (int j))"
        have "a \<le> ?c" "?c < b" "k = 107 # pk @ ?c"
          using lo [OF hb(1) [OF hj(1)] jb [OF hj(1,2)]] hi [OF hb(1) [OF hj(1)] jb [OF hj(1,2)]] hj(4-6)
          by (simp_all add: histKey_parts)
        moreover have "db_at (l_db l) (107 # pk @ ?c) \<noteq> None" unfolding E using hj(1-3) by blast
        ultimately show ?L by blast
      qed
    qed
    also have "\<dots> \<longleftrightarrow> (\<exists>x \<in> set ?hs. k = histKey pk x)"
    proof -
      have "x \<in> set ?hs \<longleftrightarrow> window prune (length chain) (fst x) \<and> snd x < length (Transactions (chain ! fst x))
          \<and> pk \<in> parties (Transactions (chain ! fst x) ! snd x) \<and> A x \<and> B x" for x
        using set_history [of "fst x" "snd x" prune chain pk] by auto
      then show ?thesis by (auto simp: Bex_def)
    qed
    finally show ?thesis by (simp add: image_iff)
  qed
  then have "set (map fst ?es) = set (map (histKey pk) ?hs)" by (rule set_eqI)
  then show ?thesis by (rule strict_sorted_equal [OF s2 s1])
qed


definition cut :: "int \<Rightarrow> nat \<Rightarrow> 'a list \<Rightarrow> 'a list" where
  "cut limit n xs = (if 0 < limit then take (nat limit - n) xs else xs)"

text \<open>The answer for a list of positions: identifiers, indices, and the last position.\<close>

definition answer :: "crypto \<Rightarrow> block list \<Rightarrow> (nat \<times> nat) list \<Rightarrow> block_id list \<times> int list \<times> int \<times> int" where
  "answer cr chain hs = (map (\<lambda>x. block_ID cr (chain ! fst x)) hs, map (\<lambda>x. int (snd x)) hs,
     (if hs = [] then (0, 0) else (int (fst (last hs)), int (snd (last hs)))))"

lemma lookupHeight_ok:
  assumes "GetBlockIDForHeight l (int h) = Inr (Some (block_ID cr (chain ! h)))"
    "\<And>x i. map_of hm x = Some i \<Longrightarrow> i = block_ID cr (chain ! nat x)"
  shows "\<exists>hm'. lookupHeight l hm (int h) = Inr (block_ID cr (chain ! h), hm')
    \<and> (\<forall>x i. map_of hm' x = Some i \<longrightarrow> i = block_ID cr (chain ! nat x))"
  using assms(1) assms(2) [of "int h"] assms(2)
  by (auto simp: lookupHeight_def split: option.splits)

lemma indicesLoop_eq:
  assumes "map fst es = map (histKey pk) hs" "length pk = 32"
    and "\<And>h j. (h, j) \<in> set hs \<Longrightarrow> int64 (int h) \<and> int32 (int j)
      \<and> GetBlockIDForHeight l (int h) = Inr (Some (block_ID cr (chain ! h)))"
    and "\<And>x i. map_of hm x = Some i \<Longrightarrow> i = block_ID cr (chain ! nat x)" "0 < limit \<Longrightarrow> int (length seen) < limit"
  shows "indicesLoop l limit es hm (map (\<lambda>x. block_ID cr (chain ! fst x)) seen) (map (\<lambda>x. int (snd x)) seen)
      (if seen = [] then 0 else int (fst (last seen))) (if seen = [] then 0 else int (snd (last seen)))
    = Inr (answer cr chain (seen @ cut limit (length seen) hs))"
  using assms
proof (induction hs arbitrary: es hm seen)
  case Nil
  then show ?case by (simp add: answer_def cut_def)
next
  case (Cons x hs)
  obtain h j where x: "x = (h, j)" by (cases x)
  from Cons.prems(1) obtain e es' where es: "es = e # es'" "fst e = histKey pk x" "map fst es' = map (histKey pk) hs"
    by (auto simp: Cons_eq_map_conv)
  have b: "int64 (int h)" "int32 (int j)" "GetBlockIDForHeight l (int h) = Inr (Some (block_ID cr (chain ! h)))"
    using Cons.prems(3) x by auto
  obtain hm' where hm: "lookupHeight l hm (int h) = Inr (block_ID cr (chain ! h), hm')"
      "\<forall>x i. map_of hm' x = Some i \<longrightarrow> i = block_ID cr (chain ! nat x)"
    using lookupHeight_ok [OF b(3) Cons.prems(4)] by blast
  have dec: "decodePubKeyTransactionIndexKey (histKey pk x) = Inr (pk, int h, int j)"
    using decode_pk_key [OF Cons.prems(2) b(1,2)] by (simp add: histKey_def x)
  show ?case
  proof (cases "limit \<noteq> 0 \<and> int (length seen) + 1 = limit")
    case True
    then have "nat limit - length seen = 1" by linarith
    with True have c: "cut limit (length seen) (x # hs) = [x]" by (simp add: cut_def)
    show ?thesis
      unfolding es(1,2) indicesLoop.simps es(2) dec bindE_simps prod.case hm(1) c
      using True by (simp add: x answer_def)
  next
    case False
    have d: "0 < limit \<Longrightarrow> int (length (seen @ [x])) < limit" using False Cons.prems(5) by auto
    have n: "0 < limit \<Longrightarrow> nat limit - length seen = Suc (nat limit - length (seen @ [x]))" using d by auto
    have p3: "int64 (int g) \<and> int32 (int k) \<and> GetBlockIDForHeight l (int g) = Inr (Some (block_ID cr (chain ! g)))"
      if "(g, k) \<in> set hs" for g k using Cons.prems(3) [of g k] that by simp
    have p4: "i = block_ID cr (chain ! nat y)" if "map_of hm' y = Some i" for y i using hm(2) that by blast
    have nl: "\<not> (limit \<noteq> 0 \<and> int (length (map (\<lambda>x. int (snd x)) seen @ [int j])) = limit)"
      using False by (simp add: add.commute)
    have c: "(seen @ [x]) @ cut limit (length (seen @ [x])) hs = seen @ cut limit (length seen) (x # hs)"
      using n by (simp add: cut_def)
    have "indicesLoop l limit es hm (map (\<lambda>x. block_ID cr (chain ! fst x)) seen) (map (\<lambda>x. int (snd x)) seen) y z
      = indicesLoop l limit es' hm' (map (\<lambda>x. block_ID cr (chain ! fst x)) (seen @ [x])) (map (\<lambda>x. int (snd x)) (seen @ [x]))
          (int h) (int j)" for y z
      unfolding es(1) indicesLoop.simps es(2) dec bindE_simps prod.case hm(1) if_not_P [OF nl] by (simp add: x)
    moreover have "indicesLoop l limit es' hm' (map (\<lambda>x. block_ID cr (chain ! fst x)) (seen @ [x])) (map (\<lambda>x. int (snd x)) (seen @ [x]))
        (int h) (int j) = Inr (answer cr chain (seen @ cut limit (length seen) (x # hs)))"
      using Cons.IH [OF es(3) Cons.prems(2) p3 p4 d] unfolding c unfolding x by simp
    ultimately show ?thesis by (rule trans)
  qed
qed

lemma history_readable:
  assumes r: "reach cr prune chain l" and nf: "\<And>k. \<not> readFault (l_db l) k" and hj: "(h, j) \<in> set (history prune chain pk)"
  shows "int64 (int h) \<and> int32 (int j) \<and> GetBlockIDForHeight l (int h) = Inr (Some (block_ID cr (chain ! h)))"
proof -
  note R = reach_rels [OF r]
  have h: "h < length chain" "j < length (Transactions (chain ! h))" using hj by (auto simp: set_history window_def)
  have "int (length (Transactions (chain ! h))) \<le> MAX_TRANSACTIONS_PER_BLOCK"
    using chain_valid_block(1) [OF R(1) h(1)] by (simp add: block_shape_def)
  with h chain_height_bound [OF R(1) h(1)] height_rel_at [OF R(4) h(1) R(9)] nf show ?thesis
    by (simp add: int64_def int32_def GetBlockIDForHeight_Inr)
qed


lemma be_pos_le:
  assumes "0 \<le> s" "s < 2 ^ 64" "0 \<le> i" "i < 2 ^ 32" "int h \<le> MAX_NUMBER" "int32 (int j)"
  shows "be 8 s @ be 4 i \<le> be 8 (int h) @ be 4 (i32 (int j)) \<longleftrightarrow> s < int h \<or> s = int h \<and> i \<le> int j"
    and "be 8 (int h) @ be 4 (i32 (int j)) < be 8 s @ be 4 i \<longleftrightarrow> int h < s \<or> int h = s \<and> int j < i"
    and "be 8 (int h) @ be 4 (i32 (int j)) < be 8 s \<longleftrightarrow> int h < s"
    and "be 8 s \<le> be 8 (int h) @ be 4 (i32 (int j)) \<longleftrightarrow> s \<le> int h"
proof -
  have h: "int h mod 18446744073709551616 = int h" "s mod 18446744073709551616 = s" "int j mod 4294967296 = int j"
    "i mod 4294967296 = i" "i32 (int j) = int j"
    using assms by (simp_all add: int32_def i32_id)
  show 2: "be 8 (int h) @ be 4 (i32 (int j)) < be 8 s @ be 4 i \<longleftrightarrow> int h < s \<or> int h = s \<and> int j < i"
    by (simp add: append_less_append be_less_iff be_eq_iff h)
  show "be 8 s @ be 4 i \<le> be 8 (int h) @ be 4 (i32 (int j)) \<longleftrightarrow> s < int h \<or> s = int h \<and> i \<le> int j"
    unfolding not_less [symmetric] 2 by auto
  show 3: "be 8 (int h) @ be 4 (i32 (int j)) < be 8 s \<longleftrightarrow> int h < s"
    using append_less_append [of "be 8 (int h)" "be 8 s" "be 4 (i32 (int j))" "[]"] by (simp add: be_less_iff h)
  show "be 8 s \<le> be 8 (int h) @ be 4 (i32 (int j)) \<longleftrightarrow> s \<le> int h"
    unfolding not_less [symmetric] 3 by auto
qed

lemma be_mod: "be n x = be n y \<longleftrightarrow> x mod 2 ^ (8 * n) = y mod 2 ^ (8 * n)"
  by (rule be_eq_iff)

lemma range_answer:
  assumes r: "reach cr prune chain l" and nf: "\<And>k. \<not> readFault (l_db l) k" and pk: "length pk = 32"
    and es: "map fst es = map (histKey pk) hs" and sub: "set hs \<subseteq> set (history prune chain pk)"
  shows "indicesLoop l limit es [] [] [] 0 0 = Inr (answer cr chain (cut limit 0 hs))"
proof -
  have rd: "int64 (int h) \<and> int32 (int j) \<and> GetBlockIDForHeight l (int h) = Inr (Some (block_ID cr (chain ! h)))"
    if "(h, j) \<in> set hs" for h j
    using history_readable [OF r nf] that sub by blast
  from indicesLoop_eq [OF es pk rd, of "[]" limit "[]"] show ?thesis by simp
qed

lemma forward_answer:
  assumes r: "reach cr prune chain l" and nf: "\<And>k. \<not> readFault (l_db l) k" "\<not> iterFault (l_db l)" and pk: "length pk = 32"
    and b: "0 \<le> sh" "0 \<le> eh" "int64 sh" "int64 eh" "0 \<le> si" "int32 si"
  shows "getPublicKeyTransactionIndicesRangeForward l pk sh eh si limit = Inr (answer cr chain (cut limit 0
    (filter (\<lambda>(h, j). (sh < int h \<or> sh = int h \<and> si \<le> int j) \<and> int h \<le> eh) (history prune chain pk))))"
proof -
  have b8: "be 8 (i64 (eh + 1)) = be 8 (eh + 1)"
    by (simp add: be_mod i64_mod)
  have b4: "i32 si = si" using b(6) by (rule i32_id)
  have s: "sh < 2 ^ 64" "si < 2 ^ 32" "0 \<le> eh + 1" "eh + 1 < 2 ^ 64" using b by (auto simp: int64_def int32_def)
  let ?A = "\<lambda>x. sh < int (fst x) \<or> sh = int (fst x) \<and> si \<le> int (snd x)" and ?B = "\<lambda>x. int (fst x) < eh + 1"
  have "map fst (filter (\<lambda>e. 107 # pk @ be 8 sh @ be 4 si \<le> fst e \<and> fst e < 107 # pk @ be 8 (eh + 1)) (entries (l_db l)))
    = map (histKey pk) (filter (\<lambda>x. ?A x \<and> ?B x) (history prune chain pk))"
    by (rule range_entries [OF r pk])
      (use be_pos_le(1) [OF b(1) s(1) b(5) s(2)] be_pos_le(3) [OF s(3,4) b(5) s(2)] in auto)
  moreover have "(\<lambda>x. ?A x \<and> ?B x) = (\<lambda>(h, j). (sh < int h \<or> sh = int h \<and> si \<le> int j) \<and> int h \<le> eh)"
    by (auto simp: fun_eq_iff)
  ultimately show ?thesis
    using range_answer [OF r nf(1) pk, of _ "filter (\<lambda>x. ?A x \<and> ?B x) (history prune chain pk)" limit] nf(2)
    by (simp add: getPublicKeyTransactionIndicesRangeForward_def Let_def getSnapshot_def db_Range_def
        computePubKeyTransactionIndexKey_def b8 b4)
qed

lemma reverse_answer:
  assumes r: "reach cr prune chain l" and nf: "\<And>k. \<not> readFault (l_db l) k" "\<not> iterFault (l_db l)" and pk: "length pk = 32"
    and b: "0 \<le> sh" "0 \<le> eh" "int64 sh" "int64 eh" "0 \<le> si" "int32 si"
  shows "getPublicKeyTransactionIndicesRangeReverse l pk sh eh si limit = Inr (answer cr chain (cut limit 0
    (rev (filter (\<lambda>(h, j). eh \<le> int h \<and> (int h < sh \<or> int h = sh \<and> int j \<le> si)) (history prune chain pk)))))"
proof -
  have i: "i64 (si + 1) = si + 1" using b by (simp add: i64_small int32_def)
  have b4: "be 4 (i32 (si + 1)) = be 4 (si + 1)"
  proof -
    have "take_bit 32 (i32 (si + 1)) = take_bit 32 (si + 1)" by (simp add: i32_def take_bit_signed_take_bit)
    then show ?thesis by (simp add: be_mod take_bit_eq_mod)
  qed
  have s: "sh < 2 ^ 64" "0 \<le> si + 1" "si + 1 < 2 ^ 32" "eh < 2 ^ 64" using b by (auto simp: int64_def int32_def)
  let ?A = "\<lambda>x. eh \<le> int (fst x)" and ?B = "\<lambda>x. int (fst x) < sh \<or> int (fst x) = sh \<and> int (snd x) < si + 1"
  let ?es = "filter (\<lambda>e. 107 # pk @ be 8 eh \<le> fst e \<and> fst e < 107 # pk @ be 8 sh @ be 4 (si + 1)) (entries (l_db l))"
  let ?hs = "filter (\<lambda>x. ?A x \<and> ?B x) (history prune chain pk)"
  have "map fst ?es = map (histKey pk) ?hs"
    by (rule range_entries [OF r pk])
      (use be_pos_le(4) [OF b(2) s(4,2,3)] be_pos_le(2) [OF b(1) s(1,2,3)] in auto)
  then have "map fst (rev ?es) = map (histKey pk) (rev ?hs)" by (simp add: rev_map [symmetric])
  from range_answer [OF r nf(1) pk this, of limit]
  have "indicesLoop l limit (rev ?es) [] [] [] 0 0 = Inr (answer cr chain (cut limit 0 (rev ?hs)))" by auto
  moreover have "(\<lambda>x. ?A x \<and> ?B x) = (\<lambda>(h, j). eh \<le> int h \<and> (int h < sh \<or> int h = sh \<and> int j \<le> si))"
    by (auto simp: fun_eq_iff)
  ultimately show ?thesis
    using nf(2) by (simp add: getPublicKeyTransactionIndicesRangeReverse_def Let_def getSnapshot_def db_Range_def
        computePubKeyTransactionIndexKey_def b4 i)
qed


section \<open>Properties\<close>


lemma sample_history: "history True [sample_genesis, sample_second] (replicate 32 1) = [(0, 0), (1, 0)]"
  by (simp add: history_def sample_genesis_def sample_second_def sample_block_def sample_coinbase_def sample_tx_def
      window_def parties_def IsCoinbase_def upt_rec)


text \<open>
  C37 (equivalence). \<^verbatim>\<open>Balance\<close>, the offline audit that sums all stored balances with 64-bit
  arithmetic, returns the exact total: the running sum cannot wrap in a reachable ledger, and
  together with the immature coinbases it equals the rewards issued.
\<close>

theorem Balance_audit:
  assumes "reach cr prune chain l" "\<not> iterFault (l_db l)"
  shows "Balance l = Inr (total (bal l))
    \<and> total (bal l) = (\<Sum>h<length chain. BlockCreationReward (int h)) - immature chain"
  using Balance_total [OF assms] chain_supply [OF reach_rels(1) [OF assms(1)]]
    bal_rel_eq(1) [OF reach_rels(1,5) [OF assms(1)]]
  by (simp add: minedBy_def)

theorem Balance_audit_witness: "\<exists>l. Balance l = Inr 0 \<and> reach sample_crypto True [sample_genesis, sample_second] l"
proof -
  obtain l where l: "reach sample_crypto True [sample_genesis, sample_second] l" by (rule sample_chain)
  let ?l = "l\<lparr>l_db := (l_db l)\<lparr>iterFault := False\<rparr>\<rparr>"
  have r: "reach sample_crypto True [sample_genesis, sample_second] ?l" using l by (rule reach.faults) simp_all
  have "immature [sample_genesis, sample_second] = 10000000000"
    by (simp add: immature_def coinbaseAmount_def coinbaseOf_def sample_genesis_def sample_second_def sample_block_def
        sample_coinbase_def numeral_2_eq_2)
  with Balance_audit [OF r] reward_nat [of 0] reward_nat [of 1] r show ?thesis
    by (intro exI [of _ ?l]) (auto simp: lessThan_nat_numeral)
qed

lemma balancesLoop_Inr:
  "balancesLoop l pks acc = Inr bs \<Longrightarrow> \<forall>pk \<in> set pks. length pk = 32 \<Longrightarrow>
   map_of bs pk = (if pk \<in> set pks then Some (bal l pk) else map_of acc pk)"
proof (induction pks arbitrary: acc)
  case Nil
  then show ?case by simp
next
  case (Cons p pks)
  from Cons.prems(1) have "balancesLoop l pks (AList.update (copy32 p) (bal l p) acc) = Inr bs"
    by (auto simp: result_simps db_Get_Inr bal_def split: option.splits)
  with Cons.IH [OF this] Cons.prems(2) show ?case by (auto simp: update_conv)
qed

text \<open>
  \<^verbatim>\<open>GetPublicKeyBalances\<close>, which reads many balances and the tip from one snapshot,
  answers for each requested key what \<^verbatim>\<open>GetPublicKeyBalance\<close> answers, for no other key, and reports
  the tip \<^verbatim>\<open>GetChainTip\<close> reports; it fails exactly when the snapshot or one of these reads fails.
\<close>

theorem balances_agree:
  assumes "\<forall>pk \<in> set pks. length pk = 32"
  shows "case GetPublicKeyBalances l pks of
      Inr (bs, tip) \<Rightarrow> GetChainTip l = Inr tip \<and>
        (\<forall>pk. map_of bs pk = (if pk \<in> set pks then Some (bal l pk) else None)
          \<and> (pk \<in> set pks \<longrightarrow> GetPublicKeyBalance l pk = Inr (bal l pk)))
    | Inl e \<Rightarrow> iterFault (l_db l) \<or> (\<exists>e'. GetChainTip l = Inl e') \<or> (\<exists>pk \<in> set pks. \<exists>e'. GetPublicKeyBalance l pk = Inl e')"
proof -
  have rd: "(\<exists>e. balancesLoop l pks acc = Inl e) \<longleftrightarrow> (\<exists>pk \<in> set pks. readFault (l_db l) (computePubKeyBalanceKey pk))" for acc
    by (induction pks arbitrary: acc) (auto simp: db_Get_def)
  show ?thesis
  proof (cases "balancesLoop l pks []")
    case (Inl e)
    with rd [of "[]"] obtain pk where "pk \<in> set pks" "readFault (l_db l) (computePubKeyBalanceKey pk)" by blast
    then have "\<exists>pk \<in> set pks. \<exists>e'. GetPublicKeyBalance l pk = Inl e'" by (auto simp: GetPublicKeyBalance_eq)
    with Inl show ?thesis
      by (cases "GetChainTip l") (auto simp: GetPublicKeyBalances_def getSnapshot_def)
  next
    case (Inr bs)
    with rd [of "[]"] have "\<not> readFault (l_db l) (computePubKeyBalanceKey pk)" if "pk \<in> set pks" for pk using that by auto
    with Inr balancesLoop_Inr [OF Inr assms] show ?thesis
      by (cases "GetChainTip l") (auto simp: GetPublicKeyBalances_def getSnapshot_def GetPublicKeyBalance_eq)
  qed
qed

theorem balances_agree_witness:
  "\<exists>bs. GetPublicKeyBalances sample_ledger [replicate 32 1] = Inr (bs, None) \<and> map_of bs (replicate 32 1) = Some 0"
proof -
  have "\<forall>pk \<in> set [replicate 32 1 :: bytes]. length pk = 32" by simp
  note b = balances_agree [OF this, of sample_ledger]
  have "bal sample_ledger (replicate 32 1) = 0" "GetChainTip sample_ledger = Inr None"
    by (simp_all add: bal_def db_at_def sample_ledger_def GetChainTip_def db_Get_def)
  moreover have "\<exists>bs. GetPublicKeyBalances sample_ledger [replicate 32 1] = Inr (bs, None)"
    by (simp add: GetPublicKeyBalances_def getSnapshot_def GetChainTip_def db_Get_def sample_ledger_def)
  ultimately show ?thesis using b by auto
qed

end
