(* ===== verification/Go_List.thy ===== *)
theory Go_List
  imports Prelude
begin

text \<open>
  \<^verbatim>\<open>container/list\<close> of Go's standard library, as the queues of the program use it: a doubly linked list
  whose elements are handles that stay valid while other elements come and go. The contract is the
  locale \<open>element_list\<close>; the lemmas proved in it are about the pattern both queues use, a list of values
  with a map from a key of the value to its element. The model interprets the contract with numbered
  elements.
\<close>

section \<open>The contract\<close>

definition indexes :: "('v \<Rightarrow> 'k) \<Rightarrow> ('k \<rightharpoonup> 'h) \<Rightarrow> ('h \<times> 'v) list \<Rightarrow> bool" where
  "indexes key m es \<longleftrightarrow> distinct (map fst es) \<and> distinct (map (key \<circ> snd) es)
     \<and> (\<forall>k h. m k = Some h \<longleftrightarrow> (\<exists>v. (h, v) \<in> set es \<and> key v = k))"

lemma indexes_same:
  assumes i: "indexes key m es" and h: "m k = Some h" and e: "e \<in> set es"
  shows "fst e = h \<longleftrightarrow> key (snd e) = k"
proof
  have m: "\<And>k h. m k = Some h \<longleftrightarrow> (\<exists>v. (h, v) \<in> set es \<and> key v = k)"
    using i by (auto simp: indexes_def)
  obtain v where v: "(h, v) \<in> set es" "key v = k" using m h by blast
  show "key (snd e) = k" if "fst e = h"
    using eq_key_imp_eq_value [of es h v "snd e"] i v e that by (auto simp: indexes_def)
  show "fst e = h" if "key (snd e) = k"
  proof -
    have "m k = Some (fst e)" using m e that by (metis prod.collapse)
    with h show ?thesis by simp
  qed
qed

lemma indexes_absent: "indexes key m es \<Longrightarrow> m (key v) = None \<Longrightarrow> (g, w) \<in> set es \<Longrightarrow> key w \<noteq> key v"
  unfolding indexes_def by (metis option.distinct(1))

lemma filter_key_absent: "k \<notin> f ` set xs \<Longrightarrow> filter (\<lambda>x. f x \<noteq> k) xs = xs"
  by (induction xs) auto

locale element_list =
  fixes elems :: "'l \<Rightarrow> ('h \<times> 'v) list"
    and pushBack :: "'v \<Rightarrow> 'l \<Rightarrow> 'h \<times> 'l"
    and pushFront :: "'v \<Rightarrow> 'l \<Rightarrow> 'h \<times> 'l"
    and remove :: "'h \<Rightarrow> 'l \<Rightarrow> 'l"
    and ok :: "'l \<Rightarrow> bool"
  assumes push_back: "ok l \<Longrightarrow> pushBack v l = (h, l') \<Longrightarrow>
      elems l' = elems l @ [(h, v)] \<and> h \<notin> fst ` set (elems l) \<and> ok l'"
    and push_front: "ok l \<Longrightarrow> pushFront v l = (h, l') \<Longrightarrow>
      elems l' = (h, v) # elems l \<and> h \<notin> fst ` set (elems l) \<and> ok l'"
    and removed: "ok l \<Longrightarrow> elems (remove h l) = filter (\<lambda>e. fst e \<noteq> h) (elems l) \<and> ok (remove h l)"
begin

definition contents :: "'l \<Rightarrow> 'v list" where
  "contents l = map snd (elems l)"

lemma key_absent: "indexes key m (elems l) \<Longrightarrow> m k = None \<longleftrightarrow> k \<notin> key ` set (contents l)"
proof -
  assume i: "indexes key m (elems l)"
  have "m k \<noteq> None \<longleftrightarrow> (\<exists>h v. (h, v) \<in> set (elems l) \<and> key v = k)"
    using i unfolding indexes_def by blast
  also have "\<dots> \<longleftrightarrow> k \<in> key ` set (contents l)"
    by (force simp: contents_def)
  finally show ?thesis by blast
qed

lemma indexed_push_back:
  assumes "indexes key m (elems l)" "ok l" "m (key v) = None" "pushBack v l = (h, l')"
  shows "indexes key (m(key v \<mapsto> h)) (elems l') \<and> contents l' = contents l @ [v] \<and> ok l'"
proof -
  note n = indexes_absent [OF assms(1,3)]
  from assms(1) push_back [OF assms(2,4)] show ?thesis
    by (auto simp: indexes_def contents_def dest: n)
qed

lemma indexed_push_front:
  assumes "indexes key m (elems l)" "ok l" "m (key v) = None" "pushFront v l = (h, l')"
  shows "indexes key (m(key v \<mapsto> h)) (elems l') \<and> contents l' = v # contents l \<and> ok l'"
proof -
  note n = indexes_absent [OF assms(1,3)]
  from assms(1) push_front [OF assms(2,4)] show ?thesis
    by (auto simp: indexes_def contents_def dest: n)
qed

lemma indexed_remove:
  assumes "indexes key m (elems l)" "ok l" "m k = Some h"
  shows "indexes key (m(k := None)) (elems (remove h l))
    \<and> contents (remove h l) = filter (\<lambda>v. key v \<noteq> k) (contents l) \<and> ok (remove h l)"
proof -
  have d: "distinct (map fst (elems l))" "distinct (map (key \<circ> snd) (elems l))"
    and m: "\<And>k h. m k = Some h \<longleftrightarrow> (\<exists>v. (h, v) \<in> set (elems l) \<and> key v = k)"
    using assms(1) by (auto simp: indexes_def)
  note same = indexes_same [where key = key, OF assms(1,3)]
  have e: "elems (remove h l) = filter (\<lambda>e. key (snd e) \<noteq> k) (elems l)"
    unfolding conjunct1 [OF removed [OF assms(2), of h]] by (rule filter_cong) (simp_all add: same)
  have "distinct (map fst (elems (remove h l)))" "distinct (map (key \<circ> snd) (elems (remove h l)))"
    using d unfolding e by (simp_all add: distinct_map_filter)
  moreover have "(m(k := None)) j = Some g \<longleftrightarrow> (\<exists>v. (g, v) \<in> set (elems (remove h l)) \<and> key v = j)" for j g
    unfolding e using m by auto
  ultimately have "indexes key (m(k := None)) (elems (remove h l))"
    unfolding indexes_def by blast
  moreover have "contents (remove h l) = filter (\<lambda>v. key v \<noteq> k) (contents l)"
    by (simp only: contents_def e filter_map comp_def)
  ultimately show ?thesis
    using removed [OF assms(2), of h] by blast
qed

lemma distinct_keys: "indexes key m (elems l) \<Longrightarrow> distinct (map key (contents l))"
  by (simp add: indexes_def contents_def)

end

section \<open>Numbered elements\<close>

record 'v golist =
  gl_elems :: "(nat \<times> 'v) list"
  gl_next :: nat

definition list_New :: "'v golist" where
  "list_New = \<lparr>gl_elems = [], gl_next = 0\<rparr>"

definition PushBack :: "'v \<Rightarrow> 'v golist \<Rightarrow> nat \<times> 'v golist" where
  "PushBack v l = (gl_next l, \<lparr>gl_elems = gl_elems l @ [(gl_next l, v)], gl_next = Suc (gl_next l)\<rparr>)"

definition PushFront :: "'v \<Rightarrow> 'v golist \<Rightarrow> nat \<times> 'v golist" where
  "PushFront v l = (gl_next l, \<lparr>gl_elems = (gl_next l, v) # gl_elems l, gl_next = Suc (gl_next l)\<rparr>)"

definition list_Remove :: "nat \<Rightarrow> 'v golist \<Rightarrow> 'v golist" where
  "list_Remove h l = l\<lparr>gl_elems := filter (\<lambda>e. fst e \<noteq> h) (gl_elems l)\<rparr>"

definition element_Value :: "nat \<Rightarrow> 'v golist \<Rightarrow> 'v option" where
  "element_Value h l = map_of (gl_elems l) h"

text \<open>The values are pointers; a write through one is seen under the same element.\<close>

definition set_Value :: "nat \<Rightarrow> 'v \<Rightarrow> 'v golist \<Rightarrow> 'v golist" where
  "set_Value h v l = l\<lparr>gl_elems := map (\<lambda>e. if fst e = h then (h, v) else e) (gl_elems l)\<rparr>"

definition list_Len :: "'v golist \<Rightarrow> nat" where
  "list_Len l = length (gl_elems l)"

definition elements :: "'v golist \<Rightarrow> 'v list" where
  "elements l = map snd (gl_elems l)"

definition golist_ok :: "'v golist \<Rightarrow> bool" where
  "golist_ok l \<longleftrightarrow> (\<forall>h \<in> fst ` set (gl_elems l). h < gl_next l)"

interpretation gl: element_list gl_elems PushBack PushFront list_Remove golist_ok
  by unfold_locales (auto simp: PushBack_def PushFront_def list_Remove_def golist_ok_def)

lemma gl_contents [simp]: "gl.contents l = elements l"
  by (simp add: gl.contents_def elements_def)

lemma list_New_ok: "golist_ok list_New" "indexes key (\<lambda>_. None) (gl_elems list_New)" "elements list_New = []"
  by (simp_all add: list_New_def golist_ok_def indexes_def elements_def)

lemma element_Value_indexed:
  assumes "indexes key m (gl_elems l)" "m k = Some h"
  shows "\<exists>v. element_Value h l = Some v \<and> key v = k \<and> v \<in> set (elements l)"
proof -
  obtain v where v: "(h, v) \<in> set (gl_elems l)" "key v = k" using assms by (auto simp: indexes_def)
  with assms(1) have "element_Value h l = Some v" by (simp add: element_Value_def indexes_def)
  with v show ?thesis by (force simp: elements_def)
qed

lemma set_Value_indexed:
  assumes i: "indexes key m (gl_elems l)" and ok: "golist_ok l" and h: "m (key v) = Some h"
  shows "indexes key m (gl_elems (set_Value h v l)) \<and> golist_ok (set_Value h v l)
    \<and> elements (set_Value h v l) = map (\<lambda>w. if key w = key v then v else w) (elements l)"
proof -
  have d: "distinct (map fst (gl_elems l))" "distinct (map (key \<circ> snd) (gl_elems l))"
    and m: "\<And>k h. m k = Some h \<longleftrightarrow> (\<exists>v. (h, v) \<in> set (gl_elems l) \<and> key v = k)"
    using i by (auto simp: indexes_def)
  obtain w where w: "(h, w) \<in> set (gl_elems l)" "key w = key v" using m h by blast
  note same = indexes_same [where key = key, OF i h]
  let ?u = "\<lambda>e. if fst e = h then (h, v) else e"
  have f: "map fst (map ?u es) = map fst es" for es by (induct es) auto
  have k: "map (key \<circ> snd) (map ?u (gl_elems l)) = map (key \<circ> snd) (gl_elems l)"
    using same by auto
  have s: "map snd (map ?u (gl_elems l)) = map (\<lambda>w. if key w = key v then v else w) (map snd (gl_elems l))"
    using same by auto
  have "(\<exists>x. (g, x) \<in> set (map ?u (gl_elems l)) \<and> key x = j) \<longleftrightarrow> (\<exists>x. (g, x) \<in> set (gl_elems l) \<and> key x = j)"
    for g j
    using same w by (cases "g = h") (force split: if_splits)+
  with d m f k have "indexes key m (gl_elems (set_Value h v l))"
    by (simp add: indexes_def set_Value_def del: map_map)
  moreover have "golist_ok (set_Value h v l)"
    using ok by (auto simp: golist_ok_def set_Value_def)
  ultimately show ?thesis using s by (simp add: elements_def set_Value_def)
qed

end
