(* ===== verification/Transaction_Queue.thy ===== *)
theory Transaction_Queue
  imports Ledger_Queries Go_List
begin

text \<open>
  \<^verbatim>\<open>src/transaction_queue_memory.go\<close>: the queue of unconfirmed transactions, a list in the order of
  inclusion, a map from transaction identifiers to its elements and a balance cache with the effects
  of the queued transactions. The ledger behind the cache is the argument \<open>getBalance\<close>. The
  lock is not modelled: every method holds it for its whole run, so calls are atomic.
\<close>

record tx_queue =
  txMap :: "tx_id \<rightharpoonup> nat"
  txQueue :: "transaction golist"
  balanceCache :: balance_cache

definition NewTransactionQueueMemory :: tx_queue where
  "NewTransactionQueueMemory =
     \<lparr>txMap = (\<lambda>_. None), txQueue = list_New,
      balanceCache = NewBalanceCache (i64 (MIN_AMOUNT_CRUZBITS + MIN_FEE_CRUZBITS))\<rparr>"

definition tq_Add ::
  "(bytes \<Rightarrow> int result) \<Rightarrow> tx_id \<Rightarrow> transaction \<Rightarrow> tx_queue \<Rightarrow> bool result \<times> tx_queue" where
  "tq_Add getBalance i tx q =
     (if txMap q i \<noteq> None then (Inr False, q)
      else case Apply getBalance tx (balanceCache q) of
             (Inl e, c) \<Rightarrow> (Inl e, q\<lparr>balanceCache := c\<rparr>)
           | (Inr False, c) \<Rightarrow> (Inl (Err ''sender has insufficient balance''), q\<lparr>balanceCache := c\<rparr>)
           | (Inr True, c) \<Rightarrow>
               let (e, l) = PushBack tx (txQueue q)
               in (Inr True, \<lparr>txMap = (txMap q)(i \<mapsto> e), txQueue = l, balanceCache = c\<rparr>))"

definition moveToFront :: "tx_id \<Rightarrow> transaction \<Rightarrow> tx_queue \<Rightarrow> tx_queue" where
  "moveToFront i tx q =
     (let l = (case txMap q i of Some e \<Rightarrow> list_Remove e (txQueue q) | None \<Rightarrow> txQueue q);
          (e, l') = PushFront tx l
      in q\<lparr>txMap := (txMap q)(i \<mapsto> e), txQueue := l'\<rparr>)"

text \<open>The loop of \<^verbatim>\<open>AddBatch\<close> runs from the last transaction to the first.\<close>

fun addBatchLoop :: "(tx_id \<times> transaction) list \<Rightarrow> tx_queue \<Rightarrow> tx_queue" where
  "addBatchLoop [] q = q"
| "addBatchLoop ((i, tx) # rest) q = moveToFront i tx (addBatchLoop rest q)"

definition tq_AddBatch :: "tx_id list \<Rightarrow> transaction list \<Rightarrow> int \<Rightarrow> tx_queue \<Rightarrow> unit result \<times> tx_queue" where
  "tq_AddBatch ids txs height q =
     (if length ids < length txs then (Inl (Panic ''index out of range''), q)
      else (Inr (), addBatchLoop (zip ids txs) q))"

definition dropID :: "tx_id \<Rightarrow> nat \<Rightarrow> tx_queue \<Rightarrow> tx_queue" where
  "dropID i e q = q\<lparr>txMap := (txMap q)(i := None), txQueue := list_Remove e (txQueue q)\<rparr>"

fun removeIDs :: "tx_id list \<Rightarrow> tx_queue \<Rightarrow> tx_queue" where
  "removeIDs [] q = q"
| "removeIDs (i # ids) q =
     removeIDs ids (case txMap q i of None \<Rightarrow> q | Some e \<Rightarrow> dropID i e q)"

text \<open>What \<^verbatim>\<open>reprocessQueue\<close> asks of a transaction for the next block, before its balance.\<close>

definition stillValid :: "int \<Rightarrow> transaction \<Rightarrow> bool" where
  "stillValid height tx \<longleftrightarrow>
     \<not> (\<not> checkTransactionSeries tx (i64 (height + 1)) \<or> \<not> IsMature tx (i64 (height + 1))
        \<or> IsExpired tx (i64 (height + 1)) \<or> tx_Fee tx < MIN_FEE_CRUZBITS \<or> tx_Amount tx < MIN_AMOUNT_CRUZBITS)"

text \<open>The element of an identifier the map does not have is nil, which \<^verbatim>\<open>Remove\<close> dereferences.\<close>

definition invalidate :: "crypto \<Rightarrow> transaction \<Rightarrow> tx_queue \<Rightarrow> unit result \<times> tx_queue" where
  "invalidate cr tx q =
     (case txMap q (tx_ID cr tx) of None \<Rightarrow> (Inl (Panic ''nil pointer dereference''), q)
      | Some e \<Rightarrow> (Inr (), dropID (tx_ID cr tx) e q))"

fun reprocessLoop ::
  "crypto \<Rightarrow> (bytes \<Rightarrow> int result) \<Rightarrow> int \<Rightarrow> transaction list \<Rightarrow> tx_queue \<Rightarrow> unit result \<times> tx_queue" where
  "reprocessLoop cr getBalance height [] q = (Inr (), q)"
| "reprocessLoop cr getBalance height (tx # txs) q =
     (if \<not> stillValid height tx
      then bindS (invalidate cr tx q) (\<lambda>_. reprocessLoop cr getBalance height txs)
      else case Apply getBalance tx (balanceCache q) of
             (Inl e, c) \<Rightarrow> (Inl e, q\<lparr>balanceCache := c\<rparr>)
           | (Inr False, c) \<Rightarrow>
               bindS (invalidate cr tx (q\<lparr>balanceCache := c\<rparr>)) (\<lambda>_. reprocessLoop cr getBalance height txs)
           | (Inr True, c) \<Rightarrow> reprocessLoop cr getBalance height txs (q\<lparr>balanceCache := c\<rparr>))"

definition reprocessQueue ::
  "crypto \<Rightarrow> (bytes \<Rightarrow> int result) \<Rightarrow> int \<Rightarrow> tx_queue \<Rightarrow> unit result \<times> tx_queue" where
  "reprocessQueue cr getBalance height q =
     reprocessLoop cr getBalance height (elements (txQueue q)) (q\<lparr>balanceCache := Reset (balanceCache q)\<rparr>)"

definition tq_RemoveBatch ::
  "crypto \<Rightarrow> (bytes \<Rightarrow> int result) \<Rightarrow> tx_id list \<Rightarrow> int \<Rightarrow> bool \<Rightarrow> tx_queue \<Rightarrow> unit result \<times> tx_queue" where
  "tq_RemoveBatch cr getBalance ids height moreComing q =
     (let q' = removeIDs ids q
      in if moreComing then (Inr (), q') else reprocessQueue cr getBalance height q')"

definition tq_Get :: "int \<Rightarrow> tx_queue \<Rightarrow> transaction list result" where
  "tq_Get limit q =
     (if limit = 0 \<or> int (list_Len (txQueue q)) < limit then Inr (elements (txQueue q))
      else if limit < 0 then Inl (Panic ''makeslice: len out of range'')
      else Inr (take (nat limit) (elements (txQueue q))))"

definition tq_Exists :: "tx_id \<Rightarrow> tx_queue \<Rightarrow> bool" where
  "tq_Exists i q \<longleftrightarrow> txMap q i \<noteq> None"

definition tq_ExistsSigned :: "tx_id \<Rightarrow> bytes option \<Rightarrow> tx_queue \<Rightarrow> bool" where
  "tq_ExistsSigned i signature q \<longleftrightarrow>
     (case txMap q i of None \<Rightarrow> False
      | Some e \<Rightarrow> (case element_Value e (txQueue q) of None \<Rightarrow> False
                  | Some tx \<Rightarrow> octets (tx_Signature tx) = octets signature))"

definition tq_Len :: "tx_queue \<Rightarrow> nat" where
  "tq_Len q = list_Len (txQueue q)"

section \<open>The queue as a list of transactions\<close>

definition tq_txs :: "tx_queue \<Rightarrow> transaction list" where
  "tq_txs q = elements (txQueue q)"

definition tq_inv :: "crypto \<Rightarrow> tx_queue \<Rightarrow> bool" where
  "tq_inv cr q \<longleftrightarrow> golist_ok (txQueue q) \<and> indexes (tx_ID cr) (txMap q) (gl_elems (txQueue q))"

lemma tq_inv_parts:
  assumes "tq_inv cr q"
  shows "golist_ok (txQueue q)" "indexes (tx_ID cr) (txMap q) (gl_elems (txQueue q))"
    "txMap q i = None \<longleftrightarrow> i \<notin> tx_ID cr ` set (tq_txs q)"
    "distinct (map (tx_ID cr) (tq_txs q))"
  using assms gl.key_absent [of "tx_ID cr" "txMap q" "txQueue q" i] gl.distinct_keys [of "tx_ID cr" "txMap q" "txQueue q"]
  by (simp_all add: tq_inv_def tq_txs_def)

lemma new_inv: "tq_inv cr NewTransactionQueueMemory" "tq_txs NewTransactionQueueMemory = []"
  by (simp_all add: tq_inv_def NewTransactionQueueMemory_def list_New_ok tq_txs_def)

lemma cache_inv [simp]: "tq_inv cr (q\<lparr>balanceCache := c\<rparr>) = tq_inv cr q" "tq_txs (q\<lparr>balanceCache := c\<rparr>) = tq_txs q"
  by (simp_all add: tq_inv_def tq_txs_def)

lemma dropID_inv:
  assumes "tq_inv cr q" "txMap q i = Some e"
  shows "tq_inv cr (dropID i e q)" "tq_txs (dropID i e q) = filter (\<lambda>tx. tx_ID cr tx \<noteq> i) (tq_txs q)"
    "balanceCache (dropID i e q) = balanceCache q"
  using gl.indexed_remove [OF tq_inv_parts(2,1) [OF assms(1)] assms(2)]
  by (simp_all add: tq_inv_def tq_txs_def dropID_def)

lemma moveToFront_inv:
  assumes inv: "tq_inv cr q" and i: "tx_ID cr tx = i"
  shows "tq_inv cr (moveToFront i tx q)"
    "tq_txs (moveToFront i tx q) = tx # filter (\<lambda>t. tx_ID cr t \<noteq> i) (tq_txs q)"
    "balanceCache (moveToFront i tx q) = balanceCache q"
proof -
  define q' where "q' = (case txMap q i of None \<Rightarrow> q | Some e \<Rightarrow> dropID i e q)"
  have q': "tq_inv cr q' \<and> tq_txs q' = filter (\<lambda>t. tx_ID cr t \<noteq> i) (tq_txs q) \<and> balanceCache q' = balanceCache q"
    and none: "txMap q' i = None"
    using inv dropID_inv [OF inv, of i] tq_inv_parts(3) [OF inv, of i]
    by (auto simp: q'_def dropID_def filter_key_absent split: option.splits)
  obtain e l where p: "PushFront tx (txQueue q') = (e, l)" by fastforce
  have m: "moveToFront i tx q = q'\<lparr>txMap := (txMap q')(i \<mapsto> e), txQueue := l\<rparr>"
    using p by (auto simp: moveToFront_def q'_def dropID_def Let_def split: option.splits prod.splits)
  show "tq_inv cr (moveToFront i tx q)"
    "tq_txs (moveToFront i tx q) = tx # filter (\<lambda>t. tx_ID cr t \<noteq> i) (tq_txs q)"
    "balanceCache (moveToFront i tx q) = balanceCache q"
    using gl.indexed_push_front [OF tq_inv_parts(2,1) [OF conjunct1 [OF q']] none [folded i] p] q' i
    unfolding m by (simp_all add: tq_inv_def tq_txs_def)
qed

lemma addBatchLoop_inv:
  "tq_inv cr q \<Longrightarrow> ids = map (tx_ID cr) txs \<Longrightarrow> distinct ids \<Longrightarrow>
   tq_inv cr (addBatchLoop (zip ids txs) q)
   \<and> tq_txs (addBatchLoop (zip ids txs) q) = txs @ filter (\<lambda>t. tx_ID cr t \<notin> set ids) (tq_txs q)
   \<and> balanceCache (addBatchLoop (zip ids txs) q) = balanceCache q"
proof (induction txs arbitrary: ids)
  case Nil
  then show ?case by simp
next
  case (Cons tx txs)
  let ?q = "addBatchLoop (zip (map (tx_ID cr) txs) txs) q"
  have ih: "tq_inv cr ?q \<and> tq_txs ?q = txs @ filter (\<lambda>t. tx_ID cr t \<notin> set (map (tx_ID cr) txs)) (tq_txs q)
      \<and> balanceCache ?q = balanceCache q"
    using Cons.IH [OF Cons.prems(1) refl] Cons.prems by simp
  have "filter (\<lambda>t. tx_ID cr t \<noteq> tx_ID cr tx) txs = txs"
    using Cons.prems(2,3) by (simp add: filter_key_absent)
  then show ?case
    using moveToFront_inv [OF conjunct1 [OF ih] refl, of tx] ih Cons.prems(2)
    by (simp add: conj_commute)
qed

lemma removeIDs_inv:
  "tq_inv cr q \<Longrightarrow> tq_inv cr (removeIDs ids q)
   \<and> tq_txs (removeIDs ids q) = filter (\<lambda>t. tx_ID cr t \<notin> set ids) (tq_txs q)
   \<and> balanceCache (removeIDs ids q) = balanceCache q"
proof (induction ids arbitrary: q)
  case (Cons i ids)
  let ?q = "case txMap q i of None \<Rightarrow> q | Some e \<Rightarrow> dropID i e q"
  have "tq_inv cr ?q \<and> tq_txs ?q = filter (\<lambda>t. tx_ID cr t \<noteq> i) (tq_txs q) \<and> balanceCache ?q = balanceCache q"
    using Cons.prems dropID_inv [OF Cons.prems, of i] tq_inv_parts(3) [OF Cons.prems, of i]
    by (auto simp: filter_key_absent split: option.splits)
  then show ?case using Cons.IH [of ?q] by (simp add: conj_commute)
qed simp

section \<open>Adding and re-checking\<close>

text \<open>
  A sender can pay when its balance covers amount and fee and what remains is nothing or at least the
  minimum balance. \<open>payable\<close> says so of a list, each transaction paid out of what the ones before it left.
  \<open>survivors\<close> is the pure description of \<^verbatim>\<open>reprocessQueue\<close>.
\<close>

definition canPay :: "int \<Rightarrow> (bytes \<Rightarrow> int) \<Rightarrow> transaction \<Rightarrow> bool" where
  "canPay m f tx \<longleftrightarrow> (let r = f (octets (tx_From tx)) - spent tx in r = 0 \<or> 0 < r \<and> m \<le> r)"

fun payable :: "int \<Rightarrow> (bytes \<Rightarrow> int) \<Rightarrow> transaction list \<Rightarrow> bool" where
  "payable m f [] \<longleftrightarrow> True"
| "payable m f (tx # txs) \<longleftrightarrow> canPay m f tx \<and> payable m (transfer tx f) txs"

fun survivors :: "int \<Rightarrow> int \<Rightarrow> (bytes \<Rightarrow> int) \<Rightarrow> transaction list \<Rightarrow> transaction list" where
  "survivors height m f [] = []"
| "survivors height m f (tx # txs) =
     (if stillValid height tx \<and> canPay m f tx then tx # survivors height m (transfer tx f) txs
      else survivors height m f txs)"

definition queueable :: "transaction \<Rightarrow> bool" where
  "queueable tx \<longleftrightarrow> tx_ok tx \<and> \<not> IsCoinbase tx"

lemma survivors_valid: "tx \<in> set (survivors height m f txs) \<Longrightarrow> stillValid height tx \<and> tx \<in> set txs"
  by (induction txs arbitrary: f) (auto split: if_splits)

lemma survivors_payable: "payable m f (survivors height m f txs)"
  by (induction txs arbitrary: f) auto

lemma survivors_same: "payable m f txs \<Longrightarrow> \<forall>tx \<in> set txs. stillValid height tx \<Longrightarrow> survivors height m f txs = txs"
  by (induction txs arbitrary: f) auto

lemma payable_snoc: "payable m f (txs @ [tx]) \<longleftrightarrow> payable m f txs \<and> canPay m (transfers txs f) tx"
  by (induction txs arbitrary: f) auto

lemma supply_transfer:
  assumes "supply_table f" "queueable tx" "canPay m f tx"
  shows "supply_table (transfer tx f)"
proof -
  have nc: "\<not> IsCoinbase tx" and ok: "tx_ok tx" using assms(2) by (auto simp: queueable_def)
  have "0 \<le> transfer tx f pk" for pk
    using assms(1,3) ok nc
    by (auto simp: transfer_def Let_def canPay_def supply_table_def tx_ok_def)
  moreover have "total (transfer tx f) \<le> MAX_MONEY"
    using assms(1) ok nc by (simp add: supply_table_def total_transfer tx_ok_def)
  ultimately show ?thesis using assms(1) finite_supp_transfer by (auto simp: supply_table_def)
qed

lemma supply_transfers:
  "supply_table f \<Longrightarrow> \<forall>tx \<in> set txs. queueable tx \<Longrightarrow> payable m f txs \<Longrightarrow> supply_table (transfers txs f)"
  by (induction txs arbitrary: f) (auto intro: supply_transfer)

context balance_source
begin

lemma Apply_canPay:
  assumes q: "queueable tx" and s: "supply_table (view b)"
    and rd: "\<And>pk. getBalance pk = Inr (base pk)" and m: "0 \<le> minBalance b"
  shows "\<exists>b'. Apply getBalance tx b = (Inr (canPay (minBalance b) (view b) tx), b')
    \<and> (if canPay (minBalance b) (view b) tx then view b' = transfer tx (view b) else b' = b)
    \<and> minBalance b' = minBalance b"
proof -
  let ?f = "octets (tx_From tx)" and ?t = "octets (tx_To tx)"
  have ok: "tx_ok tx" and nc: "\<not> IsCoinbase tx" using q by (auto simp: queueable_def)
  note p = tx_ok_parts [OF ok]
  note mt = supply_money [OF s]
  have f: "cachedBalance getBalance b ?f = Inr (view b ?f)"
    using p(7) rd nc by (simp add: cachedBalance_def view_def split: option.splits)
  have cr: "\<exists>b'. creditRecipient getBalance tx c = (Inr True, b')" for c
    using p(1) rd by (simp add: creditRecipient_def cachedBalance_def split: option.splits)
  have d: "spent tx \<le> view b ?f \<Longrightarrow> i64 (view b ?f - spent tx) = view b ?f - spent tx"
    by (rule debit_no_wrap [OF mt p(5)])
  show ?thesis
  proof (cases "canPay (minBalance b) (view b) tx")
    case True
    then have le: "spent tx \<le> view b ?f" "\<not> (0 < view b ?f - spent tx \<and> view b ?f - spent tx < minBalance b)"
      by (auto simp: canPay_def Let_def)
    obtain b' where b': "creditRecipient getBalance tx (setCached ?f (view b ?f - spent tx) b) = (Inr True, b')"
      using cr by blast
    from le have a: "Apply getBalance tx b = (Inr True, b')"
      using f p(2) nc d b' by (simp add: Apply_def Let_def)
    with True Apply_True(1) [OF ok mt a] Apply_minBalance [OF a] show ?thesis by simp
  next
    case False
    then have "Apply getBalance tx b = (Inr False, b)"
      using f p(2) nc d m by (auto simp: Apply_def Let_def canPay_def)
    with False show ?thesis by simp
  qed
qed

lemma reprocessLoop_survivors:
  assumes "tq_inv cr q" "tq_txs q = ps @ txs" "\<forall>tx \<in> set txs. queueable tx"
    and "supply_table (view (balanceCache q))" "0 \<le> minBalance (balanceCache q)"
    and rd: "\<And>pk. getBalance pk = Inr (base pk)"
  shows "\<exists>q'. reprocessLoop cr getBalance height txs q = (Inr (), q') \<and> tq_inv cr q'
    \<and> tq_txs q' = ps @ survivors height (minBalance (balanceCache q)) (view (balanceCache q)) txs
    \<and> view (balanceCache q') = transfers (survivors height (minBalance (balanceCache q)) (view (balanceCache q)) txs)
        (view (balanceCache q))
    \<and> minBalance (balanceCache q') = minBalance (balanceCache q)"
  using assms(1-5)
proof (induction txs arbitrary: q ps)
  case Nil
  then show ?case by simp
next
  case (Cons tx txs)
  have dropped: "\<exists>q'. invalidate cr tx q = (Inr (), q') \<and> tq_inv cr q' \<and> tq_txs q' = ps @ txs
      \<and> balanceCache q' = balanceCache q"
  proof -
    have d: "distinct (map (tx_ID cr) (ps @ tx # txs))"
      using tq_inv_parts(4) [OF Cons.prems(1)] Cons.prems(2) by simp
    obtain e where e: "txMap q (tx_ID cr tx) = Some e"
      using tq_inv_parts(3) [OF Cons.prems(1), of "tx_ID cr tx"] Cons.prems(2) by auto
    from d have "filter (\<lambda>t. tx_ID cr t \<noteq> tx_ID cr tx) (ps @ tx # txs) = ps @ txs"
      by (simp add: filter_key_absent)
    with dropID_inv [OF Cons.prems(1) e] Cons.prems(2) e show ?thesis by (simp add: invalidate_def)
  qed
  then obtain d where d: "invalidate cr tx q = (Inr (), d)" "tq_inv cr d" "tq_txs d = ps @ txs"
    "balanceCache d = balanceCache q" by blast
  have qs: "queueable tx" "\<forall>tx \<in> set txs. queueable tx" using Cons.prems(3) by auto
  let ?pay = "canPay (minBalance (balanceCache q)) (view (balanceCache q)) tx"
  obtain c where c: "Apply getBalance tx (balanceCache q) = (Inr ?pay, c)"
    and cv: "if ?pay then view c = transfer tx (view (balanceCache q)) else c = balanceCache q"
    and cm: "minBalance c = minBalance (balanceCache q)"
    using Apply_canPay [OF qs(1) Cons.prems(4) rd Cons.prems(5)] by blast
  show ?case
  proof (cases "stillValid height tx \<and> canPay (minBalance (balanceCache q)) (view (balanceCache q)) tx")
    case True
    let ?q = "q\<lparr>balanceCache := c\<rparr>"
    have "supply_table (view (balanceCache ?q))"
      using supply_transfer [OF Cons.prems(4) qs(1), of "minBalance (balanceCache q)"] True cv by simp
    from Cons.IH [of ?q "ps @ [tx]", OF _ _ qs(2) this] Cons.prems c cv cm True show ?thesis by simp
  next
    case False
    have "reprocessLoop cr getBalance height (tx # txs) q = reprocessLoop cr getBalance height txs d"
      using False c cv d by (cases ?pay) (auto simp: bindS_def)
    with Cons.IH [of d ps, OF d(2,3) qs(2)] Cons.prems d False show ?thesis by (simp only: survivors.simps if_False d(4))
  qed
qed

end

section \<open>The queue over the ledger\<close>

abbreviation minQueueBalance :: int where
  "minQueueBalance \<equiv> MIN_AMOUNT_CRUZBITS + MIN_FEE_CRUZBITS"

text \<open>
  A settled queue: its cache holds exactly the effects of the queued transactions on the ledger's
  balances, and each of them can be paid after the ones before it.
\<close>

definition settled :: "crypto \<Rightarrow> ledger \<Rightarrow> tx_queue \<Rightarrow> bool" where
  "settled cr l q \<longleftrightarrow> tq_inv cr q \<and> (\<forall>tx \<in> set (tq_txs q). queueable tx)
     \<and> minBalance (balanceCache q) = minQueueBalance
     \<and> cview l (balanceCache q) = transfers (tq_txs q) (bal l) \<and> payable minQueueBalance (bal l) (tq_txs q)"

definition readable :: "ledger \<Rightarrow> bool" where
  "readable l \<longleftrightarrow> (\<forall>k. \<not> readFault (l_db l) k)"

lemma readable_balance: "readable l \<Longrightarrow> GetPublicKeyBalance l pk = Inr (bal l pk)"
  by (simp add: readable_def GetPublicKeyBalance_eq)

lemma settled_new: "settled cr l NewTransactionQueueMemory"
proof -
  have "cache (balanceCache NewTransactionQueueMemory) = []"
    by (simp add: NewTransactionQueueMemory_def NewBalanceCache_def)
  then have "cview l (balanceCache NewTransactionQueueMemory) = bal l" by (rule lb.view_empty)
  then show ?thesis
    by (simp add: settled_def new_inv) (simp add: NewTransactionQueueMemory_def NewBalanceCache_def i64_small)
qed

lemma tq_Add_new:
  assumes "tq_inv cr q" "tx_ID cr tx = i" "txMap q i = None" "Apply getBalance tx (balanceCache q) = (Inr True, c)"
  shows "\<exists>q'. tq_Add getBalance i tx q = (Inr True, q') \<and> tq_inv cr q' \<and> tq_txs q' = tq_txs q @ [tx]
    \<and> balanceCache q' = c"
proof -
  obtain e l where p: "PushBack tx (txQueue q) = (e, l)" by fastforce
  with gl.indexed_push_back [OF tq_inv_parts(2,1) [OF assms(1)] _ p] assms show ?thesis
    by (auto simp: tq_Add_def tq_inv_def tq_txs_def)
qed

text \<open>A ledger with one funded key and a payment it can make.\<close>

definition sample_payment :: transaction where
  "sample_payment = sample_tx\<lparr>tx_From := Some (replicate 32 1), tx_To := Some (replicate 32 2), tx_Amount := 20000000,
     tx_Fee := 1000000, tx_Series := 1, tx_Matures := 0, tx_Expires := 0\<rparr>"

definition sample_funded :: ledger where
  "sample_funded = \<lparr>l_db = \<lparr>entries = [(computePubKeyBalanceKey (replicate 32 1), encodeNumber 50000000)],
     readFault = \<lambda>_. False, writeFault = False, iterFault = False\<rparr>, l_prune = True\<rparr>"

lemma sample_funded_bal: "bal sample_funded = (\<lambda>pk. if pk = replicate 32 1 then 50000000 else 0)"
  by (rule ext) (simp add: bal_def db_at_def sample_funded_def codec_simps int64_def)

lemma sample_funded_ok: "supply_table (bal sample_funded)" "readable sample_funded"
proof -
  have "supp (bal sample_funded) = {replicate 32 1}" by (auto simp: supp_def sample_funded_bal)
  then show "supply_table (bal sample_funded)" by (auto simp: supply_table_def total_def sample_funded_bal)
qed (simp add: readable_def sample_funded_def)

lemma sample_payment_ok:
  "queueable sample_payment" "canPay minQueueBalance (bal sample_funded) sample_payment" "stillValid 0 sample_payment"
proof -
  have ne: "replicate 32 (1 :: byte) \<noteq> replicate 32 2" by (simp add: replicate_eq_replicate)
  then show "queueable sample_payment"
    by (simp add: queueable_def tx_ok_def sample_payment_def IsCoinbase_def)
  show "canPay minQueueBalance (bal sample_funded) sample_payment"
    by (simp add: canPay_def sample_funded_bal sample_payment_def spent_def)
  show "stillValid 0 sample_payment"
    by (simp add: stillValid_def sample_payment_def checkTransactionSeries_def IsMature_def IsExpired_def IsCoinbase_def
        i64_small)
qed



lemma add_settled:
  assumes s: "settled cr l q" and b: "supply_table (bal l)" "readable l" and tx: "queueable tx"
    and add: "tq_Add (GetPublicKeyBalance l) (tx_ID cr tx) tx q = (r, q')"
  shows "settled cr l q' \<and>
    (if tx_ID cr tx \<in> tx_ID cr ` set (tq_txs q) then r = Inr False \<and> q' = q
     else if canPay minQueueBalance (transfers (tq_txs q) (bal l)) tx then r = Inr True \<and> tq_txs q' = tq_txs q @ [tx]
     else (\<exists>m. r = Inl (Err m)) \<and> q' = q)"
proof (cases "txMap q (tx_ID cr tx)")
  case (Some e)
  with add s tq_inv_parts(3) [of cr q "tx_ID cr tx"] show ?thesis by (auto simp: tq_Add_def settled_def)
next
  case None
  let ?c = "balanceCache q"
  have i: "tq_inv cr q" "minBalance ?c = minQueueBalance" "cview l ?c = transfers (tq_txs q) (bal l)"
    using s by (auto simp: settled_def)
  have nin: "tx_ID cr tx \<notin> tx_ID cr ` set (tq_txs q)" using None tq_inv_parts(3) [OF i(1)] by simp
  have sv: "supply_table (cview l ?c)"
    unfolding i(3) using s b(1) by (intro supply_transfers) (auto simp: settled_def)
  obtain c where c: "Apply (GetPublicKeyBalance l) tx ?c = (Inr (canPay minQueueBalance (cview l ?c) tx), c)"
    and cv: "if canPay minQueueBalance (cview l ?c) tx then cview l c = transfer tx (cview l ?c) else c = ?c"
    and cm: "minBalance c = minQueueBalance"
    using lb.Apply_canPay [OF tx sv readable_balance [OF b(2)]] i(2) by auto
  show ?thesis
  proof (cases "canPay minQueueBalance (cview l ?c) tx")
    case True
    with c have a: "Apply (GetPublicKeyBalance l) tx ?c = (Inr True, c)" by simp
    from tq_Add_new [OF i(1) refl None a] add
    have q': "r = Inr True" "tq_inv cr q'" "tq_txs q' = tq_txs q @ [tx]" "balanceCache q' = c" by auto
    have "settled cr l q'"
      using q' s tx cv cm True i(3) by (auto simp: settled_def payable_snoc)
    with q' nin True i(3) show ?thesis by simp
  next
    case False
    with c cv add None have "q' = q" "\<exists>m. r = Inl (Err m)" by (auto simp: tq_Add_def)
    with s nin False i(3) show ?thesis by simp
  qed
qed

text \<open>
  On a ledger whose balances can be read, \<^verbatim>\<open>Add\<close> admits a new transaction exactly when its
  sender can pay for it after everything already queued, leaving no dust below the minimum balance;
  it then goes to the back. A duplicate or unpayable transaction leaves the queue as it was, and the
  cache stays exactly the ledger's balances with the queue applied.
\<close>

theorem queue_admission:
  assumes s: "settled cr l q" and b: "supply_table (bal l)" "readable l" and tx: "queueable tx"
    and add: "tq_Add (GetPublicKeyBalance l) (tx_ID cr tx) tx q = (r, q')"
  shows "settled cr l q' \<and>
    (if tx_ID cr tx \<in> tx_ID cr ` set (tq_txs q) then r = Inr False \<and> q' = q
     else if canPay minQueueBalance (transfers (tq_txs q) (bal l)) tx then r = Inr True \<and> tq_txs q' = tq_txs q @ [tx]
     else (\<exists>m. r = Inl (Err m)) \<and> q' = q)"
  using assms by (rule add_settled)

theorem queue_admission_witness:
  "\<exists>q. tq_Add (GetPublicKeyBalance sample_funded) (tx_ID sample_crypto sample_payment) sample_payment
       NewTransactionQueueMemory = (Inr True, q) \<and> tq_txs q = [sample_payment]"
proof -
  obtain r q where a: "tq_Add (GetPublicKeyBalance sample_funded) (tx_ID sample_crypto sample_payment) sample_payment
       NewTransactionQueueMemory = (r, q)" by fastforce
  from queue_admission [OF settled_new sample_funded_ok sample_payment_ok(1) a] sample_payment_ok(2) a
  show ?thesis by (simp add: new_inv)
qed

lemma reprocess_settles:
  assumes inv: "tq_inv cr q" and qs: "\<forall>tx \<in> set (tq_txs q). queueable tx"
    and m: "minBalance (balanceCache q) = minQueueBalance" and b: "supply_table (bal l)" "readable l"
  shows "\<exists>q'. tq_RemoveBatch cr (GetPublicKeyBalance l) ids height False q = (Inr (), q') \<and> settled cr l q'
    \<and> tq_txs q' = survivors height minQueueBalance (bal l) (filter (\<lambda>t. tx_ID cr t \<notin> set ids) (tq_txs q))
    \<and> (\<forall>tx \<in> set (tq_txs q'). stillValid height tx)"
proof -
  let ?r = "removeIDs ids q" and ?ts = "filter (\<lambda>t. tx_ID cr t \<notin> set ids) (tq_txs q)"
  note r = removeIDs_inv [OF inv, of ids]
  let ?q = "?r\<lparr>balanceCache := Reset (balanceCache ?r)\<rparr>"
  have v: "cview l (balanceCache ?q) = bal l" by (rule lb.view_empty) (simp add: Reset_def)
  have mb: "minBalance (balanceCache ?q) = minQueueBalance" using r m by (simp add: Reset_def)
  have "\<exists>q'. reprocessLoop cr (GetPublicKeyBalance l) height ?ts ?q = (Inr (), q') \<and> tq_inv cr q'
    \<and> tq_txs q' = [] @ survivors height (minBalance (balanceCache ?q)) (cview l (balanceCache ?q)) ?ts
    \<and> cview l (balanceCache q') = transfers (survivors height (minBalance (balanceCache ?q)) (cview l (balanceCache ?q)) ?ts)
        (cview l (balanceCache ?q))
    \<and> minBalance (balanceCache q') = minBalance (balanceCache ?q)"
  proof (rule lb.reprocessLoop_survivors)
    show "tq_inv cr ?q" "tq_txs ?q = [] @ ?ts" using r by simp_all
    show "\<forall>tx \<in> set ?ts. queueable tx" using qs by simp
    show "supply_table (cview l (balanceCache ?q))" unfolding v by (rule b(1))
    show "0 \<le> minBalance (balanceCache ?q)" unfolding mb by simp
  qed (rule readable_balance [OF b(2)])
  then obtain q' where q': "reprocessLoop cr (GetPublicKeyBalance l) height ?ts ?q = (Inr (), q')" "tq_inv cr q'"
    "tq_txs q' = survivors height minQueueBalance (bal l) ?ts"
    "cview l (balanceCache q') = transfers (survivors height minQueueBalance (bal l) ?ts) (bal l)"
    "minBalance (balanceCache q') = minQueueBalance"
    unfolding v mb append_Nil by blast
  have sv: "\<forall>tx \<in> set (tq_txs q'). stillValid height tx \<and> tx \<in> set (tq_txs q)"
    unfolding q'(3) by (auto dest: survivors_valid)
  have "payable minQueueBalance (bal l) (tq_txs q')" unfolding q'(3) by (rule survivors_payable)
  moreover have "\<forall>tx \<in> set (tq_txs q'). queueable tx" using sv qs by blast
  moreover have "cview l (balanceCache q') = transfers (tq_txs q') (bal l)" unfolding q'(3) by (rule q'(4))
  ultimately have "settled cr l q'" using q'(2,5) unfolding settled_def by blast
  moreover have "elements (txQueue ?r) = ?ts" using r by (simp add: tq_txs_def)
  then have "tq_RemoveBatch cr (GetPublicKeyBalance l) ids height False q = (Inr (), q')"
    using q'(1) by (simp add: tq_RemoveBatch_def reprocessQueue_def)
  ultimately show ?thesis using q'(3) sv by blast
qed



text \<open>
  C35 (error). When the sender's balance can be read and the recipient's cannot, \<^verbatim>\<open>Apply\<close> has already
  recorded the debit by the time it fails: \<^verbatim>\<open>Add\<close> returns the read error and queues nothing, but the
  sender's balance in the cache stays reduced by amount and fee until the next block resets the
  cache.
\<close>

theorem failed_add_keeps_debit:
  assumes s: "settled cr l q" and b: "supply_table (bal l)" and tx: "queueable tx"
    and new: "tx_ID cr tx \<notin> tx_ID cr ` set (tq_txs q)"
    and pay: "canPay minQueueBalance (transfers (tq_txs q) (bal l)) tx"
    and frm: "\<not> readFault (l_db l) (computePubKeyBalanceKey (octets (tx_From tx)))"
    and to: "readFault (l_db l) (computePubKeyBalanceKey (octets (tx_To tx)))"
      "map_of (cache (balanceCache q)) (octets (tx_To tx)) = None"
  shows "\<exists>q'. tq_Add (GetPublicKeyBalance l) (tx_ID cr tx) tx q = (Inl IOError, q') \<and> tq_txs q' = tq_txs q
    \<and> cview l (balanceCache q') (octets (tx_From tx)) = cview l (balanceCache q) (octets (tx_From tx)) - spent tx"
proof -
  let ?f = "octets (tx_From tx)" and ?c = "balanceCache q"
  have i: "tq_inv cr q" "minBalance ?c = minQueueBalance" "cview l ?c = transfers (tq_txs q) (bal l)"
    using s by (auto simp: settled_def)
  have ok: "tx_ok tx" and nc: "\<not> IsCoinbase tx" using tx by (auto simp: queueable_def)
  note p = lb.tx_ok_parts [OF ok]
  have sv: "supply_table (cview l ?c)"
    unfolding i(3) using s b by (intro supply_transfers) (auto simp: settled_def)
  have f: "cachedBalance (GetPublicKeyBalance l) ?c ?f = Inr (cview l ?c ?f)"
    using p(7) nc frm
    by (simp add: cachedBalance_def lb.view_def GetPublicKeyBalance_eq split: option.splits)
  have le: "spent tx \<le> cview l ?c ?f" "\<not> (0 < cview l ?c ?f - spent tx \<and> cview l ?c ?f - spent tx < minQueueBalance)"
    using pay unfolding i(3) by (auto simp: canPay_def Let_def)
  have d: "i64 (cview l ?c ?f - spent tx) = cview l ?c ?f - spent tx"
    by (rule lb.debit_no_wrap [OF supply_money [OF sv] p(5) le(1)])
  let ?d = "setCached ?f (cview l ?c ?f - spent tx) ?c"
  have "creditRecipient (GetPublicKeyBalance l) tx ?d = (Inl IOError, ?d)"
    using p(1,7,8) nc to
    by (simp add: creditRecipient_def cachedBalance_def setCached_def update_conv GetPublicKeyBalance_eq)
  with f le d p(2) nc i(2) have "Apply (GetPublicKeyBalance l) tx ?c = (Inl IOError, ?d)"
    by (simp add: Apply_def Let_def)
  with new tq_inv_parts(3) [OF i(1), of "tx_ID cr tx"] p(7) nc show ?thesis
    by (simp add: tq_Add_def lb.view_setCached)
qed

definition sample_half_readable :: ledger where
  "sample_half_readable = sample_funded\<lparr>l_db := (l_db sample_funded)\<lparr>readFault :=
     \<lambda>k. k = computePubKeyBalanceKey (replicate 32 2)\<rparr>\<rparr>"

theorem failed_add_keeps_debit_witness:
  "\<exists>q. tq_Add (GetPublicKeyBalance sample_half_readable) (tx_ID sample_crypto sample_payment) sample_payment
       NewTransactionQueueMemory = (Inl IOError, q) \<and> tq_txs q = []
     \<and> cview sample_half_readable (balanceCache q) (replicate 32 1) = 29000000"
proof -
  let ?n = "NewTransactionQueueMemory"
  have b: "bal sample_half_readable = bal sample_funded"
    by (rule ext) (simp add: bal_def db_at_def sample_half_readable_def)
  have ne: "replicate 32 (1 :: byte) \<noteq> replicate 32 2" by (simp add: replicate_eq_replicate)
  have c: "cache (balanceCache ?n) = []" by (simp add: NewTransactionQueueMemory_def NewBalanceCache_def)
  have v: "cview sample_half_readable (balanceCache ?n) = bal sample_funded"
    using lb.view_empty [OF c] b by simp
  have "\<exists>q'. tq_Add (GetPublicKeyBalance sample_half_readable) (tx_ID sample_crypto sample_payment) sample_payment ?n
      = (Inl IOError, q') \<and> tq_txs q' = tq_txs ?n
      \<and> cview sample_half_readable (balanceCache q') (octets (tx_From sample_payment))
        = cview sample_half_readable (balanceCache ?n) (octets (tx_From sample_payment)) - spent sample_payment"
    using settled_new
    by (rule failed_add_keeps_debit)
      (use b sample_funded_ok(1) sample_payment_ok ne c in
        \<open>simp_all add: new_inv sample_payment_def sample_half_readable_def\<close>)
  then show ?thesis
    by (simp add: v new_inv sample_funded_bal) (simp add: sample_payment_def spent_def)
qed

end
