(* ===== verification/Processor.thy ===== *)
theory Processor
  imports Targets Transaction_Queue
begin

text \<open>
  \<^verbatim>\<open>src/processor.go\<close>, the goroutine that owns the ledger: it takes candidate transactions and blocks one at a
  time from its channels, so an operation of the model is one turn of its loop. Operations return
  their error and the new state. A registered channel is a number, and a message sent to it is
  appended to a log. \<^verbatim>\<open>acceptBlockContinue\<close> walks two branches back to their common ancestor in a loop
  that only ends if the stored headers are linked properly; the walks are partial functions and \<open>None\<close>
  is a walk that does not end. The clock is an argument.
\<close>

record new_tx =
  nt_TransactionID :: tx_id
  nt_Transaction :: transaction
  nt_Source :: string

record tip_change =
  tc_BlockID :: block_id
  tc_Block :: block
  tc_Source :: string
  tc_Connect :: bool
  tc_More :: bool

record processor =
  p_genesisID :: block_id
  p_blockStore :: block_store
  p_txQueue :: tx_queue
  p_ledger :: ledger
  newTxChannels :: "nat list"
  tipChangeChannels :: "nat list"
  sentNewTx :: "(nat \<times> new_tx) list"
  sentTipChange :: "(nat \<times> tip_change) list"

definition NewProcessor :: "block_id \<Rightarrow> block_store \<Rightarrow> tx_queue \<Rightarrow> ledger \<Rightarrow> processor" where
  "NewProcessor genesisID bs q l =
     \<lparr>p_genesisID = genesisID, p_blockStore = bs, p_txQueue = q, p_ledger = l,
      newTxChannels = [], tipChangeChannels = [], sentNewTx = [], sentTipChange = []\<rparr>"

section \<open>Transactions\<close>

definition notifyNewTx :: "new_tx \<Rightarrow> processor \<Rightarrow> processor" where
  "notifyNewTx m p = p\<lparr>sentNewTx := sentNewTx p @ map (\<lambda>ch. (ch, m)) (newTxChannels p)\<rparr>"

definition notifyTipChange :: "tip_change \<Rightarrow> processor \<Rightarrow> processor" where
  "notifyTipChange m p = p\<lparr>sentTipChange := sentTipChange p @ map (\<lambda>ch. (ch, m)) (tipChangeChannels p)\<rparr>"

definition checkCandidate :: "crypto \<Rightarrow> tx_id \<Rightarrow> transaction \<Rightarrow> processor \<Rightarrow> unit result" where
  "checkCandidate cr i tx p =
     (if tx_Fee tx < MIN_FEE_CRUZBITS then Inl (Err ''Transaction doesn't pay minimum fee'')
      else if tx_Amount tx < MIN_AMOUNT_CRUZBITS then Inl (Err ''Transaction amount too small'')
      else bindE (checkTransaction tx) (\<lambda>_.
        if IsCoinbase tx then Inl (Err ''Coinbase transaction only allowed in block'')
        else if tq_Len (p_txQueue p) \<ge> MAX_TRANSACTION_QUEUE_LENGTH then Inl (Err ''No room for transaction, queue is full'')
        else bindE (GetTransactionIndex (p_ledger p) i) (\<lambda>(blockID, _).
          if blockID \<noteq> None then Inl (Err ''Transaction is already confirmed'')
          else bindE (GetChainTip (p_ledger p)) (\<lambda>tip.
            case tip of None \<Rightarrow> Inl (Err ''No main chain tip id found'')
            | Some (_, tipHeight) \<Rightarrow>
                if \<not> checkTransactionSeries tx (i64 (tipHeight + 1)) then Inl (Err ''Transaction would have invalid series'')
                else if \<not> IsMature tx (i64 (tipHeight + 1)) then Inl (Err ''Transaction would not be mature'')
                else if IsExpired tx (i64 (tipHeight + 1)) then Inl (Err ''Transaction is expired'')
                else bindE (Verify cr tx) (\<lambda>ok.
                  if ok then Inr () else Inl (Err ''Signature verification failed''))))))"

definition processTransaction ::
  "crypto \<Rightarrow> tx_id \<Rightarrow> transaction \<Rightarrow> string \<Rightarrow> processor \<Rightarrow> unit result \<times> processor" where
  "processTransaction cr i tx source p =
     (case checkCandidate cr i tx p of Inl e \<Rightarrow> (Inl e, p)
      | Inr _ \<Rightarrow>
          (case tq_Add (GetPublicKeyBalance (p_ledger p)) i tx (p_txQueue p) of
             (Inl e, q) \<Rightarrow> (Inl e, p\<lparr>p_txQueue := q\<rparr>)
           | (Inr False, q) \<Rightarrow> (Inr (), p\<lparr>p_txQueue := q\<rparr>)
           | (Inr True, q) \<Rightarrow>
               (Inr (), notifyNewTx \<lparr>nt_TransactionID = i, nt_Transaction = tx, nt_Source = source\<rparr> (p\<lparr>p_txQueue := q\<rparr>))))"

section \<open>Connecting and disconnecting the tip\<close>

definition sliceTail :: "'a list \<Rightarrow> 'a list result" where
  "sliceTail xs = (if xs = [] then Inl (Panic ''slice bounds out of range'') else Inr (tl xs))"

definition disconnectBlock ::
  "crypto \<Rightarrow> block_id \<Rightarrow> block \<Rightarrow> string \<Rightarrow> processor \<Rightarrow> unit result \<times> processor" where
  "disconnectBlock cr i b source p =
     (case DisconnectBlock cr (p_blockStore p) i b (p_ledger p) of
        (Inl e, l) \<Rightarrow> (Inl e, p\<lparr>p_ledger := l\<rparr>)
      | (Inr tids, l) \<Rightarrow>
          (case (sliceTail tids, sliceTail (Transactions b)) of
             (Inr ids, Inr txs) \<Rightarrow>
               (case tq_AddBatch ids txs (i64 (Height (Header b) - 1)) (p_txQueue p) of
                  (Inl e, q) \<Rightarrow> (Inl e, p\<lparr>p_ledger := l, p_txQueue := q\<rparr>)
                | (Inr _, q) \<Rightarrow>
                    (Inr (), notifyTipChange \<lparr>tc_BlockID = i, tc_Block = b, tc_Source = source,
                       tc_Connect = False, tc_More = False\<rparr> (p\<lparr>p_ledger := l, p_txQueue := q\<rparr>)))
           | (Inl e, _) \<Rightarrow> (Inl e, p\<lparr>p_ledger := l\<rparr>)
           | (_, Inl e) \<Rightarrow> (Inl e, p\<lparr>p_ledger := l\<rparr>)))"

definition connectBlock ::
  "crypto \<Rightarrow> block_id \<Rightarrow> block \<Rightarrow> string \<Rightarrow> bool \<Rightarrow> processor \<Rightarrow> unit result \<times> processor" where
  "connectBlock cr i b source moreComing p =
     (case ConnectBlock cr (p_blockStore p) i b (p_ledger p) of
        (Inl e, l) \<Rightarrow> (Inl e, p\<lparr>p_ledger := l\<rparr>)
      | (Inr tids, l) \<Rightarrow>
          (case sliceTail tids of
             Inl e \<Rightarrow> (Inl e, p\<lparr>p_ledger := l\<rparr>)
           | Inr ids \<Rightarrow>
               (case tq_RemoveBatch cr (GetPublicKeyBalance l) ids (Height (Header b)) moreComing (p_txQueue p) of
                  (Inl e, q) \<Rightarrow> (Inl e, p\<lparr>p_ledger := l, p_txQueue := q\<rparr>)
                | (Inr _, q) \<Rightarrow>
                    (Inr (), notifyTipChange \<lparr>tc_BlockID = i, tc_Block = b, tc_Source = source,
                       tc_Connect = True, tc_More = moreComing\<rparr> (p\<lparr>p_ledger := l, p_txQueue := q\<rparr>)))))"

section \<open>Moving to a better branch\<close>

definition getChainTipHeader ::
  "ledger \<Rightarrow> block_store \<Rightarrow> (block_id \<times> block_header option \<times> int) option result" where
  "getChainTipHeader l bs =
     bindE (GetChainTip l) (\<lambda>tip.
       case tip of None \<Rightarrow> Inr None
       | Some (tipID, _) \<Rightarrow>
           bindE (bs_GetBlockHeader bs tipID) (\<lambda>h.
             Inr (Some (case h of None \<Rightarrow> (tipID, None, 0) | Some (tipHeader, tipWhen) \<Rightarrow> (tipID, Some tipHeader, tipWhen)))))"

text \<open>
  Walking one branch down to a height. The identifiers passed are collected by \<open>add\<close>, at the end of the list
  for the blocks to disconnect and at its front for those to connect.
\<close>

partial_function (option) walkToHeight ::
  "block_store \<Rightarrow> int \<Rightarrow> (block_id \<Rightarrow> block_id list \<Rightarrow> block_id list) \<Rightarrow> block_header option \<Rightarrow> block_id \<Rightarrow> block_id list
    \<Rightarrow> (block_header \<times> block_id \<times> block_id list) result option" where
  "walkToHeight bs minHeight add anc ancestorID ids =
     (case anc of None \<Rightarrow> Some (Inl nilDereference)
      | Some h \<Rightarrow>
          if Height h > minHeight
          then (case getHeader bs (Previous h) of Inl e \<Rightarrow> Some (Inl e)
                | Inr h' \<Rightarrow> walkToHeight bs minHeight add h' (Previous h) (add ancestorID ids))
          else Some (Inr (h, ancestorID, ids)))"

partial_function (option) walkToCommon ::
  "block_store \<Rightarrow> block_header option \<Rightarrow> block_id \<Rightarrow> block_header option \<Rightarrow> block_id \<Rightarrow> block_id list \<Rightarrow> block_id list
    \<Rightarrow> (block_id list \<times> block_id list) result option" where
  "walkToCommon bs tipAncestor tipAncestorID newAncestor newAncestorID blocksToDisconnect blocksToConnect =
     (case (newAncestor, tipAncestor) of
        (Some n, Some t) \<Rightarrow>
          if n \<noteq> t
          then (case getHeader bs (Previous t) of Inl e \<Rightarrow> Some (Inl e)
                | Inr t' \<Rightarrow>
                    (case getHeader bs (Previous n) of Inl e \<Rightarrow> Some (Inl e)
                     | Inr n' \<Rightarrow> walkToCommon bs t' (Previous t) n' (Previous n)
                                  (blocksToDisconnect @ [tipAncestorID]) (newAncestorID # blocksToConnect)))
          else Some (Inr (blocksToDisconnect, blocksToConnect))
      | _ \<Rightarrow> Some (Inl nilDereference))"

definition reorgPath ::
  "block_store \<Rightarrow> block_id \<Rightarrow> block_header \<Rightarrow> block_id \<Rightarrow> block_header option
    \<Rightarrow> (block_id list \<times> block_id list) result option" where
  "reorgPath bs tipID tipHeader previous prevHeader =
     (case prevHeader of None \<Rightarrow> Some (Inl nilDereference)
      | Some newAncestor \<Rightarrow>
          let minHeight = (if Height newAncestor < Height tipHeader then Height newAncestor else Height tipHeader)
          in case walkToHeight bs minHeight (\<lambda>i ids. ids @ [i]) (Some tipHeader) tipID [] of
               None \<Rightarrow> None
             | Some (Inl e) \<Rightarrow> Some (Inl e)
             | Some (Inr (tipAncestor, tipAncestorID, blocksToDisconnect)) \<Rightarrow>
                 (case walkToHeight bs minHeight (\<lambda>i ids. i # ids) (Some newAncestor) previous [] of
                    None \<Rightarrow> None
                  | Some (Inl e) \<Rightarrow> Some (Inl e)
                  | Some (Inr (newAncestor, newAncestorID, blocksToConnect)) \<Rightarrow>
                      walkToCommon bs (Some tipAncestor) tipAncestorID (Some newAncestor) newAncestorID
                        blocksToDisconnect blocksToConnect))"

definition withBlock ::
  "block_id \<Rightarrow> (block \<Rightarrow> processor \<Rightarrow> unit result \<times> processor) \<Rightarrow> processor \<Rightarrow> unit result \<times> processor" where
  "withBlock i f p =
     (case bs_GetBlock (p_blockStore p) i of Inl e \<Rightarrow> (Inl e, p)
      | Inr None \<Rightarrow> (Inl nilDereference, p)
      | Inr (Some b) \<Rightarrow> f b p)"

fun disconnectBlocks :: "crypto \<Rightarrow> string \<Rightarrow> block_id list \<Rightarrow> processor \<Rightarrow> unit result \<times> processor" where
  "disconnectBlocks cr source [] p = (Inr (), p)"
| "disconnectBlocks cr source (i # ids) p =
     bindS (withBlock i (\<lambda>b. disconnectBlock cr i b source) p) (\<lambda>_. disconnectBlocks cr source ids)"

fun connectBlocks :: "crypto \<Rightarrow> string \<Rightarrow> block_id list \<Rightarrow> processor \<Rightarrow> unit result \<times> processor" where
  "connectBlocks cr source [] p = (Inr (), p)"
| "connectBlocks cr source (i # ids) p =
     bindS (withBlock i (\<lambda>b. connectBlock cr i b source True) p) (\<lambda>_. connectBlocks cr source ids)"

definition acceptBlockContinue ::
  "crypto \<Rightarrow> block_id \<Rightarrow> block \<Rightarrow> int \<Rightarrow> block_header option \<Rightarrow> string \<Rightarrow> processor \<Rightarrow> (unit result \<times> processor) option" where
  "acceptBlockContinue cr i b blockWhen prevHeader source p =
     (case getChainTipHeader (p_ledger p) (p_blockStore p) of
        Inl e \<Rightarrow> Some (Inl e, p)
      | Inr None \<Rightarrow> Some (Inl nilDereference, p)
      | Inr (Some (tipID, tipHeader, tipWhen)) \<Rightarrow>
          if i = tipID then Some (Inr (), p)
          else (case tipHeader of None \<Rightarrow> Some (Inl nilDereference, p)
                | Some tipHeader \<Rightarrow>
                    if \<not> Compare cr (Header b) tipHeader blockWhen tipWhen
                    then (case SetBranchType i SIDE (p_ledger p) of (r, l) \<Rightarrow> Some (r, p\<lparr>p_ledger := l\<rparr>))
                    else (case reorgPath (p_blockStore p) tipID tipHeader (Previous (Header b)) prevHeader of
                            None \<Rightarrow> None
                          | Some (Inl e) \<Rightarrow> Some (Inl e, p)
                          | Some (Inr (blocksToDisconnect, blocksToConnect)) \<Rightarrow>
                              Some (bindS (disconnectBlocks cr source blocksToDisconnect p) (\<lambda>_ p.
                                bindS (connectBlocks cr source blocksToConnect p) (\<lambda>_ p.
                                  connectBlock cr i b source False p))))))"

definition reconnectTip :: "crypto \<Rightarrow> block_id \<Rightarrow> string \<Rightarrow> processor \<Rightarrow> (unit result \<times> processor) option" where
  "reconnectTip cr i source p =
     (case bs_GetBlock (p_blockStore p) i of Inl e \<Rightarrow> Some (Inl e, p)
      | Inr None \<Rightarrow> Some (Inl (Err ''Block not found''), p)
      | Inr (Some b) \<Rightarrow>
          (case bs_GetBlockHeader (p_blockStore p) i of Inl e \<Rightarrow> Some (Inl e, p)
           | Inr h \<Rightarrow>
               (case getHeader (p_blockStore p) (Previous (Header b)) of Inl e \<Rightarrow> Some (Inl e, p)
                | Inr prevHeader \<Rightarrow>
                    acceptBlockContinue cr i b (case h of None \<Rightarrow> 0 | Some (_, w) \<Rightarrow> w) prevHeader source p)))"

section \<open>Accepting a block\<close>

fun verifyTransactions :: "crypto \<Rightarrow> tx_queue \<Rightarrow> int \<Rightarrow> transaction list \<Rightarrow> int \<Rightarrow> int result" where
  "verifyTransactions cr q height [] feesSoFar = Inr feesSoFar"
| "verifyTransactions cr q height (tx # txs) feesSoFar =
     (if \<not> checkTransactionSeries tx height then Inl (Err ''Transaction would have invalid series'')
      else bindE
        (if IsCoinbase tx then Inr ()
         else if \<not> IsMature tx height then Inl (Err ''Transaction is immature'')
         else if IsExpired tx height then Inl (Err ''Transaction is expired'')
         else if tq_ExistsSigned (tx_ID cr tx) (tx_Signature tx) q then Inr ()
         else bindE (Verify cr tx) (\<lambda>ok. if ok then Inr () else Inl (Err ''Signature verification failed'')))
        (\<lambda>_. verifyTransactions cr q height txs (i64 (feesSoFar + tx_Fee tx))))"

text \<open>The checks of \<^verbatim>\<open>acceptBlock\<close> before anything is stored; \<open>None\<close> says the block was processed before.\<close>

definition checkAccept :: "crypto \<Rightarrow> block_id \<Rightarrow> block \<Rightarrow> block_header option \<Rightarrow> processor \<Rightarrow> unit option result" where
  "checkAccept cr i b prevHeader p =
     (case prevHeader of None \<Rightarrow> Inl nilDereference
      | Some prevHeader \<Rightarrow>
          if Height (Header b) \<noteq> i64 (Height prevHeader + 1) then Inl (Err ''Expected height'')
          else bindE (GetBranchType (p_ledger p) i) (\<lambda>branchType.
            if branchType \<noteq> UNKNOWN then Inr None
            else bindE (computeTarget prevHeader (p_blockStore p) (p_ledger p)) (\<lambda>target.
              if Target (Header b) \<noteq> target then Inl (Err ''Incorrect target'')
              else bindE (computeChainWork (Target (Header b)) (ChainWork prevHeader)) (\<lambda>chainWork.
                if ChainWork (Header b) \<noteq> chainWork then Inl (Err ''Incorrect chain work'')
                else bindE (computeMedianTimestamp prevHeader (p_blockStore p)) (\<lambda>medianTimestamp.
                  if bh_Time (Header b) \<le> medianTimestamp then Inl (Err ''Timestamp is too early'')
                  else bindE (verifyTransactions cr (p_txQueue p) (Height (Header b)) (Transactions b) 0) (\<lambda>feeSum.
                    case Transactions b of [] \<Rightarrow> Inl (Panic ''index out of range'')
                    | coinbase # _ \<Rightarrow>
                        if tx_Amount coinbase \<noteq> i64 (BlockCreationReward (Height (Header b)) + feeSum)
                        then Inl (Err ''Coinbase pays incorrect amount'') else Inr (Some ())))))))"

text \<open>If the block cannot be connected the old tip is re-activated; a panic is not caught.\<close>

definition acceptOrReconnect ::
  "crypto \<Rightarrow> block_id \<Rightarrow> block \<Rightarrow> int \<Rightarrow> block_header option \<Rightarrow> string \<Rightarrow> block_id option \<Rightarrow> processor
    \<Rightarrow> (unit result \<times> processor) option" where
  "acceptOrReconnect cr i b now prevHeader source tipID p =
     (case acceptBlockContinue cr i b now prevHeader source p of
        None \<Rightarrow> None
      | Some (Inr _, p') \<Rightarrow> Some (Inr (), p')
      | Some (Inl (Panic m), p') \<Rightarrow> Some (Inl (Panic m), p')
      | Some (Inl e, p') \<Rightarrow>
          (case tipID of None \<Rightarrow> Some (Inl nilDereference, p')
           | Some tipID \<Rightarrow>
               (case reconnectTip cr tipID source p' of None \<Rightarrow> None
                | Some (Inl (Panic m), p'') \<Rightarrow> Some (Inl (Panic m), p'')
                | Some (_, p'') \<Rightarrow> Some (Inl e, p''))))"

definition acceptBlock ::
  "crypto \<Rightarrow> block_id \<Rightarrow> block \<Rightarrow> int \<Rightarrow> string \<Rightarrow> processor \<Rightarrow> (unit result \<times> processor) option" where
  "acceptBlock cr i b now source p =
     (case getHeader (p_blockStore p) (Previous (Header b)) of Inl e \<Rightarrow> Some (Inl e, p)
      | Inr prevHeader \<Rightarrow>
          (case checkAccept cr i b prevHeader p of
             Inl e \<Rightarrow> Some (Inl e, p)
           | Inr None \<Rightarrow> Some (Inr (), p)
           | Inr (Some _) \<Rightarrow>
               (case bs_Store i b now (p_blockStore p) of
                  (Inl e, bs) \<Rightarrow> Some (Inl e, p\<lparr>p_blockStore := bs\<rparr>)
                | (Inr _, bs) \<Rightarrow>
                    (case GetChainTip (p_ledger p) of Inl e \<Rightarrow> Some (Inl e, p\<lparr>p_blockStore := bs\<rparr>)
                     | Inr tip \<Rightarrow>
                         acceptOrReconnect cr i b now prevHeader source (map_option fst tip) (p\<lparr>p_blockStore := bs\<rparr>)))))"

definition processBlock ::
  "crypto \<Rightarrow> block_id \<Rightarrow> block \<Rightarrow> int \<Rightarrow> string \<Rightarrow> processor \<Rightarrow> (unit result \<times> processor) option" where
  "processBlock cr i b now source p =
     (case GetBranchType (p_ledger p) i of Inl e \<Rightarrow> Some (Inl e, p)
      | Inr branchType \<Rightarrow>
          if branchType \<noteq> UNKNOWN then Some (Inr (), p)
          else case checkBlock cr i b now of Inl e \<Rightarrow> Some (Inl e, p)
               | Inr _ \<Rightarrow>
                   (case GetBranchType (p_ledger p) (Previous (Header b)) of Inl e \<Rightarrow> Some (Inl e, p)
                    | Inr branchType \<Rightarrow>
                        if branchType \<noteq> MAIN \<and> branchType \<noteq> SIDE
                        then if i = p_genesisID p
                             then (case bs_Store i b now (p_blockStore p) of
                                     (Inl e, bs) \<Rightarrow> Some (Inl e, p\<lparr>p_blockStore := bs\<rparr>)
                                   | (Inr _, bs) \<Rightarrow> Some (connectBlock cr i b source False (p\<lparr>p_blockStore := bs\<rparr>)))
                             else Some (Inl (Err ''Block is an orphan''), p)
                        else acceptBlock cr i b now source p))"

section \<open>The loop\<close>

datatype event =
    TxToProcess tx_id transaction string
  | BlockToProcess block_id block string
  | RegisterNewTx nat | UnregisterNewTx nat
  | RegisterTipChange nat | UnregisterTipChange nat

text \<open>
  One turn of \<^verbatim>\<open>run\<close>: the result goes back to the caller where there is one. A panic ends the process, and so
  does a walk that does not end.
\<close>

definition run_turn :: "crypto \<Rightarrow> int \<Rightarrow> event \<Rightarrow> processor \<Rightarrow> (unit result \<times> processor) option" where
  "run_turn cr now ev p =
     (case ev of
        TxToProcess i tx source \<Rightarrow> Some (processTransaction cr i tx source p)
      | BlockToProcess i b source \<Rightarrow> processBlock cr i b now source p
      | RegisterNewTx ch \<Rightarrow> Some (Inr (), p\<lparr>newTxChannels := List.insert ch (newTxChannels p)\<rparr>)
      | UnregisterNewTx ch \<Rightarrow> Some (Inr (), p\<lparr>newTxChannels := removeAll ch (newTxChannels p)\<rparr>)
      | RegisterTipChange ch \<Rightarrow> Some (Inr (), p\<lparr>tipChangeChannels := List.insert ch (tipChangeChannels p)\<rparr>)
      | UnregisterTipChange ch \<Rightarrow> Some (Inr (), p\<lparr>tipChangeChannels := removeAll ch (tipChangeChannels p)\<rparr>))"

end
