(* ===== verification/Header_Hasher.thy ===== *)
theory Header_Hasher
  imports Block
begin

text \<open>
  \<^verbatim>\<open>src/block_header_hasher.go\<close>: the hasher the miners use, which keeps the serialized header in one buffer and
  rewrites only the fields that changed since the last attempt. A write through a slice of the buffer changes the
  buffer while it fits in it; an \<^verbatim>\<open>append\<close> that does not fit allocates a new array, and what is written there is
  not in the buffer. The graphics devices are code outside the model: a \<open>device\<close> gives what \<^verbatim>\<open>CudaMinerUpdate\<close> and
  \<^verbatim>\<open>CudaMinerMine\<close>, or their OpenCL counterparts, return, and \<open>None\<close> stands for a build without either.
\<close>

section \<open>Slices of the buffer\<close>

datatype slice = InPlace int | Allocated bytes

definition boundsPanic :: error where
  "boundsPanic = Panic ''slice bounds out of range''"

text \<open>\<^verbatim>\<open>copy(buf[off:], xs)\<close> writes as much of \<open>xs\<close> as there is room for.\<close>

definition copyAt :: "int \<Rightarrow> bytes \<Rightarrow> bytes \<Rightarrow> bytes result" where
  "copyAt off xs buf =
     (if off < 0 \<or> off > int (length buf) then Inl boundsPanic
      else Inr (take (nat off) buf @ take (length buf - nat off) xs @ drop (nat off + length xs) buf))"

text \<open>\<^verbatim>\<open>hex.Encode(buf[off:], i[:])\<close> writes 64 digits and panics where they do not fit.\<close>

definition hexAt :: "int \<Rightarrow> 256 word \<Rightarrow> bytes \<Rightarrow> bytes result" where
  "hexAt off i buf =
     (if off < 0 \<or> off > int (length buf) then Inl boundsPanic
      else if int (length buf) < off + 64 then Inl (Panic ''index out of range'')
      else copyAt off (id_String i) buf)"

definition sliceTo :: "int \<Rightarrow> bytes \<Rightarrow> slice result" where
  "sliceTo n buf = (if n < 0 \<or> n > int (length buf) then Inl boundsPanic else Inr (InPlace n))"

fun appendTo :: "slice \<Rightarrow> bytes \<Rightarrow> bytes \<Rightarrow> slice \<times> bytes" where
  "appendTo (InPlace n) xs buf =
     (if n + int (length xs) \<le> int (length buf)
      then (InPlace (n + int (length xs)), take (nat n) buf @ xs @ drop (nat n + length xs) buf)
      else (Allocated (take (nat n) buf @ xs), buf))"
| "appendTo (Allocated ys) xs buf = (Allocated (ys @ xs), buf)"

fun sliceLen :: "slice \<Rightarrow> int" where
  "sliceLen (InPlace n) = n"
| "sliceLen (Allocated ys) = int (length ys)"

section \<open>The hasher\<close>

record header_hasher =
  previousHashListRoot :: tx_id
  previousTime :: int
  previousNonce :: int
  previousTransactionCount :: int
  hashListRootOffset :: int
  timeOffset :: int
  nonceOffset :: int
  transactionCountOffset :: int
  timeLen :: int
  nonceLen :: int
  txCountLen :: int
  hh_initialized :: bool
  hh_bufLen :: int
  hh_buffer :: bytes
  hashesPerAttempt :: int

definition hdrPrevious :: bytes where "hdrPrevious = str ''{\"previous\":\"''"
definition hdrHashListRoot :: bytes where "hdrHashListRoot = str ''\",\"hash_list_root\":\"''"
definition hdrTime :: bytes where "hdrTime = str ''\",\"time\":''"
definition hdrTarget :: bytes where "hdrTarget = str '',\"target\":\"''"
definition hdrChainWork :: bytes where "hdrChainWork = str ''\",\"chain_work\":\"''"
definition hdrNonce :: bytes where "hdrNonce = str ''\",\"nonce\":''"
definition hdrHeight :: bytes where "hdrHeight = str '',\"height\":''"
definition hdrTransactionCount :: bytes where "hdrTransactionCount = str '',\"transaction_count\":''"
definition hdrEnd :: bytes where "hdrEnd = str ''}''"

definition NewBlockHeaderHasher :: header_hasher where
  "NewBlockHeaderHasher =
     \<lparr>previousHashListRoot = 0, previousTime = 0, previousNonce = 0, previousTransactionCount = 0,
      hashListRootOffset = 0, timeOffset = 0, nonceOffset = 0, transactionCountOffset = 0,
      timeLen = 0, nonceLen = 0, txCountLen = 0, hh_initialized = False, hh_bufLen = 0,
      hh_buffer = replicate (length hdrPrevious + length hdrHashListRoot + length hdrTime + length hdrTarget
        + length hdrChainWork + length hdrNonce + length hdrHeight + length hdrTransactionCount
        + length hdrEnd + 4 * 64 + 3 * 19 + 10) 0,
      hashesPerAttempt = 1\<rparr>"

definition initBuffer :: "block_header \<Rightarrow> header_hasher \<Rightarrow> header_hasher result" where
  "initBuffer header h =
     bindE (copyAt 0 hdrPrevious (hh_buffer h)) (\<lambda>buf.
     let bufLen = int (length hdrPrevious) in
     bindE (hexAt bufLen (Previous header) buf) (\<lambda>buf.
     let bufLen = bufLen + 64 in
     bindE (copyAt bufLen hdrHashListRoot buf) (\<lambda>buf.
     let bufLen = bufLen + int (length hdrHashListRoot); rootOff = bufLen in
     bindE (hexAt bufLen (HashListRoot header) buf) (\<lambda>buf.
     let bufLen = bufLen + 64 in
     bindE (copyAt bufLen hdrTime buf) (\<lambda>buf.
     let bufLen = bufLen + int (length hdrTime); timeOff = bufLen in
     bindE (sliceTo bufLen buf) (\<lambda>buffer.
     let (buffer, buf) = appendTo buffer (itoa (bh_Time header)) buf;
         tLen = sliceLen buffer - bufLen;
         bufLen = bufLen + tLen;
         (buffer, buf) = appendTo buffer hdrTarget buf;
         bufLen = bufLen + int (length hdrTarget) in
     bindE (hexAt bufLen (Target header) buf) (\<lambda>buf.
     let bufLen = bufLen + 64 in
     bindE (copyAt bufLen hdrChainWork buf) (\<lambda>buf.
     let bufLen = bufLen + int (length hdrChainWork) in
     bindE (hexAt bufLen (ChainWork header) buf) (\<lambda>buf.
     let bufLen = bufLen + 64 in
     bindE (copyAt bufLen hdrNonce buf) (\<lambda>buf.
     let bufLen = bufLen + int (length hdrNonce); nonceOff = bufLen in
     bindE (sliceTo bufLen buf) (\<lambda>buffer.
     let (buffer, buf) = appendTo buffer (itoa (bh_Nonce header)) buf;
         nLen = sliceLen buffer - bufLen;
         bufLen = bufLen + nLen;
         (buffer, buf) = appendTo buffer hdrHeight buf;
         bufLen = bufLen + int (length hdrHeight);
         (buffer, buf) = appendTo buffer (itoa (Height header)) buf;
         bufLen = bufLen + (sliceLen buffer - bufLen);
         (buffer, buf) = appendTo buffer hdrTransactionCount buf;
         bufLen = bufLen + int (length hdrTransactionCount);
         countOff = bufLen;
         (buffer, buf) = appendTo buffer (itoa (TransactionCount header)) buf;
         cLen = sliceLen buffer - bufLen;
         bufLen = bufLen + cLen;
         (buffer, buf) = appendTo buffer hdrEnd buf in
     Inr (h\<lparr>previousHashListRoot := HashListRoot header, previousTime := bh_Time header,
       previousNonce := bh_Nonce header, previousTransactionCount := TransactionCount header,
       hashListRootOffset := rootOff, timeOffset := timeOff, nonceOffset := nonceOff,
       transactionCountOffset := countOff, timeLen := tLen, nonceLen := nLen, txCountLen := cLen,
       hh_initialized := True, hh_bufLen := (sliceLen buffer - bufLen) + bufLen, hh_buffer := buf\<rparr>))))))))))))"

section \<open>Updating the fields that changed\<close>

text \<open>Each step takes and returns \<^verbatim>\<open>offset\<close>, by how much the rest of the buffer has moved, and \<^verbatim>\<open>bufferChanged\<close>.\<close>

definition updateRoot :: "block_header \<Rightarrow> header_hasher \<Rightarrow> (bool \<times> header_hasher) result" where
  "updateRoot header h =
     (if previousHashListRoot h \<noteq> HashListRoot header
      then bindE (hexAt (hashListRootOffset h) (HashListRoot header) (hh_buffer h)) (\<lambda>buf.
        Inr (True, h\<lparr>previousHashListRoot := HashListRoot header, hh_buffer := buf\<rparr>))
      else Inr (False, h))"

definition updateTime :: "block_header \<Rightarrow> bool \<Rightarrow> header_hasher \<Rightarrow> (int \<times> bool \<times> header_hasher) result" where
  "updateTime header changed h =
     (if previousTime h \<noteq> bh_Time header
      then bindE (sliceTo (timeOffset h) (hh_buffer h)) (\<lambda>buffer.
        let (buffer, buf) = appendTo buffer (itoa (bh_Time header)) (hh_buffer h);
            tLen = sliceLen buffer - timeOffset h;
            bufLen = timeOffset h + tLen;
            offset = tLen - timeLen h;
            h = h\<lparr>previousTime := bh_Time header, timeLen := tLen\<rparr>
        in if offset \<noteq> 0
           then bindE (copyAt bufLen hdrTarget buf) (\<lambda>buf.
             let bufLen = bufLen + int (length hdrTarget) in
             bindE (hexAt bufLen (Target header) buf) (\<lambda>buf.
             let bufLen = bufLen + 64 in
             bindE (copyAt bufLen hdrChainWork buf) (\<lambda>buf.
             let bufLen = bufLen + int (length hdrChainWork) in
             bindE (hexAt bufLen (ChainWork header) buf) (\<lambda>buf.
             let bufLen = bufLen + 64 in
             bindE (copyAt bufLen hdrNonce buf) (\<lambda>buf. Inr (offset, True, h\<lparr>hh_buffer := buf\<rparr>))))))
           else Inr (offset, True, h\<lparr>hh_buffer := buf\<rparr>))
      else Inr (0, changed, h))"

definition updateNonce :: "bool \<Rightarrow> block_header \<Rightarrow> int \<Rightarrow> bool \<Rightarrow> header_hasher \<Rightarrow> (int \<times> bool \<times> header_hasher) result" where
  "updateNonce deviceMining header offset changed h =
     (if offset \<noteq> 0 \<or> (\<not> deviceMining \<and> previousNonce h \<noteq> bh_Nonce header)
      then let bufLen = nonceOffset h + offset in
        bindE (sliceTo bufLen (hh_buffer h)) (\<lambda>buffer.
          let (buffer, buf) = appendTo buffer (itoa (bh_Nonce header)) (hh_buffer h);
              nLen = sliceLen buffer - bufLen;
              offset = offset + (nLen - nonceLen h);
              h = h\<lparr>previousNonce := bh_Nonce header, nonceOffset := bufLen, nonceLen := nLen\<rparr>
          in if offset \<noteq> 0
             then let (buffer, buf) = appendTo buffer hdrHeight buf;
                      (buffer, buf) = appendTo buffer (itoa (Height header)) buf;
                      (buffer, buf) = appendTo buffer hdrTransactionCount buf
                  in Inr (offset, True, h\<lparr>hh_buffer := buf\<rparr>)
             else Inr (offset, True, h\<lparr>hh_buffer := buf\<rparr>))
      else Inr (offset, changed, h))"

definition updateCount :: "block_header \<Rightarrow> int \<Rightarrow> bool \<Rightarrow> header_hasher \<Rightarrow> (int \<times> bool \<times> header_hasher) result" where
  "updateCount header offset changed h =
     (if offset \<noteq> 0 \<or> previousTransactionCount h \<noteq> TransactionCount header
      then let bufLen = transactionCountOffset h + offset in
        bindE (sliceTo bufLen (hh_buffer h)) (\<lambda>buffer.
          let (buffer, buf) = appendTo buffer (itoa (TransactionCount header)) (hh_buffer h);
              cLen = sliceLen buffer - bufLen;
              offset = offset + (cLen - txCountLen h);
              h = h\<lparr>previousTransactionCount := TransactionCount header, transactionCountOffset := bufLen, txCountLen := cLen\<rparr>
          in if offset \<noteq> 0
             then let (buffer, buf) = appendTo buffer hdrEnd buf in Inr (offset, True, h\<lparr>hh_buffer := buf\<rparr>)
             else Inr (offset, True, h\<lparr>hh_buffer := buf\<rparr>))
      else Inr (offset, changed, h))"

definition updateBuffer :: "bool \<Rightarrow> block_header \<Rightarrow> header_hasher \<Rightarrow> (bool \<times> header_hasher) result" where
  "updateBuffer deviceMining header h =
     (if \<not> hh_initialized h then bindE (initBuffer header h) (\<lambda>h. Inr (True, h))
      else bindE (updateRoot header h) (\<lambda>(changed, h).
        bindE (updateTime header changed h) (\<lambda>(offset, changed, h).
        bindE (updateNonce deviceMining header offset changed h) (\<lambda>(offset, changed, h).
        bindE (updateCount header offset changed h) (\<lambda>(offset, changed, h).
          Inr (changed, h\<lparr>hh_bufLen := hh_bufLen h + offset\<rparr>))))))"

text \<open>
  What the device returns on one call of \<^verbatim>\<open>Update\<close>: the attempts it makes at a time, asked for only when the
  buffer changed, and the nonce it found.
\<close>

record device =
  MinerUpdate :: int
  MinerMine :: int

definition updateDevice :: "device \<Rightarrow> bool \<Rightarrow> header_hasher \<Rightarrow> int \<times> header_hasher" where
  "updateDevice dev bufferChanged h =
     (MinerMine dev, if bufferChanged then h\<lparr>hashesPerAttempt := MinerUpdate dev\<rparr> else h)"

definition hashBuffer :: "crypto \<Rightarrow> header_hasher \<Rightarrow> int result" where
  "hashBuffer cr h =
     (if hh_bufLen h < 0 \<or> hh_bufLen h > int (length (hh_buffer h)) then Inl boundsPanic
      else Inr (uint (sha3_256 cr (take (nat (hh_bufLen h)) (hh_buffer h)))))"

text \<open>The result, the number of attempts, the header with the nonce of the device, and the hasher.\<close>

definition Update ::
  "crypto \<Rightarrow> device option \<Rightarrow> block_header \<Rightarrow> header_hasher \<Rightarrow> (int \<times> int \<times> block_header \<times> header_hasher) result" where
  "Update cr dev header h =
     bindE (updateBuffer (dev \<noteq> None) header h) (\<lambda>(bufferChanged, h).
       case dev of
         None \<Rightarrow> bindE (hashBuffer cr h) (\<lambda>r. Inr (r, hashesPerAttempt h, header, h))
       | Some d \<Rightarrow>
           let (nonce, h) = updateDevice d bufferChanged h
           in if nonce = 9223372036854775807 then Inr (2 ^ 256 - 1, hashesPerAttempt h, header, h)
              else let header = header\<lparr>bh_Nonce := nonce\<rparr>
                   in bindE (initBuffer header h) (\<lambda>h.
                        bindE (hashBuffer cr h) (\<lambda>r. Inr (r, hashesPerAttempt h, header, h))))"

text \<open>A header keeps its hasher from one attempt to the next.\<close>

definition IDFast ::
  "crypto \<Rightarrow> device option \<Rightarrow> block_header \<Rightarrow> header_hasher option
    \<Rightarrow> (int \<times> int \<times> block_header \<times> header_hasher) result" where
  "IDFast cr dev header hasher =
     Update cr dev header (case hasher of None \<Rightarrow> NewBlockHeaderHasher | Some h \<Rightarrow> h)"

section \<open>Writing from the front\<close>

lemma hdr_json: "header_json h = hdrPrevious @ id_String (Previous h) @ hdrHashListRoot @ id_String (HashListRoot h)
   @ hdrTime @ itoa (bh_Time h) @ hdrTarget @ id_String (Target h) @ hdrChainWork @ id_String (ChainWork h)
   @ hdrNonce @ itoa (bh_Nonce h) @ hdrHeight @ itoa (Height h) @ hdrTransactionCount @ itoa (TransactionCount h) @ hdrEnd"
  by (simp add: header_json_def json_key_def json_opt_def id_MarshalJSON_def hdrPrevious_def hdrHashListRoot_def hdrTime_def
    hdrTarget_def hdrChainWork_def hdrNonce_def hdrHeight_def hdrTransactionCount_def hdrEnd_def str_def)
lemma length_hdr [simp]:
  "length hdrPrevious = 13" "length hdrHashListRoot = 20" "length hdrTime = 9" "length hdrTarget = 11"
  "length hdrChainWork = 16" "length hdrNonce = 10" "length hdrHeight = 10" "length hdrTransactionCount = 21"
  "length hdrEnd = 1"
  by (simp_all add: hdrPrevious_def hdrHashListRoot_def hdrTime_def hdrTarget_def hdrChainWork_def hdrNonce_def
      hdrHeight_def hdrTransactionCount_def hdrEnd_def)

text \<open>A buffer whose front has been overwritten.\<close>

definition over :: "bytes \<Rightarrow> bytes \<Rightarrow> bytes" where
  "over X B = X @ drop (length X) B"

lemma over_Nil [simp]: "over [] B = B"
  by (simp add: over_def)

lemma length_over [simp]: "length X \<le> length B \<Longrightarrow> length (over X B) = length B"
  by (simp add: over_def)

lemma take_over [simp]: "n = length X \<Longrightarrow> take n (over X B) = X"
  by (simp add: over_def)

lemma copyAt_over:
  "off = int (length X) \<Longrightarrow> length X + length xs \<le> length B \<Longrightarrow> copyAt off xs (over X B) = Inr (over (X @ xs) B)"
  by (simp add: copyAt_def over_def add.commute)

lemma hexAt_over:
  "off = int (length X) \<Longrightarrow> length X + 64 \<le> length B \<Longrightarrow> hexAt off i (over X B) = Inr (over (X @ id_String i) B)"
  by (simp add: hexAt_def copyAt_over)

lemma sliceTo_over:
  "off = int (length X) \<Longrightarrow> length X \<le> length B \<Longrightarrow> sliceTo off (over X B) = Inr (InPlace off)"
  by (simp add: sliceTo_def)

lemma appendTo_over:
  "off = int (length X) \<Longrightarrow> length X + length xs \<le> length B \<Longrightarrow>
    appendTo (InPlace off) xs (over X B) = (InPlace (off + int (length xs)), over (X @ xs) B)"
  by (simp add: appendTo.simps over_def add.commute)

declare appendTo.simps(1) [simp del]

lemmas over_simps = copyAt_over hexAt_over sliceTo_over appendTo_over

text \<open>A part that stays where it was need not be written.\<close>

lemma over_skip: "B = Y @ s @ Z \<Longrightarrow> length Y = length X \<Longrightarrow> over X B = over (X @ s) B"
  by (simp add: over_def)

definition inRange :: "block_header \<Rightarrow> bool" where
  "inRange h \<longleftrightarrow> bh_Time h \<in> {0..9223372036854775807} \<and> bh_Nonce h \<in> {0..9223372036854775807}
     \<and> Height h \<in> {0..9223372036854775807} \<and> TransactionCount h \<in> {0..2147483647}"

lemma inRange_len:
  assumes "inRange h"
  shows "length (itoa (bh_Time h)) \<le> 19" "length (itoa (bh_Nonce h)) \<le> 19" "length (itoa (Height h)) \<le> 19"
    "length (itoa (TransactionCount h)) \<le> 10"
  using assms by (auto simp: inRange_def intro!: length_itoa)

abbreviation capacity :: nat where
  "capacity \<equiv> 434"

text \<open>The parts of the serialized header: what may change between attempts, and what is between it.\<close>

definition beforeRoot :: "block_header \<Rightarrow> bytes" where
  "beforeRoot h = hdrPrevious @ id_String (Previous h) @ hdrHashListRoot"

definition beforeTime :: "block_header \<Rightarrow> bytes" where
  "beforeTime h = beforeRoot h @ id_String (HashListRoot h) @ hdrTime"

definition timeToNonce :: "block_header \<Rightarrow> bytes" where
  "timeToNonce h = hdrTarget @ id_String (Target h) @ hdrChainWork @ id_String (ChainWork h) @ hdrNonce"

definition beforeNonce :: "block_header \<Rightarrow> bytes" where
  "beforeNonce h = beforeTime h @ itoa (bh_Time h) @ timeToNonce h"

definition nonceToCount :: "block_header \<Rightarrow> bytes" where
  "nonceToCount h = hdrHeight @ itoa (Height h) @ hdrTransactionCount"

definition beforeCount :: "block_header \<Rightarrow> bytes" where
  "beforeCount h = beforeNonce h @ itoa (bh_Nonce h) @ nonceToCount h"

lemmas part_defs = beforeRoot_def beforeTime_def beforeNonce_def beforeCount_def timeToNonce_def nonceToCount_def

lemma json_parts: "header_json h = beforeCount h @ itoa (TransactionCount h) @ hdrEnd"
  by (simp add: hdr_json part_defs)

lemma length_parts [simp]:
  "length (beforeRoot h) = 97" "length (beforeTime h) = 170" "length (timeToNonce h) = 165"
  "length (nonceToCount h) = length (itoa (Height h)) + 31"
  "length (beforeNonce h) = length (itoa (bh_Time h)) + 335"
  "length (beforeCount h) = length (itoa (bh_Time h)) + length (itoa (bh_Nonce h)) + length (itoa (Height h)) + 366"
  by (simp_all add: part_defs)

lemma length_json: "inRange h \<Longrightarrow> length (header_json h) \<le> capacity"
  using inRange_len by (fastforce simp: hdr_json)

text \<open>The header encoded in the buffer, and what the hasher has recorded about it.\<close>

definition encodes :: "header_hasher \<Rightarrow> block_header \<Rightarrow> bool" where
  "encodes h e \<longleftrightarrow> hh_initialized h \<and> length (hh_buffer h) = capacity \<and> inRange e
     \<and> take (length (header_json e)) (hh_buffer h) = header_json e \<and> hh_bufLen h = int (length (header_json e))
     \<and> previousHashListRoot h = HashListRoot e \<and> previousTime h = bh_Time e \<and> previousNonce h = bh_Nonce e
     \<and> previousTransactionCount h = TransactionCount e
     \<and> hashListRootOffset h = int (length (beforeRoot e)) \<and> timeOffset h = int (length (beforeTime e))
     \<and> nonceOffset h = int (length (beforeNonce e)) \<and> transactionCountOffset h = int (length (beforeCount e))
     \<and> timeLen h = int (length (itoa (bh_Time e))) \<and> nonceLen h = int (length (itoa (bh_Nonce e)))
     \<and> txCountLen h = int (length (itoa (TransactionCount e)))"

lemma initBuffer_encodes:
  assumes r: "inRange header" and l: "length (hh_buffer h) = capacity"
  shows "\<exists>h'. initBuffer header h = Inr h' \<and> encodes h' header \<and> hashesPerAttempt h' = hashesPerAttempt h"
proof -
  obtain B where B: "hh_buffer h = over [] B" "length B = capacity" using l by simp
  note n = inRange_len [OF r]
  show ?thesis unfolding initBuffer_def Let_def B(1)
    using n B(2) r
    by (simp add: over_simps encodes_def part_defs json_parts del: over_Nil)
qed

section \<open>Each step rewrites what changed\<close>

lemma updateRoot_over:
  assumes r: "previousHashListRoot h = r" "hashListRootOffset h = int (length X)" "hh_buffer h = over X B"
    and B: "B = Y @ id_String r @ hdrTime @ Z" "length Y = length X"
  shows "\<exists>c. updateRoot header h = Inr (c, h\<lparr>previousHashListRoot := HashListRoot header,
    hh_buffer := over (X @ id_String (HashListRoot header) @ hdrTime) B\<rparr>)"
proof (cases "r = HashListRoot header")
  case True
  have "over X B = over (X @ id_String r @ hdrTime) B"
    using B over_skip [of B Y "id_String r @ hdrTime"] by simp
  with r True show ?thesis by (intro exI [of _ False]) (simp add: updateRoot_def)
next
  case False
  have "over (X @ id_String (HashListRoot header)) B = over (X @ id_String (HashListRoot header) @ hdrTime) B"
    using B over_skip [of B "Y @ id_String r" hdrTime Z] by simp
  with r False B show ?thesis by (intro exI [of _ True]) (simp add: updateRoot_def over_simps)
qed

lemma updateTime_over:
  assumes h: "previousTime h = t" "timeOffset h = int (length X)" "timeLen h = int (length (itoa t))" "hh_buffer h = over X B"
    and B: "B = Y @ itoa t @ timeToNonce header @ Z" "length Y = length X"
    and l: "length X + length (itoa (bh_Time header)) + length (timeToNonce header) \<le> length B"
  shows "\<exists>c. updateTime header c0 h = Inr (int (length (itoa (bh_Time header))) - int (length (itoa t)), c,
    h\<lparr>previousTime := bh_Time header, timeLen := int (length (itoa (bh_Time header))),
      hh_buffer := over (X @ itoa (bh_Time header) @ timeToNonce header) B\<rparr>)"
proof (cases "t = bh_Time header")
  case True
  have "over X B = over (X @ itoa t @ timeToNonce header) B"
    using B over_skip [of B Y "itoa t @ timeToNonce header"] by simp
  with h True show ?thesis by (intro exI [of _ c0]) (simp add: updateTime_def)
next
  case False
  have "over (X @ itoa (bh_Time header)) B = over (X @ itoa (bh_Time header) @ timeToNonce header) B"
    if "length (itoa (bh_Time header)) = length (itoa t)"
    using B that over_skip [of B "Y @ itoa t" "timeToNonce header" Z] by simp
  with h False B l show ?thesis
    by (intro exI [of _ True]) (auto simp: updateTime_def over_simps Let_def timeToNonce_def)
qed

lemma updateNonce_over:
  assumes h: "previousNonce h = n" "nonceOffset h = int (length Y)" "nonceLen h = int (length (itoa n))" "hh_buffer h = over X B"
    and B: "B = Y @ itoa n @ nonceToCount header @ Z" and off: "offset = int (length X) - int (length Y)"
    and l: "length X + length (itoa (bh_Nonce header)) + length (nonceToCount header) \<le> length B"
    and n': "n' = (if dev \<and> offset = 0 then n else bh_Nonce header)"
  shows "\<exists>c. updateNonce dev header offset c0 h = Inr (int (length X) - int (length Y) + int (length (itoa n')) - int (length (itoa n)), c,
    h\<lparr>previousNonce := n', nonceOffset := int (length X), nonceLen := int (length (itoa n')),
      hh_buffer := over (X @ itoa n' @ nonceToCount header) B\<rparr>)"
proof (cases "offset = 0 \<and> (dev \<or> n = bh_Nonce header)")
  case True
  have "over X B = over (X @ itoa n @ nonceToCount header) B"
    using B True off over_skip [of B Y "itoa n @ nonceToCount header"] by simp
  with h True off n' show ?thesis by (intro exI [of _ c0]) (auto simp: updateNonce_def)
next
  case False
  then have nn: "n' = bh_Nonce header" using n' by auto
  have "over (X @ itoa n') B = over (X @ itoa n' @ nonceToCount header) B"
    if "offset + (int (length (itoa n')) - int (length (itoa n))) = 0"
    using B that off over_skip [of B "Y @ itoa n" "nonceToCount header" Z "X @ itoa n'"] by simp
  with h False B l nn off show ?thesis
    by (intro exI [of _ True]) (auto simp: updateNonce_def over_simps Let_def nonceToCount_def)
qed

lemma updateCount_over:
  assumes h: "previousTransactionCount h = n" "transactionCountOffset h = int (length Y)" "txCountLen h = int (length (itoa n))"
      "hh_buffer h = over X B"
    and B: "B = Y @ itoa n @ hdrEnd @ Z" and off: "offset = int (length X) - int (length Y)"
    and l: "length X + length (itoa (TransactionCount header)) + 1 \<le> length B"
  shows "\<exists>c. updateCount header offset c0 h = Inr (int (length X) - int (length Y) + int (length (itoa (TransactionCount header)))
      - int (length (itoa n)), c,
    h\<lparr>previousTransactionCount := TransactionCount header, transactionCountOffset := int (length X),
      txCountLen := int (length (itoa (TransactionCount header))),
      hh_buffer := over (X @ itoa (TransactionCount header) @ hdrEnd) B\<rparr>)"
proof (cases "offset = 0 \<and> n = TransactionCount header")
  case True
  have "over X B = over (X @ itoa n @ hdrEnd) B"
    using B True off over_skip [of B Y "itoa n @ hdrEnd"] by simp
  with h True off show ?thesis by (intro exI [of _ c0]) (auto simp: updateCount_def)
next
  case False
  have "over (X @ itoa (TransactionCount header)) B = over (X @ itoa (TransactionCount header) @ hdrEnd) B"
    if "offset + (int (length (itoa (TransactionCount header))) - int (length (itoa n))) = 0"
    using B that off over_skip [of B "Y @ itoa n" hdrEnd Z "X @ itoa (TransactionCount header)"] by simp
  with h False B l off show ?thesis
    by (intro exI [of _ True]) (auto simp: updateCount_def over_simps Let_def)
qed

text \<open>Between attempts a miner changes the hash list root, the time, the nonce and the transaction count only.\<close>

definition sameTemplate :: "block_header \<Rightarrow> block_header \<Rightarrow> bool" where
  "sameTemplate g h \<longleftrightarrow> Previous g = Previous h \<and> Target g = Target h \<and> ChainWork g = ChainWork h \<and> Height g = Height h"

lemma updateBuffer_encodes:
  assumes e: "encodes h e" and s: "sameTemplate e header" and r: "inRange header"
  shows "\<exists>c h' n'. updateBuffer dev header h = Inr (c, h') \<and> encodes h' (header\<lparr>bh_Nonce := n'\<rparr>)
    \<and> hashesPerAttempt h' = hashesPerAttempt h \<and> (\<not> dev \<longrightarrow> n' = bh_Nonce header)"
proof -
  let ?B = "hh_buffer h"
  obtain Z where B: "?B = header_json e @ Z" and lB: "length ?B = capacity" and re: "inRange e" and i: "hh_initialized h"
    using e unfolding encodes_def by (metis append_take_drop_id)
  have t: "beforeRoot e = beforeRoot header" "timeToNonce e = timeToNonce header" "nonceToCount e = nonceToCount header"
    using s by (simp_all add: sameTemplate_def part_defs)
  note L = inRange_len [OF r] and Le = inRange_len [OF re]
  define dn where "dn \<longleftrightarrow> dev \<and> int (length (beforeNonce header)) - int (length (beforeNonce e)) = 0"
  define n' where "n' = (if dn then bh_Nonce e else bh_Nonce header)"
  let ?e = "header\<lparr>bh_Nonce := n'\<rparr>"
  have nr: "inRange ?e" using r re by (auto simp: inRange_def n'_def)
  have ln: "length (itoa n') \<le> 19" using L Le by (simp add: n'_def)
  have eq: "beforeNonce ?e = beforeNonce header" "beforeTime ?e = beforeTime header" "beforeRoot ?e = beforeRoot header"
    "beforeCount ?e = beforeNonce header @ itoa n' @ nonceToCount header"
    by (simp_all add: part_defs)
  have B4: "?B = beforeCount e @ itoa (TransactionCount e) @ hdrEnd @ Z" by (simp add: B json_parts)
  obtain Z3 where B3: "?B = beforeNonce e @ itoa (bh_Nonce e) @ nonceToCount header @ Z3"
    using B4 by (simp add: beforeCount_def t)
  obtain Z2 where B2: "?B = beforeTime e @ itoa (bh_Time e) @ timeToNonce header @ Z2"
    using B3 by (simp add: beforeNonce_def t)
  obtain Z1 where B1: "?B = beforeRoot e @ id_String (HashListRoot e) @ hdrTime @ Z1"
    using B2 by (simp add: beforeTime_def)
  have f: "previousHashListRoot h = HashListRoot e" "previousTime h = bh_Time e" "previousNonce h = bh_Nonce e"
    "previousTransactionCount h = TransactionCount e"
    "hashListRootOffset h = int (length (beforeRoot header))" "timeOffset h = int (length (beforeTime header))"
    "nonceOffset h = int (length (beforeNonce e))" "transactionCountOffset h = int (length (beforeCount e))"
    "timeLen h = int (length (itoa (bh_Time e)))" "nonceLen h = int (length (itoa (bh_Nonce e)))"
    "txCountLen h = int (length (itoa (TransactionCount e)))" "hh_bufLen h = int (length (header_json e))"
    using e by (simp_all add: encodes_def)
  have sk: "?B = over (beforeRoot header) ?B" using over_skip [of ?B "[]" "beforeRoot e" _ "[]"] B1 t(1) by simp
  obtain c1 where u1: "updateRoot header h = Inr (c1, h\<lparr>previousHashListRoot := HashListRoot header,
      hh_buffer := over (beforeTime header) ?B\<rparr>)" (is "_ = Inr (_, ?h1)")
    using updateRoot_over [OF f(1,5) sk B1] by (auto simp: beforeTime_def)
  obtain c2 where u2: "updateTime header c1 ?h1 = Inr (int (length (itoa (bh_Time header))) - int (length (itoa (bh_Time e))), c2,
      ?h1\<lparr>previousTime := bh_Time header, timeLen := int (length (itoa (bh_Time header))), hh_buffer := over (beforeNonce header) ?B\<rparr>)"
      (is "_ = Inr (?o1, _, ?h2)")
    using updateTime_over [of ?h1 "bh_Time e" "beforeTime header" ?B "beforeTime e" header Z2 c1] f B2 L lB
    by (auto simp: beforeNonce_def)
  have o1: "?o1 = int (length (beforeNonce header)) - int (length (beforeNonce e))" by (simp add: beforeNonce_def)
  have p3: "previousNonce ?h2 = bh_Nonce e" "nonceOffset ?h2 = int (length (beforeNonce e))"
    "nonceLen ?h2 = int (length (itoa (bh_Nonce e)))" "hh_buffer ?h2 = over (beforeNonce header) ?B" by (simp_all add: f)
  have l3: "length (beforeNonce header) + length (itoa (bh_Nonce header)) + length (nonceToCount header) \<le> length ?B"
    using L lB by simp
  have n3: "n' = (if dev \<and> ?o1 = 0 then bh_Nonce e else bh_Nonce header)" by (simp add: n'_def dn_def)
  have o2: "int (length (beforeNonce header)) - int (length (beforeNonce e)) + int (length (itoa n')) - int (length (itoa (bh_Nonce e)))
      = int (length (beforeCount ?e)) - int (length (beforeCount e))"
    unfolding eq(4) by (simp add: beforeCount_def t)
  obtain c3 where u3: "updateNonce dev header ?o1 c2 ?h2 = Inr (int (length (beforeCount ?e)) - int (length (beforeCount e)), c3,
      ?h2\<lparr>previousNonce := n', nonceOffset := int (length (beforeNonce header)), nonceLen := int (length (itoa n')),
        hh_buffer := over (beforeCount ?e) ?B\<rparr>)" (is "_ = Inr (?o2, _, ?h3)")
    using updateNonce_over [OF p3 B3 o1 l3 n3, of c2] unfolding o2 eq(4) [symmetric] by blast
  have p4: "previousTransactionCount ?h3 = TransactionCount e" "transactionCountOffset ?h3 = int (length (beforeCount e))"
    "txCountLen ?h3 = int (length (itoa (TransactionCount e)))" "hh_buffer ?h3 = over (beforeCount ?e) ?B" by (simp_all add: f)
  have l4: "length (beforeCount ?e) + length (itoa (TransactionCount header)) + 1 \<le> length ?B"
    using L ln lB by simp
  have o3: "int (length (beforeCount ?e)) - int (length (beforeCount e)) + int (length (itoa (TransactionCount header)))
      - int (length (itoa (TransactionCount e))) = int (length (header_json ?e)) - int (length (header_json e))"
    by (simp add: json_parts)
  have j: "beforeCount ?e @ itoa (TransactionCount header) @ hdrEnd = header_json ?e" by (simp add: json_parts)
  obtain c4 where u4: "updateCount header ?o2 c3 ?h3 = Inr (int (length (header_json ?e)) - int (length (header_json e)), c4,
      ?h3\<lparr>previousTransactionCount := TransactionCount header, transactionCountOffset := int (length (beforeCount ?e)),
        txCountLen := int (length (itoa (TransactionCount header))), hh_buffer := over (header_json ?e) ?B\<rparr>)" (is "_ = Inr (_, _, ?h4)")
    using updateCount_over [OF p4 B4 refl l4, of c3] unfolding o3 j by blast
  let ?h5 = "?h4\<lparr>hh_bufLen := hh_bufLen ?h4 + (int (length (header_json ?e)) - int (length (header_json e)))\<rparr>"
  have "updateBuffer dev header h = Inr (c4, ?h5)"
    unfolding updateBuffer_def by (simp only: i not_True_eq_False if_False u1 u2 u3 u4 bindE_simps prod.case)
  moreover have "encodes ?h5 ?e"
    unfolding encodes_def using nr length_json [OF nr] lB by (simp add: i f eq)
  moreover have "hashesPerAttempt ?h5 = hashesPerAttempt h" by simp
  moreover have "\<not> dev \<longrightarrow> n' = bh_Nonce header" by (simp add: n'_def dn_def)
  ultimately show ?thesis by blast
qed

section \<open>Runs of attempts\<close>

definition ready :: "block_header \<Rightarrow> header_hasher \<Rightarrow> bool" where
  "ready g h \<longleftrightarrow> length (hh_buffer h) = capacity \<and> (hh_initialized h \<longrightarrow> (\<exists>e. encodes h e \<and> sameTemplate e g))"

definition deviceRange :: "device option \<Rightarrow> bool" where
  "deviceRange dev \<longleftrightarrow> (case dev of None \<Rightarrow> True | Some d \<Rightarrow> MinerMine d \<in> {0..9223372036854775807})"

lemma updateBuffer_ready:
  assumes h: "ready g h" and s: "sameTemplate header g" and r: "inRange header"
  shows "\<exists>c h' n'. updateBuffer dev header h = Inr (c, h') \<and> encodes h' (header\<lparr>bh_Nonce := n'\<rparr>)
    \<and> hashesPerAttempt h' = hashesPerAttempt h \<and> (\<not> dev \<longrightarrow> n' = bh_Nonce header)"
proof (cases "hh_initialized h")
  case True
  with h obtain e where "encodes h e" "sameTemplate e g" by (auto simp: ready_def)
  with updateBuffer_encodes [of h e header dev] s r show ?thesis by (auto simp: sameTemplate_def)
next
  case False
  obtain h' where h': "initBuffer header h = Inr h'" "encodes h' header" "hashesPerAttempt h' = hashesPerAttempt h"
    using initBuffer_encodes [OF r, of h] h by (auto simp: ready_def)
  show ?thesis
    by (rule exI [of _ True], rule exI [of _ h'], rule exI [of _ "bh_Nonce header"])
      (simp add: updateBuffer_def False h')
qed

lemma encodes_hash: "encodes h e \<Longrightarrow> hashBuffer cr h = Inr (GetBigInt (header_ID cr e))"
  using length_json [of e] by (auto simp: encodes_def hashBuffer_def header_ID_def GetBigInt_def)

lemma encodes_ready: "encodes h e \<Longrightarrow> sameTemplate e g \<Longrightarrow> ready g h"
  by (auto simp: ready_def encodes_def)

lemma Update_correct:
  assumes h: "ready g h" and s: "sameTemplate header g" and r: "inRange header" and d: "deviceRange dev"
  shows "\<exists>n header' h'. Update cr dev header h
      = Inr (if header' = header \<and> dev \<noteq> None \<and> MinerMine (the dev) = 9223372036854775807 then 2 ^ 256 - 1
             else GetBigInt (header_ID cr header'), n, header', h')
    \<and> ready g h' \<and> n = hashesPerAttempt h' \<and> (dev = None \<longrightarrow> hashesPerAttempt h' = hashesPerAttempt h) \<and> header' = (case dev of None \<Rightarrow> header
        | Some d \<Rightarrow> if MinerMine d = 9223372036854775807 then header else header\<lparr>bh_Nonce := MinerMine d\<rparr>)"
proof -
  obtain c h1 n' where u: "updateBuffer (dev \<noteq> None) header h = Inr (c, h1)" "encodes h1 (header\<lparr>bh_Nonce := n'\<rparr>)"
    "dev = None \<longrightarrow> n' = bh_Nonce header" "hashesPerAttempt h1 = hashesPerAttempt h"
    using updateBuffer_ready [OF h s r, of "dev \<noteq> None"] by auto
  have s1: "sameTemplate (header\<lparr>bh_Nonce := n'\<rparr>) g" using s by (simp add: sameTemplate_def)
  show ?thesis
  proof (cases dev)
    case None
    then have "encodes h1 header" using u by simp
    with None u(1,4) encodes_hash [of h1 header cr] encodes_ready [of h1 header g] s show ?thesis by (simp add: Update_def)
  next
    case (Some d)
    obtain h2 where h2: "updateDevice d c h1 = (MinerMine d, h2)" "encodes h2 (header\<lparr>bh_Nonce := n'\<rparr>)"
      using u(2) by (auto simp: updateDevice_def encodes_def)
    show ?thesis
    proof (cases "MinerMine d = 9223372036854775807")
      case True
      with Some u(1) h2 encodes_ready [OF h2(2) s1] show ?thesis by (simp add: Update_def)
    next
      case False
      let ?h = "header\<lparr>bh_Nonce := MinerMine d\<rparr>"
      have ir: "inRange ?h" using r d Some by (simp add: inRange_def deviceRange_def)
      have "length (hh_buffer h2) = capacity" using h2(2) by (simp add: encodes_def)
      then obtain h3 where h3: "initBuffer ?h h2 = Inr h3" "encodes h3 ?h" using initBuffer_encodes [OF ir] by blast
      have "sameTemplate ?h g" using s by (simp add: sameTemplate_def)
      with False Some u(1) h2 h3 encodes_hash [OF h3(2)] encodes_ready [OF h3(2)] show ?thesis
        by (simp add: Update_def Let_def)
    qed
  qed
qed

text \<open>The hasher of a header after any number of attempts, on the processor or on a device, over one block template.\<close>

inductive attempted :: "crypto \<Rightarrow> block_header \<Rightarrow> header_hasher option \<Rightarrow> bool" for cr g where
  first: "attempted cr g None"
| again: "attempted cr g hasher \<Longrightarrow> sameTemplate header g \<Longrightarrow> inRange header \<Longrightarrow> deviceRange dev \<Longrightarrow>
    IDFast cr dev header hasher = Inr (r, n, header', h) \<Longrightarrow> attempted cr g (Some h)"

lemma attempted_ready:
  "attempted cr g hasher \<Longrightarrow> ready g (case hasher of None \<Rightarrow> NewBlockHeaderHasher | Some h \<Rightarrow> h)"
proof (induction rule: attempted.induct)
  case first
  then show ?case by (simp add: ready_def NewBlockHeaderHasher_def)
next
  case (again hasher header dev r n header' h)
  with Update_correct [OF again.IH again.hyps(2-4), of cr] show ?case by (auto simp: IDFast_def)
qed

section \<open>Property\<close>

text \<open>
  C16 (equivalence). The hasher the miners use computes the identifier of the header. However often the time, the nonce,
  the transaction count and the hash list root have changed since the buffer was filled, and whichever of the decimal
  fields grew or shrank, \<^verbatim>\<open>IDFast\<close> never panics, and on a processor returns the number of \<^verbatim>\<open>ID\<close>, the hash of the
  serialized header. With a device it returns the largest number when the device found nothing, and otherwise the
  number of the identifier of the header with the nonce of the device.
\<close>

theorem hasher_computes_ID:
  assumes "attempted cr g hasher" "sameTemplate header g" "inRange header" "deviceRange dev"
  shows "\<exists>n h'. case dev of
      None \<Rightarrow> IDFast cr dev header hasher = Inr (GetBigInt (header_ID cr header), n, header, h')
    | Some d \<Rightarrow> (if MinerMine d = 9223372036854775807
        then IDFast cr dev header hasher = Inr (2 ^ 256 - 1, n, header, h')
        else IDFast cr dev header hasher = Inr (GetBigInt (header_ID cr (header\<lparr>bh_Nonce := MinerMine d\<rparr>)), n,
          header\<lparr>bh_Nonce := MinerMine d\<rparr>, h'))"
proof -
  from Update_correct [OF attempted_ready [OF assms(1)] assms(2-4), of cr] obtain n header' h' where
    u: "IDFast cr dev header hasher
      = Inr (if header' = header \<and> dev \<noteq> None \<and> MinerMine (the dev) = 9223372036854775807 then 2 ^ 256 - 1
             else GetBigInt (header_ID cr header'), n, header', h')"
    "header' = (case dev of None \<Rightarrow> header
        | Some d \<Rightarrow> if MinerMine d = 9223372036854775807 then header else header\<lparr>bh_Nonce := MinerMine d\<rparr>)"
    unfolding IDFast_def by blast
  show ?thesis using u by (cases dev) auto
qed

definition sample_template :: block_header where
  "sample_template = \<lparr>Previous = 1, HashListRoot = 2, bh_Time = 9, Target = 3, ChainWork = 4, bh_Nonce = 99,
     Height = 5, TransactionCount = 1\<rparr>"

theorem hasher_computes_ID_witness:
  "\<exists>n h n' h'. IDFast sample_crypto None sample_template None
      = Inr (GetBigInt (header_ID sample_crypto sample_template), n, sample_template, h)
    \<and> IDFast sample_crypto None (sample_template\<lparr>bh_Nonce := 100, bh_Time := 10\<rparr>) (Some h)
      = Inr (GetBigInt (header_ID sample_crypto (sample_template\<lparr>bh_Nonce := 100, bh_Time := 10\<rparr>)), n',
          sample_template\<lparr>bh_Nonce := 100, bh_Time := 10\<rparr>, h')"
proof -
  let ?g = sample_template and ?h = "sample_template\<lparr>bh_Nonce := 100, bh_Time := 10\<rparr>"
  have s: "sameTemplate ?g ?g" "sameTemplate ?h ?g" "inRange ?g" "inRange ?h"
    by (simp_all add: sameTemplate_def inRange_def sample_template_def)
  have d: "deviceRange None" by (simp add: deviceRange_def)
  obtain n h where i: "IDFast sample_crypto None ?g None = Inr (GetBigInt (header_ID sample_crypto ?g), n, ?g, h)"
    using hasher_computes_ID [OF attempted.first s(1,3) d, of sample_crypto] by auto
  from hasher_computes_ID [OF attempted.again [OF attempted.first s(1,3) d i] s(2,4) d] i show ?thesis by auto
qed

end
