(* ===== verification/Miner.thy ===== *)
theory Miner
  imports Processor Header_Hasher
begin

text \<open>
  \<^verbatim>\<open>src/miner.go\<close> and \<^verbatim>\<open>IsInitialBlockDownload\<close> of \<^verbatim>\<open>src/peer_manager.go\<close>: the goroutine that builds a block on the
  tip and tries nonces for it. One turn of the model is one pass of its \<^verbatim>\<open>select\<close>. It reads the queue, the ledger and
  the block store the processor owns. What it sends, the hash counts and the blocks it submits to \<^verbatim>\<open>ProcessBlock\<close>
  (whose error is only logged), is kept in logs. The clock and the random numbers are arguments. A panic ends the
  process.
\<close>

section \<open>Initial download\<close>

definition IsInitialBlockDownload :: "ledger \<Rightarrow> block_store \<Rightarrow> int \<Rightarrow> (bool \<times> int) result" where
  "IsInitialBlockDownload l bs now =
     bindE (getChainTipHeader l bs) (\<lambda>tip.
       case tip of None \<Rightarrow> Inr (True, 0)
       | Some (tipID, tipHeader, _) \<Rightarrow>
           (case tipHeader of None \<Rightarrow> Inr (True, 0)
            | Some h \<Rightarrow>
                if CheckpointsEnabled \<and> Height h < LatestCheckpointHeight then Inr (True, Height h)
                else Inr (bh_Time h < i64 (now - MAX_TIP_AGE), Height h)))"

section \<open>Building a block\<close>

text \<open>The clock and the random numbers of one block: of the coinbase and of the header.\<close>

record chance =
  c_txTime :: int
  c_txNonce :: int
  c_blockTime :: int
  c_blockNonce :: int

fun sumFees :: "transaction list \<Rightarrow> int \<Rightarrow> int" where
  "sumFees [] feeSum = feeSum"
| "sumFees (tx # txs) feeSum = sumFees txs (i64 (feeSum + tx_Fee tx))"

definition createNextBlock ::
  "crypto \<Rightarrow> chance \<Rightarrow> block_id \<Rightarrow> block_header option \<Rightarrow> tx_queue \<Rightarrow> block_store \<Rightarrow> ledger \<Rightarrow> bytes \<Rightarrow> bytes
    \<Rightarrow> mining_block result" where
  "createNextBlock cr ch tipID tipHeader q bs l pubKey memo =
     bindE (tq_Get (int MAX_TRANSACTIONS_TO_INCLUDE_PER_BLOCK - 1) q) (\<lambda>txs.
       case tipHeader of None \<Rightarrow> Inl nilDereference
       | Some tipHeader \<Rightarrow>
           let feeSum = sumFees txs 0;
               newHeight = i64 (Height tipHeader + 1);
               reward = i64 (BlockCreationReward newHeight + feeSum);
               tx = NewTransaction (c_txTime ch) (c_txNonce ch) None (Some pubKey) reward 0 0 0 newHeight memo
           in bindE (computeTarget tipHeader bs l) (\<lambda>newTarget.
                NewBlock cr (c_blockTime ch) (c_blockNonce ch) tipID newHeight newTarget (ChainWork tipHeader) (tx # txs)))"

section \<open>The miner\<close>

record miner =
  m_pubKeys :: "bytes list"
  m_memo :: bytes
  m_keyIndex :: nat
  m_block :: "(mining_block \<times> header_hasher option) option"
  m_medianTimestamp :: int
  m_targetInt :: int
  m_hashes :: int
  m_stopped :: bool
  m_hashUpdates :: "int list"
  m_submitted :: "(block_id \<times> block) list"

definition NewMiner :: "bytes list \<Rightarrow> bytes \<Rightarrow> nat \<Rightarrow> miner result" where
  "NewMiner pubKeys memo random =
     (if pubKeys = [] then Inl (Panic ''invalid argument to Intn'')
      else Inr \<lparr>m_pubKeys = pubKeys, m_memo = memo, m_keyIndex = random mod length pubKeys, m_block = None,
        m_medianTimestamp = 0, m_targetInt = 0, m_hashes = 0, m_stopped = False, m_hashUpdates = [], m_submitted = []\<rparr>)"

text \<open>Every error met while building a block is a panic of the miner.\<close>

definition orPanic :: "'a result \<Rightarrow> 'a result" where
  "orPanic r = (case r of Inl _ \<Rightarrow> Inl (Panic ''ledger state is broken'') | Inr x \<Rightarrow> Inr x)"

definition beginBlock :: "crypto \<Rightarrow> chance \<Rightarrow> block_id \<Rightarrow> block_header option \<Rightarrow> processor \<Rightarrow> miner \<Rightarrow> miner result" where
  "beginBlock cr ch tipID tipHeader p m =
     (if m_keyIndex m \<ge> length (m_pubKeys m) then Inl (Panic ''index out of range'')
      else bindE (orPanic (createNextBlock cr ch tipID tipHeader (p_txQueue p) (p_blockStore p) (p_ledger p)
            (m_pubKeys m ! m_keyIndex m) (m_memo m))) (\<lambda>b.
        case tipHeader of None \<Rightarrow> Inl nilDereference
        | Some h \<Rightarrow>
            bindE (orPanic (computeMedianTimestamp h (p_blockStore p))) (\<lambda>medianTimestamp.
              let b = (if bh_Time (Header b) \<le> medianTimestamp
                       then b\<lparr>Header := (Header b)\<lparr>bh_Time := i64 (medianTimestamp + 1)\<rparr>\<rparr> else b)
              in Inr (m\<lparr>m_block := Some (b, None), m_medianTimestamp := medianTimestamp,
                   m_targetInt := GetBigInt (Target (Header b))\<rparr>))))"

definition onTipChange :: "crypto \<Rightarrow> chance \<Rightarrow> tip_change \<Rightarrow> processor \<Rightarrow> miner \<Rightarrow> miner result" where
  "onTipChange cr ch tip p m =
     (if \<not> tc_Connect tip \<or> tc_More tip then Inr m
      else beginBlock cr ch (tc_BlockID tip) (Some (Header (tc_Block tip))) p m)"

text \<open>A panic of \<^verbatim>\<open>AddTransaction\<close> is not an error it returns.\<close>

definition onNewTx :: "crypto \<Rightarrow> new_tx \<Rightarrow> miner \<Rightarrow> miner result" where
  "onNewTx cr newTx m =
     (case m_block m of None \<Rightarrow> Inr m
      | Some (b, hasher) \<Rightarrow>
          if MAX_TRANSACTIONS_TO_INCLUDE_PER_BLOCK \<noteq> 0
            \<and> length (Transactions b) \<ge> MAX_TRANSACTIONS_TO_INCLUDE_PER_BLOCK then Inr m
          else (case AddTransaction cr (nt_TransactionID newTx) (nt_Transaction newTx) b of
                  Inl (Panic s) \<Rightarrow> Inl (Panic s)
                | Inl _ \<Rightarrow> Inr (m\<lparr>m_block := None\<rparr>)
                | Inr b \<Rightarrow> Inr (m\<lparr>m_block := Some (b, hasher)\<rparr>)))"

definition onTick :: "int \<Rightarrow> miner \<Rightarrow> miner" where
  "onTick now m =
     (let m = m\<lparr>m_hashUpdates := m_hashUpdates m @ [m_hashes m], m_hashes := 0\<rparr>
      in case m_block m of None \<Rightarrow> m
         | Some (b, hasher) \<Rightarrow>
             if now > m_medianTimestamp m
             then m\<lparr>m_block := Some (b\<lparr>Header := (Header b)\<lparr>bh_Time := now\<rparr>\<rparr>, hasher)\<rparr> else m)"

definition ensureBlock :: "crypto \<Rightarrow> chance \<Rightarrow> processor \<Rightarrow> miner \<Rightarrow> miner result" where
  "ensureBlock cr ch p m =
     (case m_block m of Some _ \<Rightarrow> Inr m
      | None \<Rightarrow>
          bindE (orPanic (getChainTipHeader (p_ledger p) (p_blockStore p))) (\<lambda>tip.
            case tip of None \<Rightarrow> Inl nilDereference
            | Some (tipID, tipHeader, _) \<Rightarrow> beginBlock cr ch tipID tipHeader p m))"

text \<open>One attempt: either the block is submitted and given up, or the nonce moves on.\<close>

definition attempt :: "crypto \<Rightarrow> device option \<Rightarrow> nat \<Rightarrow> miner \<Rightarrow> miner result" where
  "attempt cr dev random m =
     (case m_block m of None \<Rightarrow> Inl nilDereference
      | Some (b, hasher) \<Rightarrow>
          bindE (IDFast cr dev (Header b) hasher) (\<lambda>(idInt, attempts, header, hasher).
            let m = m\<lparr>m_hashes := i64 (m_hashes m + attempts)\<rparr>; b = b\<lparr>Header := header\<rparr>
            in if idInt \<le> m_targetInt m
               then bindE (SetBigInt idInt) (\<lambda>i.
                 Inr (m\<lparr>m_submitted := m_submitted m @ [(i, block.truncate b)], m_block := None,
                   m_keyIndex := random mod length (m_pubKeys m)\<rparr>))
               else let nonce = i64 (bh_Nonce header + attempts)
                    in Inr (m\<lparr>m_block := Some (b\<lparr>Header := header\<lparr>bh_Nonce := if nonce > MAX_NUMBER then 0 else nonce\<rparr>\<rparr>,
                         Some hasher)\<rparr>)))"

datatype miner_event =
    TipNotice tip_change chance
  | TxNotice new_tx
  | ShutdownMiner
  | Tick int
  | Idle chance "device option" nat

definition miner_turn :: "crypto \<Rightarrow> processor \<Rightarrow> miner_event \<Rightarrow> miner \<Rightarrow> miner result" where
  "miner_turn cr p ev m =
     (if m_stopped m then Inr m
      else (case ev of
          TipNotice tip ch \<Rightarrow> onTipChange cr ch tip p m
        | TxNotice newTx \<Rightarrow> onNewTx cr newTx m
        | ShutdownMiner \<Rightarrow> Inr (m\<lparr>m_stopped := True\<rparr>)
        | Tick now \<Rightarrow> Inr (onTick now m)
        | Idle ch dev random \<Rightarrow> bindE (ensureBlock cr ch p m) (attempt cr dev random)))"

text \<open>Before the loop the miner waits until the chain is synced, looking again at every tick; \<open>None\<close> is a shutdown.\<close>

fun waitForSync :: "(ledger \<times> block_store \<times> int) option list \<Rightarrow> bool result option" where
  "waitForSync [] = Some (Inr False)"
| "waitForSync (None # _) = None"
| "waitForSync (Some (l, bs, now) # rest) =
     (case IsInitialBlockDownload l bs now of Inl e \<Rightarrow> Some (Inl (Panic ''ledger state is broken''))
      | Inr (ibd, _) \<Rightarrow> if ibd then waitForSync rest else Some (Inr True))"

section \<open>The hashrate monitor\<close>

datatype monitor_event = HashUpdate int | MonitorTick

text \<open>The total since the last report, and the totals reported.\<close>

definition monitor_turn :: "monitor_event \<Rightarrow> int \<times> int list \<Rightarrow> int \<times> int list" where
  "monitor_turn ev s = (case (ev, s) of
     (HashUpdate hashes, (totalHashes, reports)) \<Rightarrow> (i64 (totalHashes + hashes), reports)
   | (MonitorTick, (totalHashes, reports)) \<Rightarrow> (0, reports @ [totalHashes]))"

end
