(* ===== verification/Block_Queue.thy ===== *)
theory Block_Queue
  imports Block Go_List
begin

text \<open>
  \<^verbatim>\<open>src/block_queue.go\<close>: the blocks a node wants, each with the peer responsible for its download and
  the time it was asked. Times are nanoseconds and the clock is an argument; peers are named by their
  address. Every method holds the queue's lock, so calls are atomic.
\<close>

record blockQueueEntry =
  be_id :: block_id
  be_who :: string
  be_when :: int

record block_queue =
  blockMap :: "block_id \<rightharpoonup> nat"
  blockQueue :: "blockQueueEntry golist"

definition maxQueueWait :: int where
  "maxQueueWait = 2 * 60 * 1000000000"

definition NewBlockQueue :: block_queue where
  "NewBlockQueue = \<lparr>blockMap = (\<lambda>_. None), blockQueue = list_New\<rparr>"

definition bq_Add :: "int \<Rightarrow> block_id \<Rightarrow> string \<Rightarrow> block_queue \<Rightarrow> bool result \<times> block_queue" where
  "bq_Add now i who q =
     (case blockMap q i of
        Some e \<Rightarrow>
          (case element_Value e (blockQueue q) of None \<Rightarrow> (Inl (Panic ''nil pointer dereference''), q)
           | Some entry \<Rightarrow>
               if now - be_when entry < maxQueueWait then (Inr False, q)
               else (Inr True, q\<lparr>blockQueue :=
                      set_Value e (entry\<lparr>be_when := now, be_who := who\<rparr>) (blockQueue q)\<rparr>))
      | None \<Rightarrow>
          let (e, l) = PushBack \<lparr>be_id = i, be_who = who, be_when = now\<rparr> (blockQueue q)
          in (Inr True, \<lparr>blockMap = (blockMap q)(i \<mapsto> e), blockQueue = l\<rparr>))"

definition bq_Remove :: "block_id \<Rightarrow> string \<Rightarrow> block_queue \<Rightarrow> bool result \<times> block_queue" where
  "bq_Remove i who q =
     (case blockMap q i of None \<Rightarrow> (Inr False, q)
      | Some e \<Rightarrow>
          (case element_Value e (blockQueue q) of None \<Rightarrow> (Inl (Panic ''nil pointer dereference''), q)
           | Some entry \<Rightarrow>
               if be_who entry = who
               then (Inr True, \<lparr>blockMap = (blockMap q)(be_id entry := None),
                                blockQueue = list_Remove e (blockQueue q)\<rparr>)
               else (Inr False, q)))"

definition bq_Exists :: "block_id \<Rightarrow> block_queue \<Rightarrow> bool" where
  "bq_Exists i q \<longleftrightarrow> blockMap q i \<noteq> None"

definition bq_Peek :: "block_queue \<Rightarrow> block_id option" where
  "bq_Peek q = (case gl_elems (blockQueue q) of [] \<Rightarrow> None | (_, entry) # _ \<Rightarrow> Some (be_id entry))"

definition bq_Len :: "block_queue \<Rightarrow> nat" where
  "bq_Len q = list_Len (blockQueue q)"

section \<open>The queue as a list of entries\<close>

definition bq_entries :: "block_queue \<Rightarrow> blockQueueEntry list" where
  "bq_entries q = elements (blockQueue q)"

definition bq_inv :: "block_queue \<Rightarrow> bool" where
  "bq_inv q \<longleftrightarrow> golist_ok (blockQueue q) \<and> indexes be_id (blockMap q) (gl_elems (blockQueue q))"

definition owner :: "block_queue \<Rightarrow> block_id \<Rightarrow> (string \<times> int) option" where
  "owner q i = map_option (\<lambda>e. (be_who e, be_when e)) (find (\<lambda>e. be_id e = i) (bq_entries q))"

lemma bq_inv_parts:
  assumes "bq_inv q"
  shows "golist_ok (blockQueue q)" "indexes be_id (blockMap q) (gl_elems (blockQueue q))"
    "blockMap q i = None \<longleftrightarrow> i \<notin> be_id ` set (bq_entries q)"
    "distinct (map be_id (bq_entries q))"
  using assms gl.key_absent [of be_id "blockMap q" "blockQueue q" i] gl.distinct_keys [of be_id "blockMap q" "blockQueue q"]
  by (simp_all add: bq_inv_def bq_entries_def)

lemma find_distinct:
  "distinct (map f xs) \<Longrightarrow> find (\<lambda>x. f x = k) xs = Some v \<longleftrightarrow> v \<in> set xs \<and> f v = k"
  by (induction xs) auto

lemma owner_entry:
  assumes "bq_inv q" "blockMap q i = Some e"
  obtains v where "element_Value e (blockQueue q) = Some v" "be_id v = i" "v \<in> set (bq_entries q)"
    "owner q i = Some (be_who v, be_when v)"
proof -
  obtain v where v: "element_Value e (blockQueue q) = Some v" "be_id v = i" "v \<in> set (bq_entries q)"
    using element_Value_indexed [OF bq_inv_parts(2) [OF assms(1)] assms(2)] by (auto simp: bq_entries_def)
  then have "find (\<lambda>x. be_id x = i) (bq_entries q) = Some v"
    using find_distinct [OF bq_inv_parts(4) [OF assms(1)]] by blast
  with v that show ?thesis by (simp add: owner_def)
qed

lemma owner_None: "bq_inv q \<Longrightarrow> owner q i = None \<longleftrightarrow> blockMap q i = None"
  by (auto simp: bq_inv_parts(3) owner_def find_None_iff)

lemma bq_new: "bq_inv NewBlockQueue" "bq_entries NewBlockQueue = []"
  by (simp_all add: bq_inv_def NewBlockQueue_def list_New_ok bq_entries_def)

lemma bq_Peek_entries: "bq_Peek q = (if bq_entries q = [] then None else Some (be_id (hd (bq_entries q))))"
  by (cases "gl_elems (blockQueue q)") (auto simp: bq_Peek_def bq_entries_def elements_def)

lemma bq_Len_entries: "bq_Len q = length (bq_entries q)"
  by (simp add: bq_Len_def list_Len_def bq_entries_def elements_def)

lemma bq_Exists_owner: "bq_inv q \<Longrightarrow> bq_Exists i q = (owner q i \<noteq> None)"
  using owner_None by (simp add: bq_Exists_def)

lemma bq_Add_entries:
  assumes inv: "bq_inv q" and a: "bq_Add now i who q = (r, q')"
  shows "bq_inv q' \<and> (case owner q i of
      None \<Rightarrow> r = Inr True \<and> bq_entries q' = bq_entries q @ [\<lparr>be_id = i, be_who = who, be_when = now\<rparr>]
    | Some (w, t) \<Rightarrow>
        if now - t < 120000000000 then r = Inr False \<and> q' = q
        else r = Inr True \<and> bq_entries q' = map (\<lambda>e. if be_id e = i
               then e\<lparr>be_who := who, be_when := now\<rparr> else e) (bq_entries q))"
proof (cases "blockMap q i")
  case None
  note p = bq_inv_parts [OF inv]
  let ?v = "\<lparr>be_id = i, be_who = who, be_when = now\<rparr>"
  obtain e l where pb: "PushBack ?v (blockQueue q) = (e, l)" by fastforce
  have "indexes be_id ((blockMap q)(i \<mapsto> e)) (gl_elems l) \<and> elements l = elements (blockQueue q) @ [?v] \<and> golist_ok l"
    using gl.indexed_push_back [OF p(2,1) _ pb] None by simp
  with a None pb owner_None [OF inv, of i] show ?thesis
    by (auto simp: bq_Add_def bq_inv_def bq_entries_def)
next
  case (Some e)
  note p = bq_inv_parts [OF inv]
  obtain v where v: "element_Value e (blockQueue q) = Some v" "be_id v = i" "v \<in> set (bq_entries q)"
    "owner q i = Some (be_who v, be_when v)" by (rule owner_entry [OF inv Some])
  let ?v = "v\<lparr>be_when := now, be_who := who\<rparr>"
  have s: "indexes be_id (blockMap q) (gl_elems (set_Value e ?v (blockQueue q)))
      \<and> golist_ok (set_Value e ?v (blockQueue q))
      \<and> elements (set_Value e ?v (blockQueue q)) = map (\<lambda>w. if be_id w = be_id ?v then ?v else w) (elements (blockQueue q))"
    by (rule set_Value_indexed [OF p(2,1)]) (simp add: v(2) Some)
  have "inj_on be_id (set (bq_entries q))" using p(4) by (simp add: distinct_map)
  then have "w = v" if "w \<in> set (bq_entries q)" "be_id w = i" for w
    using that v(2,3) by (simp add: inj_onD)
  then have m: "map (\<lambda>w. if be_id w = be_id ?v then ?v else w) (bq_entries q)
      = map (\<lambda>w. if be_id w = i then w\<lparr>be_who := who, be_when := now\<rparr> else w) (bq_entries q)"
    using v(2) by (intro map_cong refl) (auto simp del: blockQueueEntry.update_convs)
  show ?thesis
    using a Some v(1,4) s inv m [unfolded bq_entries_def]
    by (auto simp: bq_Add_def maxQueueWait_def bq_inv_def bq_entries_def split: if_splits)
qed

lemma bq_Remove_entries:
  assumes inv: "bq_inv q" and d: "bq_Remove i who q = (s, q')"
  shows "bq_inv q' \<and> (case owner q i of
      None \<Rightarrow> s = Inr False \<and> q' = q
    | Some (w, t) \<Rightarrow>
        if w = who then s = Inr True \<and> bq_entries q' = filter (\<lambda>e. be_id e \<noteq> i) (bq_entries q)
        else s = Inr False \<and> q' = q)"
proof (cases "blockMap q i")
  case None
  with d inv owner_None [OF inv, of i] show ?thesis by (auto simp: bq_Remove_def)
next
  case (Some e)
  note p = bq_inv_parts [OF inv]
  obtain v where v: "element_Value e (blockQueue q) = Some v" "be_id v = i" "v \<in> set (bq_entries q)"
    "owner q i = Some (be_who v, be_when v)" by (rule owner_entry [OF inv Some])
  from d Some v(1,2,4) gl.indexed_remove [OF p(2,1) Some] inv show ?thesis
    by (auto simp: bq_Remove_def bq_inv_def bq_entries_def split: if_splits)
qed

text \<open>
  C38 (refinement). The download queue is a first-in first-out list with one entry per block. \<^verbatim>\<open>Add\<close>
  appends an unknown block, refuses one that was asked less than two minutes ago, and hands an
  older one to the new peer in place; \<^verbatim>\<open>Remove\<close> succeeds for the peer responsible only; \<^verbatim>\<open>Peek\<close> names
  the oldest entry. No operation dereferences a missing element.
\<close>

theorem block_queue_refines_list:
  assumes inv: "bq_inv q" and a: "bq_Add now i who q = (r, q')" and d: "bq_Remove i who q = (s, q'')"
  shows "bq_inv q' \<and> bq_inv q''
    \<and> (case owner q i of
         None \<Rightarrow> r = Inr True \<and> bq_entries q' = bq_entries q @ [\<lparr>be_id = i, be_who = who, be_when = now\<rparr>]
           \<and> s = Inr False \<and> q'' = q
       | Some (w, t) \<Rightarrow>
           (if now - t < 120000000000 then r = Inr False \<and> q' = q
            else r = Inr True \<and> bq_entries q' = map (\<lambda>e. if be_id e = i
                   then e\<lparr>be_who := who, be_when := now\<rparr> else e) (bq_entries q))
           \<and> (if w = who then s = Inr True \<and> bq_entries q'' = filter (\<lambda>e. be_id e \<noteq> i) (bq_entries q)
              else s = Inr False \<and> q'' = q))
    \<and> bq_Exists i q = (owner q i \<noteq> None) \<and> bq_Len q = length (bq_entries q)
    \<and> bq_Peek q = (if bq_entries q = [] then None else Some (be_id (hd (bq_entries q))))"
  using bq_Add_entries [OF inv a] bq_Remove_entries [OF inv d] bq_Exists_owner [OF inv, of i] bq_Peek_entries [of q]
    bq_Len_entries [of q]
  by (auto split: option.splits)

theorem block_queue_refines_list_witness:
  "\<exists>q. bq_Add 0 5 ''peer'' NewBlockQueue = (Inr True, q) \<and> bq_Peek q = Some 5
     \<and> bq_Add 60000000000 5 ''other'' q = (Inr False, q) \<and> fst (bq_Remove 5 ''other'' q) = Inr False"
proof -
  obtain r q where a: "bq_Add 0 5 ''peer'' NewBlockQueue = (r, q)" by fastforce
  have n: "owner NewBlockQueue 5 = None" by (simp add: owner_def bq_new)
  obtain t0 u0 where d0: "bq_Remove 5 ''peer'' NewBlockQueue = (t0, u0)" by fastforce
  from block_queue_refines_list [OF bq_new(1) a d0] n
  have q: "bq_inv q" "r = Inr True" "bq_entries q = [\<lparr>be_id = 5, be_who = ''peer'', be_when = 0\<rparr>]"
    by (auto simp: bq_new)
  obtain r1 q1 where b: "bq_Add 60000000000 5 ''other'' q = (r1, q1)" by fastforce
  obtain t1 u1 where d1: "bq_Remove 5 ''other'' q = (t1, u1)" by fastforce
  have "owner q 5 = Some (''peer'', 0)" by (simp add: owner_def q(3))
  with block_queue_refines_list [OF q(1) b d1] a q b d1 show ?thesis by auto
qed

end
