(* ===== verification/Peer_Storage.thy ===== *)
theory Peer_Storage
  imports Leveldb Encoding
begin

text \<open>
  \<^verbatim>\<open>src/peer_storage_disk.go\<close>: the addresses of known peers in LevelDB, with two indices, by the time of the last
  connection attempt and of the last success, and the addresses connected to in memory. An address is its bytes. The
  clock is an argument, in nanoseconds where the source measures a duration. The gob encoding of a record works by
  reflection and is a parameter, relied on to decode what it encoded.

  \<^verbatim>\<open>math.Ceil(math.Sqrt(float64(n)))\<close> is computed on integers; the two agree while \<open>n < 2 ^ 50\<close>, and the hours between
  two times of the clock stay far below that.
\<close>

record peerInfo =
  FirstSeen :: int
  LastAttempt :: int
  LastSuccess :: int

record info_codec =
  gobEncodeInfo :: "peerInfo \<Rightarrow> bytes"
  gobDecodeInfo :: "bytes \<Rightarrow> peerInfo result"

record peer_storage =
  ps_db :: leveldb
  ps_connected :: "bytes set"

definition NewPeerStorageDisk :: "leveldb option \<Rightarrow> peer_storage result" where
  "NewPeerStorageDisk db = (case db of None \<Rightarrow> Inl IOError | Some db \<Rightarrow> Inr \<lparr>ps_db = db, ps_connected = {}\<rparr>)"

section \<open>Keys\<close>

definition computePeerKey :: "bytes \<Rightarrow> bytes" where
  "computePeerKey addr = 112 # addr"

definition computeLastAttemptTimeKey :: "int \<Rightarrow> bytes \<Rightarrow> bytes" where
  "computeLastAttemptTimeKey when addr = 97 # be 8 when @ addr"

definition decodeTimeKey :: "bytes \<Rightarrow> (int \<times> bytes) result" where
  "decodeTimeKey key = (case key of [] \<Rightarrow> Inl (Err ''EOF'') | _ # buf \<Rightarrow> read_i64 buf)"

definition decodeLastAttemptTimeKey :: "bytes \<Rightarrow> (int \<times> bytes) result" where
  "decodeLastAttemptTimeKey key = decodeTimeKey key"

definition computeLastSuccessTimeKey :: "int \<Rightarrow> bytes \<Rightarrow> bytes" where
  "computeLastSuccessTimeKey when addr = 115 # be 8 when @ addr"

definition decodeLastSuccessTimeKey :: "bytes \<Rightarrow> (int \<times> bytes) result" where
  "decodeLastSuccessTimeKey key = decodeTimeKey key"

definition getPeerInfo :: "info_codec \<Rightarrow> bytes \<Rightarrow> leveldb \<Rightarrow> peerInfo option result" where
  "getPeerInfo c addr db =
     bindE (db_Get db (computePeerKey addr)) (\<lambda>encoded.
       case encoded of None \<Rightarrow> Inr None
       | Some encoded \<Rightarrow> bindE (gobDecodeInfo c encoded) (\<lambda>info. Inr (Some info)))"

definition writeToBatch :: "info_codec \<Rightarrow> peerInfo \<Rightarrow> bytes \<Rightarrow> batch_op" where
  "writeToBatch c info addr = Put (computePeerKey addr) (gobEncodeInfo c info)"

definition ps_Write :: "batch_op list \<Rightarrow> peer_storage \<Rightarrow> unit result \<times> peer_storage" where
  "ps_Write batch p = (case db_Write batch (ps_db p) of (r, db) \<Rightarrow> (r, p\<lparr>ps_db := db\<rparr>))"

section \<open>When to try again\<close>

function ceilSqrtFrom :: "int \<Rightarrow> int \<Rightarrow> int" where
  "ceilSqrtFrom k n = (if 0 \<le> k \<and> k * k < n then ceilSqrtFrom (k + 1) n else k)"
  by pat_completeness auto
termination
proof (relation "measure (\<lambda>(k, n). nat (n - k))", goal_cases)
  case (2 k n)
  then have "k \<le> k * k" by (cases "k = 0") (auto simp: mult_le_cancel_left1)
  with 2 show ?case by simp
qed simp

declare ceilSqrtFrom.simps [simp del]

definition ceilSqrt :: "int \<Rightarrow> int" where
  "ceilSqrt n = ceilSqrtFrom 0 n"

definition shouldRetry :: "int \<Rightarrow> peerInfo \<Rightarrow> bool" where
  "shouldRetry now p =
     (if LastAttempt p < 2 ^ 30 then True
      else let lastSeen = (if LastSuccess p = 0 then FirstSeen p else LastSuccess p);
               hoursSinceLastSeen = i64 (now - lastSeen) sdiv (60 * 60);
               minutesSinceLastAttempt = i64 (now - LastAttempt p) sdiv 60;
               hoursSinceLastAttempt = minutesSinceLastAttempt sdiv 60
           in if hoursSinceLastSeen \<le> 0 then minutesSinceLastAttempt > 10
              else hoursSinceLastAttempt > ceilSqrt hoursSinceLastSeen)"

definition shouldDelete :: "int \<Rightarrow> peerInfo \<Rightarrow> bool" where
  "shouldDelete nowNano p =
     (if LastSuccess p = 0 then True else nowNano - LastSuccess p * 10 ^ 9 > 24 * 7 * 3600 * 10 ^ 9)"

section \<open>Operations\<close>

definition ps_Store :: "info_codec \<Rightarrow> int \<Rightarrow> int \<Rightarrow> bytes \<Rightarrow> peer_storage \<Rightarrow> bool result \<times> peer_storage" where
  "ps_Store c now random addr p =
     (case getPeerInfo c addr (ps_db p) of Inl e \<Rightarrow> (Inl e, p)
      | Inr (Some _) \<Rightarrow> (Inr False, p)
      | Inr None \<Rightarrow>
          let info = \<lparr>FirstSeen = now, LastAttempt = random mod 2 ^ 30, LastSuccess = 0\<rparr>
          in bindS (ps_Write [writeToBatch c info addr, Put (computeLastAttemptTimeKey (LastAttempt info) addr) [1]] p)
               (\<lambda>_ p. (Inr True, p)))"

text \<open>The snapshot is released also when it could not be taken, which dereferences nil.\<close>

definition ps_Snapshot :: "peer_storage \<Rightarrow> unit result" where
  "ps_Snapshot p = (if iterFault (ps_db p) then Inl (Panic ''nil pointer dereference'') else Inr ())"

fun getLoop :: "info_codec \<Rightarrow> int \<Rightarrow> int \<Rightarrow> peer_storage \<Rightarrow> kv \<Rightarrow> bytes list \<Rightarrow> bytes list result" where
  "getLoop c now count p [] addrs = Inr addrs"
| "getLoop c now count p (e # es) addrs =
     bindE (decodeLastAttemptTimeKey (fst e)) (\<lambda>(_, addr).
       if addr \<in> ps_connected p then getLoop c now count p es addrs
       else bindE (getPeerInfo c addr (ps_db p)) (\<lambda>info.
         case info of None \<Rightarrow> Inl (Panic ''nil pointer dereference'')
         | Some info \<Rightarrow>
             if \<not> shouldRetry now info then getLoop c now count p es addrs
             else if int (length (addrs @ [addr])) = count then Inr (addrs @ [addr])
             else getLoop c now count p es (addrs @ [addr])))"

definition ps_Get :: "info_codec \<Rightarrow> int \<Rightarrow> int \<Rightarrow> peer_storage \<Rightarrow> bytes list result" where
  "ps_Get c now count p =
     bindE (ps_Snapshot p) (\<lambda>_.
       bindE (db_Range (computeLastAttemptTimeKey 0 []) (computeLastAttemptTimeKey now []) (ps_db p)) (\<lambda>es.
         getLoop c now count p es []))"

fun sinceLoop :: "int \<Rightarrow> kv \<Rightarrow> bytes list \<Rightarrow> bytes list result" where
  "sinceLoop count [] addrs = Inr addrs"
| "sinceLoop count (e # es) addrs =
     bindE (decodeLastSuccessTimeKey (fst e)) (\<lambda>(_, addr).
       if int (length (addrs @ [addr])) = count then Inr (addrs @ [addr]) else sinceLoop count es (addrs @ [addr]))"

definition ps_GetSince :: "int \<Rightarrow> int \<Rightarrow> int \<Rightarrow> peer_storage \<Rightarrow> bytes list result" where
  "ps_GetSince now count when p =
     bindE (ps_Snapshot p) (\<lambda>_.
       bindE (db_Range (computeLastSuccessTimeKey when []) (computeLastSuccessTimeKey now []) (ps_db p)) (\<lambda>es.
         sinceLoop count (rev es) []))"

definition withInfo ::
  "info_codec \<Rightarrow> bytes \<Rightarrow> (peerInfo \<Rightarrow> peer_storage \<Rightarrow> unit result \<times> peer_storage) \<Rightarrow> peer_storage \<Rightarrow> unit result \<times> peer_storage" where
  "withInfo c addr f p =
     (case getPeerInfo c addr (ps_db p) of Inl e \<Rightarrow> (Inl e, p)
      | Inr None \<Rightarrow> (Inl (Err ''Peer info not found''), p)
      | Inr (Some info) \<Rightarrow> f info p)"

definition deletePeer :: "bytes \<Rightarrow> int \<Rightarrow> int \<Rightarrow> peer_storage \<Rightarrow> unit result \<times> peer_storage" where
  "deletePeer addr lastAttempt lastSuccess p =
     ps_Write [Delete (computePeerKey addr), Delete (computeLastAttemptTimeKey lastAttempt addr),
       Delete (computeLastSuccessTimeKey lastSuccess addr)] p"

definition ps_Delete :: "info_codec \<Rightarrow> bytes \<Rightarrow> peer_storage \<Rightarrow> unit result \<times> peer_storage" where
  "ps_Delete c addr = withInfo c addr (\<lambda>info. deletePeer addr (LastAttempt info) (LastSuccess info))"

definition OnConnectAttempt :: "info_codec \<Rightarrow> int \<Rightarrow> bytes \<Rightarrow> peer_storage \<Rightarrow> unit result \<times> peer_storage" where
  "OnConnectAttempt c now addr = withInfo c addr (\<lambda>info.
     let info' = info\<lparr>LastAttempt := now\<rparr>
     in ps_Write [Delete (computeLastAttemptTimeKey (LastAttempt info) addr), writeToBatch c info' addr,
          Put (computeLastAttemptTimeKey (LastAttempt info') addr) [1]])"

definition OnConnectFailure :: "info_codec \<Rightarrow> int \<Rightarrow> bytes \<Rightarrow> peer_storage \<Rightarrow> unit result \<times> peer_storage" where
  "OnConnectFailure c nowNano addr = withInfo c addr (\<lambda>info p.
     if shouldDelete nowNano info then deletePeer addr (LastAttempt info) (LastSuccess info) p else (Inr (), p))"

definition OnConnectSuccess :: "info_codec \<Rightarrow> int \<Rightarrow> bytes \<Rightarrow> peer_storage \<Rightarrow> unit result \<times> peer_storage" where
  "OnConnectSuccess c now addr = withInfo c addr (\<lambda>info p.
     let info' = info\<lparr>LastSuccess := now\<rparr>
     in bindS (ps_Write [Delete (computeLastSuccessTimeKey (LastSuccess info) addr), writeToBatch c info' addr,
          Put (computeLastSuccessTimeKey (LastSuccess info') addr) [1]] p)
          (\<lambda>_ p. (Inr (), p\<lparr>ps_connected := insert addr (ps_connected p)\<rparr>)))"

definition OnDisconnect :: "bytes \<Rightarrow> peer_storage \<Rightarrow> unit result \<times> peer_storage" where
  "OnDisconnect addr p = (Inr (), p\<lparr>ps_connected := ps_connected p - {addr}\<rparr>)"

section \<open>The table of peers\<close>

text \<open>
  What the database stands for: a table from addresses to what is known about them. The three groups of entries are
  determined by it; a peer never connected to has no entry in the index of successes.
\<close>

type_synonym peer_table = "bytes \<rightharpoonup> peerInfo"

definition timeEntry :: "(peerInfo \<Rightarrow> int option) \<Rightarrow> peer_table \<Rightarrow> bytes \<Rightarrow> bytes option" where
  "timeEntry f T r = (case T (drop 8 r) of None \<Rightarrow> None
     | Some i \<Rightarrow> (case f i of None \<Rightarrow> None | Some t \<Rightarrow> if take 8 r = be 8 t then Some [1] else None))"

definition attemptOf :: "peerInfo \<Rightarrow> int option" where
  "attemptOf i = Some (LastAttempt i)"

definition successOf :: "peerInfo \<Rightarrow> int option" where
  "successOf i = (if LastSuccess i = 0 then None else Some (LastSuccess i))"

definition table_at :: "info_codec \<Rightarrow> peer_table \<Rightarrow> bytes \<Rightarrow> bytes option" where
  "table_at c T k = (case k of [] \<Rightarrow> None
     | x # r \<Rightarrow> if x = 112 then map_option (gobEncodeInfo c) (T r)
                else if x = 97 then timeEntry attemptOf T r
                else if x = 115 then timeEntry successOf T r else None)"

definition infoRange :: "peerInfo \<Rightarrow> bool" where
  "infoRange i \<longleftrightarrow> 0 \<le> FirstSeen i \<and> int64 (FirstSeen i) \<and> 0 \<le> LastAttempt i \<and> int64 (LastAttempt i)
     \<and> 0 \<le> LastSuccess i \<and> int64 (LastSuccess i)"

definition info_codec_ok :: "info_codec \<Rightarrow> bool" where
  "info_codec_ok c \<longleftrightarrow> (\<forall>i. infoRange i \<longrightarrow> gobDecodeInfo c (gobEncodeInfo c i) = Inr i)"

definition ps_rel :: "info_codec \<Rightarrow> peer_table \<Rightarrow> peer_storage \<Rightarrow> bool" where
  "ps_rel c T p \<longleftrightarrow> db_ok (ps_db p) \<and> (\<forall>a i. T a = Some i \<longrightarrow> infoRange i) \<and> (\<forall>k. db_at (ps_db p) k = table_at c T k)"

lemma time_key_iff: "be 8 t @ a = r \<longleftrightarrow> take 8 r = be 8 t \<and> drop 8 r = a"
  by (metis append_eq_conv_conj append_take_drop_id length_be)

lemmas key_defs = computePeerKey_def computeLastAttemptTimeKey_def computeLastSuccessTimeKey_def writeToBatch_def

lemma be8_eq: "0 \<le> x \<Longrightarrow> int64 x \<Longrightarrow> 0 \<le> y \<Longrightarrow> int64 y \<Longrightarrow> be 8 x = be 8 y \<longleftrightarrow> x = y"
  by (simp add: be8_inject)

text \<open>Operations on the table.\<close>

datatype peer_op =
    PStore int int bytes
  | PDelete bytes
  | PAttempt int bytes
  | PFailure int bytes
  | PSuccess int bytes
  | PDisconnect bytes

fun ps_step :: "info_codec \<Rightarrow> peer_op \<Rightarrow> peer_storage \<Rightarrow> unit result \<times> peer_storage" where
  "ps_step c (PStore now random addr) p = (case ps_Store c now random addr p of (r, p') \<Rightarrow> (bindE r (\<lambda>_. Inr ()), p'))"
| "ps_step c (PDelete addr) p = ps_Delete c addr p"
| "ps_step c (PAttempt now addr) p = OnConnectAttempt c now addr p"
| "ps_step c (PFailure nowNano addr) p = OnConnectFailure c nowNano addr p"
| "ps_step c (PSuccess now addr) p = OnConnectSuccess c now addr p"
| "ps_step c (PDisconnect addr) p = OnDisconnect addr p"

fun op_addr :: "peer_op \<Rightarrow> bytes" where
  "op_addr (PStore now random addr) = addr"
| "op_addr (PDelete addr) = addr"
| "op_addr (PAttempt now addr) = addr"
| "op_addr (PFailure nowNano addr) = addr"
| "op_addr (PSuccess now addr) = addr"
| "op_addr (PDisconnect addr) = addr"

fun op_range :: "peer_op \<Rightarrow> bool" where
  "op_range (PStore now random addr) \<longleftrightarrow> 0 \<le> now \<and> int64 now"
| "op_range (PAttempt now addr) \<longleftrightarrow> 0 \<le> now \<and> int64 now"
| "op_range (PSuccess now addr) \<longleftrightarrow> 0 < now \<and> int64 now"
| "op_range _ \<longleftrightarrow> True"

text \<open>What an operation makes of the entry of its address; \<open>None\<close> is an unknown address.\<close>

fun table_op :: "peer_op \<Rightarrow> peerInfo option \<Rightarrow> peerInfo option option" where
  "table_op (PStore now random addr) (Some i) = Some (Some i)"
| "table_op (PStore now random addr) None = Some (Some \<lparr>FirstSeen = now, LastAttempt = random mod 2 ^ 30, LastSuccess = 0\<rparr>)"
| "table_op (PDisconnect addr) io = Some io"
| "table_op _ None = None"
| "table_op (PDelete addr) (Some i) = Some None"
| "table_op (PAttempt now addr) (Some i) = Some (Some (i\<lparr>LastAttempt := now\<rparr>))"
| "table_op (PFailure nowNano addr) (Some i) = Some (if shouldDelete nowNano i then None else Some i)"
| "table_op (PSuccess now addr) (Some i) = Some (Some (i\<lparr>LastSuccess := now\<rparr>))"

fun connected_op :: "peer_op \<Rightarrow> bytes set \<Rightarrow> bytes set" where
  "connected_op (PSuccess now addr) C = insert addr C"
| "connected_op (PDisconnect addr) C = C - {addr}"
| "connected_op _ C = C"

lemma getPeerInfo_rel:
  assumes "ps_rel c T p" "info_codec_ok c" "\<not> readFault (ps_db p) (computePeerKey addr)"
  shows "getPeerInfo c addr (ps_db p) = Inr (T addr)"
proof -
  have "map_of (entries (ps_db p)) (computePeerKey addr) = map_option (gobEncodeInfo c) (T addr)"
    using assms(1) by (simp add: ps_rel_def db_at_def table_at_def key_defs)
  moreover have "\<forall>i. T addr = Some i \<longrightarrow> gobDecodeInfo c (gobEncodeInfo c i) = Inr i"
    using assms(1,2) by (auto simp: ps_rel_def info_codec_ok_def)
  ultimately show ?thesis using assms(3)
    by (auto simp: getPeerInfo_def db_Get_def split: option.splits)
qed

text \<open>A batch that writes the entries of one address as the new table has them.\<close>

lemma rel_write:
  assumes rel: "ps_rel c T p" and w: "ps_Write ops p = (Inr u, p')" and i: "\<And>i. io = Some i \<Longrightarrow> infoRange i"
    and ops: "\<And>k. (case batch_at ops k of None \<Rightarrow> table_at c T k | Some r \<Rightarrow> r) = table_at c (T(addr := io)) k"
  shows "ps_rel c (T(addr := io)) p' \<and> ps_connected p' = ps_connected p \<and> same_faults (ps_db p) (ps_db p')"
proof -
  obtain db where db: "db_Write ops (ps_db p) = (Inr u, db)" "p' = p\<lparr>ps_db := db\<rparr>"
    using w by (auto simp: ps_Write_def split: prod.splits)
  note d = db_Write_Inr [OF db(1)]
  have at: "db_at db k = table_at c (T(addr := io)) k" for k
  proof -
    have t: "db_at (ps_db p) k = table_at c T k" using rel by (simp add: ps_rel_def)
    show ?thesis using d(1) [of k] ops [of k] unfolding t by simp
  qed
  have "db_ok db" using d(2) rel by (simp add: ps_rel_def)
  moreover have "infoRange j" if "(T(addr := io)) a = Some j" for a j
    using rel i that by (auto simp: ps_rel_def split: if_splits)
  ultimately have "ps_rel c (T(addr := io)) p'" using at by (simp add: ps_rel_def db(2))
  with d(3) show ?thesis by (simp add: db(2))
qed

lemma ps_Write_fault: "writeFault (ps_db p) \<Longrightarrow> ps_Write ops p = (Inl IOError, p)"
  by (simp add: ps_Write_def db_Write_def)

lemma ps_Write_ok: "\<not> writeFault (ps_db p) \<Longrightarrow> \<exists>p'. ps_Write ops p = (Inr (), p')"
  by (simp add: ps_Write_def db_Write_def)

lemma batch_store:
  assumes "T addr = None" "LastSuccess i = 0"
  shows "(case batch_at [writeToBatch c i addr, Put (computeLastAttemptTimeKey (LastAttempt i) addr) [1]] k of
      None \<Rightarrow> table_at c T k | Some r \<Rightarrow> r) = table_at c (T(addr := Some i)) k"
  using assms
  by (cases k) (auto simp: table_at_def timeEntry_def key_defs time_key_iff attemptOf_def successOf_def split: option.splits)

lemma batch_delete:
  assumes "T addr = Some i"
  shows "(case batch_at [Delete (computePeerKey addr), Delete (computeLastAttemptTimeKey (LastAttempt i) addr),
       Delete (computeLastSuccessTimeKey (LastSuccess i) addr)] k of
      None \<Rightarrow> table_at c T k | Some r \<Rightarrow> r) = table_at c (T(addr := None)) k"
  using assms
  by (cases k) (auto simp: table_at_def timeEntry_def key_defs time_key_iff attemptOf_def successOf_def split: option.splits)

lemma batch_attempt:
  assumes "T addr = Some i"
  shows "(case batch_at [Delete (computeLastAttemptTimeKey (LastAttempt i) addr), writeToBatch c (i\<lparr>LastAttempt := now\<rparr>) addr,
        Put (computeLastAttemptTimeKey now addr) [1]] k of
      None \<Rightarrow> table_at c T k | Some r \<Rightarrow> r) = table_at c (T(addr := Some (i\<lparr>LastAttempt := now\<rparr>))) k"
  using assms
  by (cases k) (auto simp: table_at_def timeEntry_def key_defs time_key_iff attemptOf_def successOf_def split: option.splits)

lemma batch_success:
  assumes "T addr = Some i" "now \<noteq> 0"
  shows "(case batch_at [Delete (computeLastSuccessTimeKey (LastSuccess i) addr), writeToBatch c (i\<lparr>LastSuccess := now\<rparr>) addr,
        Put (computeLastSuccessTimeKey now addr) [1]] k of
      None \<Rightarrow> table_at c T k | Some r \<Rightarrow> r) = table_at c (T(addr := Some (i\<lparr>LastSuccess := now\<rparr>))) k"
  using assms
  by (cases k) (auto simp: table_at_def timeEntry_def key_defs time_key_iff attemptOf_def successOf_def split: option.splits)

lemma step_refines:
  assumes rel: "ps_rel c T p" and cd: "info_codec_ok c" and rg: "op_range op"
    and rd: "\<not> readFault (ps_db p) (computePeerKey (op_addr op))" and wr: "\<not> writeFault (ps_db p)"
  shows "\<exists>r p'. ps_step c op p = (r, p') \<and> (case table_op op (T (op_addr op)) of
      None \<Rightarrow> (\<exists>m. r = Inl (Err m)) \<and> p' = p
    | Some io \<Rightarrow> r = Inr () \<and> ps_rel c (T(op_addr op := io)) p' \<and> same_faults (ps_db p) (ps_db p')
        \<and> ps_connected p' = connected_op op (ps_connected p))"
proof (cases "\<exists>addr. op = PDisconnect addr")
  case True
  with rel show ?thesis by (auto simp: OnDisconnect_def ps_rel_def same_faults_def)
next
  case nd: False
  note g = getPeerInfo_rel [OF rel cd rd]
  have ir: "infoRange i" if "T a = Some i" for a i using rel that by (auto simp: ps_rel_def)
  show ?thesis
  proof (cases "T (op_addr op)")
    case None
    show ?thesis
    proof (cases "\<exists>now random addr. op = PStore now random addr")
      case True
      then obtain now random addr where op: "op = PStore now random addr" by blast
      let ?i = "\<lparr>FirstSeen = now, LastAttempt = random mod 2 ^ 30, LastSuccess = 0\<rparr>"
      obtain p' where w: "ps_Write [writeToBatch c ?i addr, Put (computeLastAttemptTimeKey (LastAttempt ?i) addr) [1]] p = (Inr (), p')"
        using ps_Write_ok [OF wr] by blast
      have m: "0 \<le> random mod 1073741824" "random mod 1073741824 < 1073741824" for random :: int by simp_all
      have "infoRange ?i" using rg m [of random] by (auto simp: op infoRange_def int64_def)
      with rel_write [OF rel w, of "Some ?i" addr] batch_store [of T addr ?i c] None w g show ?thesis
        by (auto simp: op ps_Store_def bindS_def)
    next
      case False
      with None g nd show ?thesis
        by (cases op) (auto simp: ps_Delete_def OnConnectAttempt_def OnConnectFailure_def OnConnectSuccess_def withInfo_def)
    qed
  next
    case (Some i)
    note gi = g [unfolded Some]
    have keep: "ps_rel c (T(op_addr op \<mapsto> i)) p \<and> same_faults (ps_db p) (ps_db p)"
      using rel Some by (simp add: fun_upd_idem same_faults_def)
    have del: "\<exists>p'. deletePeer (op_addr op) (LastAttempt i) (LastSuccess i) p = (Inr (), p') \<and> ps_rel c (T(op_addr op := None)) p'
        \<and> ps_connected p' = ps_connected p \<and> same_faults (ps_db p) (ps_db p')"
      using ps_Write_ok [OF wr] rel_write [OF rel, of _ _ _ None "op_addr op"] batch_delete [of T "op_addr op" i c, OF Some]
      unfolding deletePeer_def by blast
    show ?thesis
    proof (cases op)
      case (PStore now random addr)
      with Some keep gi show ?thesis by (auto simp: ps_Store_def)
    next
      case (PDelete addr)
      with Some del gi show ?thesis by (auto simp: ps_Delete_def withInfo_def)
    next
      case (PAttempt now addr)
      let ?i = "i\<lparr>LastAttempt := now\<rparr>"
      obtain p' where w: "ps_Write [Delete (computeLastAttemptTimeKey (LastAttempt i) addr), writeToBatch c ?i addr,
          Put (computeLastAttemptTimeKey now addr) [1]] p = (Inr (), p')" using ps_Write_ok [OF wr] by blast
      have "infoRange ?i" using ir [OF Some] rg by (auto simp: PAttempt infoRange_def)
      with rel_write [OF rel w, of "Some ?i" addr] batch_attempt [of T addr i c] Some PAttempt gi w show ?thesis
        by (auto simp: OnConnectAttempt_def withInfo_def)
    next
      case (PFailure nowNano addr)
      with Some del keep gi show ?thesis by (auto simp: OnConnectFailure_def withInfo_def)
    next
      case (PSuccess now addr)
      let ?i = "i\<lparr>LastSuccess := now\<rparr>"
      obtain p' where w: "ps_Write [Delete (computeLastSuccessTimeKey (LastSuccess i) addr), writeToBatch c ?i addr,
          Put (computeLastSuccessTimeKey now addr) [1]] p = (Inr (), p')" using ps_Write_ok [OF wr] by blast
      have "infoRange ?i" "now \<noteq> 0" using ir [OF Some] rg by (auto simp: PSuccess infoRange_def)
      with rel_write [OF rel w, of "Some ?i" addr] batch_success [of T addr i now c] Some PSuccess gi w show ?thesis
        by (auto simp: OnConnectSuccess_def withInfo_def bindS_def ps_rel_def)
    qed (use nd in blast)
  qed
qed


section \<open>Reading the indices\<close>

text \<open>The order an index lists addresses in: by time, then by address.\<close>

definition timeOf :: "(peerInfo \<Rightarrow> int option) \<Rightarrow> peer_table \<Rightarrow> bytes \<Rightarrow> int" where
  "timeOf f T a = the (f (the (T a)))"

definition earlier :: "(peerInfo \<Rightarrow> int option) \<Rightarrow> peer_table \<Rightarrow> bytes \<Rightarrow> bytes \<Rightarrow> bool" where
  "earlier f T a b \<longleftrightarrow> timeOf f T a < timeOf f T b \<or> timeOf f T a = timeOf f T b \<and> a < b"

definition indexed :: "(peerInfo \<Rightarrow> int option) \<Rightarrow> peer_table \<Rightarrow> int \<Rightarrow> int \<Rightarrow> bytes set" where
  "indexed f T lo hi = {a. \<exists>i t. T a = Some i \<and> f i = Some t \<and> lo \<le> t \<and> t < hi}"

definition atMost :: "int \<Rightarrow> 'a list \<Rightarrow> 'a list" where
  "atMost count xs = (if 0 < count then take (nat count) xs else xs)"

lemma timeEntry_Some:
  "timeEntry f T r \<noteq> None \<longleftrightarrow> (\<exists>a i t. T a = Some i \<and> f i = Some t \<and> r = be 8 t @ a)"
proof
  assume "timeEntry f T r \<noteq> None"
  then obtain i t where "T (drop 8 r) = Some i" "f i = Some t" "take 8 r = be 8 t"
    by (auto simp: timeEntry_def split: option.splits if_splits)
  then show "\<exists>a i t. T a = Some i \<and> f i = Some t \<and> r = be 8 t @ a"
    using append_take_drop_id [of 8 r] by metis
qed (auto simp: timeEntry_def)

lemma be8_less: "0 \<le> s \<Longrightarrow> int64 s \<Longrightarrow> 0 \<le> t \<Longrightarrow> int64 t \<Longrightarrow> be 8 s < be 8 t \<longleftrightarrow> s < t"
  by (simp add: be_less_iff int64_def)

lemma time_less:
  assumes "0 \<le> s" "int64 s" "0 \<le> t" "int64 t"
  shows "be 8 s @ a < be 8 t @ b \<longleftrightarrow> s < t \<or> s = t \<and> a < b"
  using assms by (simp add: append_less_append be8_less be8_inject)

lemma time_between:
  assumes "0 \<le> lo" "int64 lo" "0 \<le> hi" "int64 hi" "0 \<le> t" "int64 t"
  shows "x # be 8 lo \<le> x # be 8 t @ a \<and> x # be 8 t @ a < x # be 8 hi \<longleftrightarrow> lo \<le> t \<and> t < hi"
  using time_less [of t lo a "[]"] time_less [of t hi a "[]"] assms by (auto simp: not_less [symmetric])

text \<open>The entries of an index between two times.\<close>

lemma index_range:
  assumes rel: "ps_rel c T p" and x: "(x, f) \<in> {(97, attemptOf), (115, successOf)}"
    and r: "0 \<le> lo" "int64 lo" "0 \<le> hi" "int64 hi"
    and es: "es = filter (\<lambda>e. x # be 8 lo \<le> fst e \<and> fst e < x # be 8 hi) (entries (ps_db p))"
  shows "\<exists>as. map fst es = map (\<lambda>a. x # be 8 (timeOf f T a) @ a) as \<and> set as = indexed f T lo hi
    \<and> sorted_wrt (earlier f T) as"
proof -
  let ?key = "\<lambda>a. x # be 8 (timeOf f T a) @ a"
  have at: "db_at (ps_db p) (x # r) = timeEntry f T r" for r
    using rel x by (auto simp: ps_rel_def table_at_def)
  have tr: "0 \<le> t \<and> int64 t" if "T a = Some i" "f i = Some t" for a i t
    using rel x that by (auto simp: ps_rel_def infoRange_def attemptOf_def successOf_def split: if_splits)
  have keys: "k \<in> fst ` set (entries (ps_db p)) \<longleftrightarrow> db_at (ps_db p) k \<noteq> None" for k
    by (simp add: db_at_def map_of_eq_None_iff)
  have mem: "k \<in> fst ` set es \<longleftrightarrow> k \<in> ?key ` indexed f T lo hi" for k
  proof -
    have "k \<in> fst ` set es \<longleftrightarrow> db_at (ps_db p) k \<noteq> None \<and> x # be 8 lo \<le> k \<and> k < x # be 8 hi"
      unfolding es keys [symmetric] by auto
    also have "\<dots> \<longleftrightarrow> (\<exists>a i t. T a = Some i \<and> f i = Some t \<and> k = x # be 8 t @ a \<and> lo \<le> t \<and> t < hi)"
    proof (cases k)
      case (Cons y r)
      have y: "x # be 8 lo \<le> k \<and> k < x # be 8 hi \<Longrightarrow> y = x" by (auto simp: Cons)
      have a: "db_at (ps_db p) (x # r) \<noteq> None \<longleftrightarrow> (\<exists>a i t. T a = Some i \<and> f i = Some t \<and> r = be 8 t @ a)"
        unfolding at by (rule timeEntry_Some)
      have "db_at (ps_db p) k \<noteq> None \<and> x # be 8 lo \<le> k \<and> k < x # be 8 hi \<longleftrightarrow>
          y = x \<and> (\<exists>a i t. T a = Some i \<and> f i = Some t \<and> r = be 8 t @ a) \<and> x # be 8 lo \<le> k \<and> k < x # be 8 hi"
      proof (cases "y = x")
        case True
        with a show ?thesis by (simp add: Cons)
      next
        case False
        with y show ?thesis by blast
      qed
      also have "\<dots> \<longleftrightarrow> (\<exists>a i t. T a = Some i \<and> f i = Some t \<and> k = x # be 8 t @ a \<and> lo \<le> t \<and> t < hi)"
        using tr time_between [OF r] Cons by blast
      finally show ?thesis .
    qed simp
    also have "\<dots> \<longleftrightarrow> k \<in> ?key ` indexed f T lo hi"
      by (auto simp: indexed_def timeOf_def image_iff) (metis option.sel)
    finally show ?thesis .
  qed
  define as where "as = map (\<lambda>e. drop 9 (fst e)) es"
  have m: "map fst es = map ?key as"
  proof -
    have "?key (drop 9 (fst e)) = fst e" if "e \<in> set es" for e
    proof -
      have "fst e \<in> ?key ` indexed f T lo hi" using that mem by blast
      then show ?thesis by auto
    qed
    then show ?thesis by (simp add: as_def)
  qed
  have s: "set as = indexed f T lo hi"
  proof -
    have "?key ` set as = fst ` set es" using arg_cong [OF m, of set] by (simp only: set_map)
    also have "\<dots> = ?key ` indexed f T lo hi" using mem by (rule set_eqI)
    finally have "?key ` set as = ?key ` indexed f T lo hi" .
    moreover have "inj ?key" by (rule injI) simp
    ultimately show ?thesis by (simp add: inj_image_eq_iff)
  qed
  have "sorted_wrt (<) (map fst es)"
    using rel unfolding es ps_rel_def db_ok_def kv_valid_def by (simp add: sorted_wrt_map sorted_wrt_filter)
  then have "sorted_wrt (\<lambda>a b. ?key a < ?key b) as" unfolding m by (simp add: sorted_wrt_map)
  then have "sorted_wrt (earlier f T) as"
  proof (rule sorted_wrt_mono_rel [rotated])
    fix a b assume "a \<in> set as" "b \<in> set as" "?key a < ?key b"
    moreover from this s tr have "0 \<le> timeOf f T a \<and> int64 (timeOf f T a)" "0 \<le> timeOf f T b \<and> int64 (timeOf f T b)"
      by (fastforce simp: indexed_def timeOf_def)+
    ultimately show "earlier f T a b" by (simp add: earlier_def time_less)
  qed
  with m s show ?thesis by blast
qed

lemma atMost_short: "(0 < count \<Longrightarrow> int (length xs) < count) \<Longrightarrow> atMost count xs = xs"
  by (cases "0 < count") (simp_all add: atMost_def le_nat_iff)

lemma getLoop_spec:
  assumes rel: "ps_rel c T p" and cd: "info_codec_ok c" and rd: "\<And>a. \<not> readFault (ps_db p) (computePeerKey a)"
    and es: "map fst es = map (\<lambda>a. 97 # be 8 (timeOf attemptOf T a) @ a) as" and as: "set as \<subseteq> dom T"
    and n: "0 < count \<Longrightarrow> int (length acc) < count"
  shows "getLoop c now count p es acc
    = Inr (atMost count (acc @ filter (\<lambda>a. a \<notin> ps_connected p \<and> shouldRetry now (the (T a))) as))"
  using es as n
proof (induction as arbitrary: es acc)
  case Nil
  then show ?case by (simp add: atMost_short)
next
  case (Cons a as)
  from Cons.prems(1) obtain e es' where es: "es = e # es'" "fst e = 97 # be 8 (timeOf attemptOf T a) @ a"
    "map fst es' = map (\<lambda>a. 97 # be 8 (timeOf attemptOf T a) @ a) as" by auto
  obtain i where i: "T a = Some i" using Cons.prems(2) by auto
  with rel have t: "int64 (timeOf attemptOf T a)" by (auto simp: ps_rel_def infoRange_def timeOf_def attemptOf_def)
  have d: "decodeLastAttemptTimeKey (fst e) = Inr (timeOf attemptOf T a, a)"
    by (simp add: es(2) decodeLastAttemptTimeKey_def decodeTimeKey_def read_i64_be [OF t])
  have g: "getPeerInfo c a (ps_db p) = Inr (Some i)" using getPeerInfo_rel [OF rel cd rd] i by simp
  have sub: "set as \<subseteq> dom T" using Cons.prems(2) by simp
  note IH = Cons.IH [OF es(3) sub]
  show ?case
  proof (cases "a \<notin> ps_connected p \<and> shouldRetry now i")
    case False
    then show ?thesis using IH [OF Cons.prems(3)] d g i by (auto simp: es(1))
  next
    case True
    show ?thesis
    proof (cases "int (length (acc @ [a])) = count")
      case stop: True
      then have "nat count = length (acc @ [a])" "0 < count" by auto
      with True stop d g i show ?thesis by (simp add: es(1) atMost_def)
    next
      case False
      then have "0 < count \<Longrightarrow> int (length (acc @ [a])) < count" using Cons.prems(3) by simp
      with IH [of "acc @ [a]"] False True d g i show ?thesis by (simp add: es(1))
    qed
  qed
qed

lemma sinceLoop_spec:
  assumes es: "map fst es = map (\<lambda>a. 115 # be 8 (timeOf f T a) @ a) as" and t: "\<And>a. a \<in> set as \<Longrightarrow> int64 (timeOf f T a)"
    and n: "0 < count \<Longrightarrow> int (length acc) < count"
  shows "sinceLoop count es acc = Inr (atMost count (acc @ as))"
  using es t n
proof (induction as arbitrary: es acc)
  case Nil
  then show ?case by (simp add: atMost_short)
next
  case (Cons a as)
  from Cons.prems(1) obtain e es' where es: "es = e # es'" "fst e = 115 # be 8 (timeOf f T a) @ a"
    "map fst es' = map (\<lambda>a. 115 # be 8 (timeOf f T a) @ a) as" by auto
  have d: "decodeLastSuccessTimeKey (fst e) = Inr (timeOf f T a, a)"
    using Cons.prems(2) by (simp add: es(2) decodeLastSuccessTimeKey_def decodeTimeKey_def read_i64_be)
  show ?case
  proof (cases "int (length (acc @ [a])) = count")
    case stop: True
    then have "nat count = length (acc @ [a])" "0 < count" by auto
    with stop d show ?thesis by (simp add: es(1) atMost_def)
  next
    case False
    then have n: "0 < count \<Longrightarrow> int (length (acc @ [a])) < count" using Cons.prems(3) by simp
    have "sinceLoop count es' (acc @ [a]) = Inr (atMost count ((acc @ [a]) @ as))"
      using Cons.IH [OF es(3) _ n] Cons.prems(2) by simp
    with False d show ?thesis by (simp add: es(1))
  qed
qed

section \<open>Runs\<close>

text \<open>A sequence of operations, each with whether it was refused.\<close>

fun ps_run :: "info_codec \<Rightarrow> peer_op list \<Rightarrow> peer_storage \<Rightarrow> bool list \<times> peer_storage" where
  "ps_run c [] p = ([], p)"
| "ps_run c (op # ops) p =
     (case ps_step c op p of (r, p1) \<Rightarrow> case ps_run c ops p1 of (rs, p2) \<Rightarrow> (isl r # rs, p2))"

fun table_run :: "peer_op list \<Rightarrow> peer_table \<Rightarrow> bytes set \<Rightarrow> bool list \<times> peer_table \<times> bytes set" where
  "table_run [] T C = ([], T, C)"
| "table_run (op # ops) T C =
     (case table_op op (T (op_addr op)) of
        None \<Rightarrow> (case table_run ops T C of (rs, S) \<Rightarrow> (True # rs, S))
      | Some io \<Rightarrow> (case table_run ops (T(op_addr op := io)) (connected_op op C) of (rs, S) \<Rightarrow> (False # rs, S)))"

definition faultless :: "leveldb \<Rightarrow> bool" where
  "faultless db \<longleftrightarrow> (\<forall>k. \<not> readFault db k) \<and> \<not> writeFault db \<and> \<not> iterFault db"

lemma faultless_same: "same_faults a b \<Longrightarrow> faultless a \<Longrightarrow> faultless b"
  by (simp add: faultless_def same_faults_def)

lemma run_refines:
  assumes "ps_rel c T p" "info_codec_ok c" "list_all op_range ops" "faultless (ps_db p)"
    and "table_run ops T (ps_connected p) = (rs, T', C')"
  shows "\<exists>p'. ps_run c ops p = (rs, p') \<and> ps_rel c T' p' \<and> ps_connected p' = C' \<and> faultless (ps_db p')"
  using assms
proof (induction ops arbitrary: T p rs)
  case Nil
  then show ?case by simp
next
  case (Cons op ops)
  have rg: "op_range op" "list_all op_range ops" and f: "\<not> readFault (ps_db p) (computePeerKey (op_addr op))" "\<not> writeFault (ps_db p)"
    using Cons.prems(3,4) by (simp_all add: faultless_def)
  obtain r p1 where st: "ps_step c op p = (r, p1)" "case table_op op (T (op_addr op)) of
      None \<Rightarrow> (\<exists>m. r = Inl (Err m)) \<and> p1 = p
    | Some io \<Rightarrow> r = Inr () \<and> ps_rel c (T(op_addr op := io)) p1 \<and> same_faults (ps_db p) (ps_db p1)
        \<and> ps_connected p1 = connected_op op (ps_connected p)"
    using step_refines [OF Cons.prems(1,2) rg(1) f] by blast
  show ?case
  proof (cases "table_op op (T (op_addr op))")
    case None
    then obtain rs' where "table_run ops T (ps_connected p) = (rs', T', C')" "rs = True # rs'"
      using Cons.prems(5) by (auto split: prod.splits)
    with Cons.IH [OF Cons.prems(1,2) rg(2) Cons.prems(4)] None st show ?thesis by force
  next
    case (Some io)
    then obtain rs' where t: "table_run ops (T(op_addr op := io)) (connected_op op (ps_connected p)) = (rs', T', C')" "rs = False # rs'"
      using Cons.prems(5) by (auto split: prod.splits)
    have s: "r = Inr ()" "ps_rel c (T(op_addr op := io)) p1" "same_faults (ps_db p) (ps_db p1)"
      "ps_connected p1 = connected_op op (ps_connected p)" using st(2) by (simp_all add: Some)
    from Cons.IH [OF s(2) Cons.prems(2) rg(2) faultless_same [OF s(3) Cons.prems(4)]] t s(4)
    obtain p' where "ps_run c ops p1 = (rs', p')" "ps_rel c T' p' \<and> ps_connected p' = C' \<and> faultless (ps_db p')" by metis
    with st(1) s(1) t(2) show ?thesis by simp
  qed
qed

text \<open>A failing database answers with an error and keeps its entries.\<close>

lemma step_fault:
  assumes "readFault (ps_db p) (computePeerKey (op_addr op)) \<or> writeFault (ps_db p)"
  shows "ps_db (snd (ps_step c op p)) = ps_db p"
proof -
  have w: "ps_Write ops p = (Inl IOError, p)" if "writeFault (ps_db p)" for ops using that by (rule ps_Write_fault)
  have g: "getPeerInfo c a (ps_db p) = Inl IOError" if "readFault (ps_db p) (computePeerKey a)" for a
    using that by (simp add: getPeerInfo_def db_Get_def)
  from assms show ?thesis
  proof
    assume "readFault (ps_db p) (computePeerKey (op_addr op))"
    from g [OF this] show ?thesis
      by (cases op) (simp_all add: ps_Store_def ps_Delete_def OnConnectAttempt_def OnConnectFailure_def
          OnConnectSuccess_def OnDisconnect_def withInfo_def)
  next
    assume "writeFault (ps_db p)"
    from w [OF this] show ?thesis
      by (cases op) (simp_all add: ps_Store_def ps_Delete_def deletePeer_def OnConnectAttempt_def OnConnectFailure_def
          OnConnectSuccess_def OnDisconnect_def withInfo_def split: sum.split option.split)
  qed
qed

lemma step_keeps:
  assumes rel: "ps_rel c T p" and cd: "info_codec_ok c" and rg: "op_range op" and st: "ps_step c op p = (r, p')"
  shows "\<exists>T'. ps_rel c T' p'"
proof (cases "readFault (ps_db p) (computePeerKey (op_addr op)) \<or> writeFault (ps_db p)")
  case True
  from step_fault [OF this, of c] rel show ?thesis by (auto simp: st ps_rel_def)
next
  case False
  with step_refines [OF rel cd rg] rel show ?thesis by (auto simp: st split: option.splits)
qed

lemma run_keeps:
  "ps_rel c T p \<Longrightarrow> info_codec_ok c \<Longrightarrow> list_all op_range ops \<Longrightarrow> \<exists>T'. ps_rel c T' (snd (ps_run c ops p))"
proof (induction ops arbitrary: T p)
  case Nil
  then show ?case by auto
next
  case (Cons op ops)
  obtain r p1 where st: "ps_step c op p = (r, p1)" by fastforce
  then obtain T1 where "ps_rel c T1 p1" using step_keeps [OF Cons.prems(1,2) _ st] Cons.prems(3) by auto
  from Cons.IH [OF this Cons.prems(2)] Cons.prems(3) show ?case by (simp add: st case_prod_beta)
qed

lemma rel_empty: "entries db = [] \<Longrightarrow> ps_rel c Map.empty \<lparr>ps_db = db, ps_connected = C\<rparr>"
  by (simp add: ps_rel_def db_ok_def kv_valid_def db_at_def table_at_def timeEntry_def split: list.split)

section \<open>Properties\<close>

lemma entry_shape:
  assumes rel: "ps_rel c T p" and e: "(k, v) \<in> set (entries (ps_db p))"
  shows "\<exists>a i. T a = Some i \<and> infoRange i \<and> ((k, v) = (computePeerKey a, gobEncodeInfo c i)
      \<or> (k, v) = (computeLastAttemptTimeKey (LastAttempt i) a, [1])
      \<or> LastSuccess i \<noteq> 0 \<and> (k, v) = (computeLastSuccessTimeKey (LastSuccess i) a, [1]))"
proof -
  have "db_at (ps_db p) k = Some v"
    unfolding db_at_def using rel e by (auto simp: ps_rel_def db_ok_def intro: map_of_is_SomeI kv_valid_distinct)
  then have t: "table_at c T k = Some v" using rel by (simp add: ps_rel_def)
  then obtain x r where k: "k = x # r" by (cases k) (auto simp: table_at_def)
  have ti: "\<exists>a i t. T a = Some i \<and> f i = Some t \<and> r = be 8 t @ a \<and> v = [1]" if "timeEntry f T r = Some v" for f
    using that timeEntry_Some [of f T r] by (auto simp: timeEntry_def split: option.splits if_splits)
  have ir: "infoRange i" if "T a = Some i" for a i using rel that by (auto simp: ps_rel_def)
  consider "x = 112" "map_option (gobEncodeInfo c) (T r) = Some v" | "x = 97" "timeEntry attemptOf T r = Some v"
    | "x = 115" "timeEntry successOf T r = Some v"
    using t by (auto simp: k table_at_def split: if_splits)
  then show ?thesis
  proof cases
    case 1
    then show ?thesis using ir by (auto simp: k key_defs)
  next
    case 2
    with ti [OF 2(2)] ir show ?thesis by (auto simp: k key_defs attemptOf_def)
  next
    case 3
    with ti [OF 3(2)] ir show ?thesis by (fastforce simp: k key_defs successOf_def split: if_splits)
  qed
qed


text \<open>
  C24 (refinement). The storage of peers refines a table of addresses. A sequence of operations on a storage whose database does not
  fail is refused exactly where the table refuses it, and leaves the storage that stands for the table the sequence
  leads to, with the same addresses connected; \<^verbatim>\<open>getPeerInfo\<close> then reads this table.
\<close>

theorem peers_refine_table:
  assumes rel: "ps_rel c T p" and cd: "info_codec_ok c" and rg: "list_all op_range ops" and f: "faultless (ps_db p)"
    and tr: "table_run ops T (ps_connected p) = (rs, T', C')"
  shows "\<exists>p'. ps_run c ops p = (rs, p') \<and> ps_rel c T' p' \<and> ps_connected p' = C'
    \<and> (\<forall>a. getPeerInfo c a (ps_db p') = Inr (T' a))"
proof -
  obtain p' where p': "ps_run c ops p = (rs, p')" "ps_rel c T' p'" "ps_connected p' = C'" "faultless (ps_db p')"
    using run_refines [OF assms] by blast
  then have "getPeerInfo c a (ps_db p') = Inr (T' a)" for a
    using getPeerInfo_rel [OF p'(2) cd] by (simp add: faultless_def)
  with p' show ?thesis by blast
qed

text \<open>
  C26 (functional). \<^verbatim>\<open>Get\<close> returns peers worth trying. It lists the known addresses that are not connected and due for another
  attempt, those tried longest ago first, and stops after \<^verbatim>\<open>count\<close> of them.
\<close>

theorem peers_to_try:
  assumes rel: "ps_rel c T p" and cd: "info_codec_ok c" and f: "faultless (ps_db p)" and now: "0 \<le> now" "int64 now"
  shows "\<exists>as. ps_Get c now count p = Inr (atMost count as) \<and> sorted_wrt (earlier attemptOf T) as
    \<and> set as = {a. \<exists>i. T a = Some i \<and> LastAttempt i < now \<and> a \<notin> ps_connected p \<and> shouldRetry now i}"
proof -
  define es where "es = filter (\<lambda>e. 97 # be 8 0 \<le> fst e \<and> fst e < 97 # be 8 now) (entries (ps_db p))"
  obtain as where as: "map fst es = map (\<lambda>a. 97 # be 8 (timeOf attemptOf T a) @ a) as" "set as = indexed attemptOf T 0 now"
      "sorted_wrt (earlier attemptOf T) as"
    using index_range [OF rel _ _ _ now es_def, of attemptOf] by (auto simp: int64_def)
  let ?P = "\<lambda>a. a \<notin> ps_connected p \<and> shouldRetry now (the (T a))"
  have "getLoop c now count p es [] = Inr (atMost count ([] @ filter ?P as))"
    by (rule getLoop_spec [OF rel cd _ as(1)]) (use f as(2) in \<open>auto simp: faultless_def indexed_def\<close>)
  then have "ps_Get c now count p = Inr (atMost count (filter ?P as))"
    using f by (simp add: ps_Get_def ps_Snapshot_def db_Range_def faultless_def computeLastAttemptTimeKey_def es_def)
  moreover have "set (filter ?P as) = {a. \<exists>i. T a = Some i \<and> LastAttempt i < now \<and> a \<notin> ps_connected p \<and> shouldRetry now i}"
    using as(2) rel by (auto simp: indexed_def attemptOf_def ps_rel_def infoRange_def)
  moreover have "sorted_wrt (earlier attemptOf T) (filter ?P as)" using as(3) by (rule sorted_wrt_filter)
  ultimately show ?thesis by blast
qed

text \<open>
  \<^verbatim>\<open>GetSince\<close> returns peers to tell others about. It lists the addresses successfully connected to at or after
  \<^verbatim>\<open>when\<close> and before now, the most recent first, and stops after \<^verbatim>\<open>count\<close> of them.
\<close>

theorem peers_to_tell:
  assumes rel: "ps_rel c T p" and f: "\<not> iterFault (ps_db p)" and r: "0 \<le> when" "int64 when" "0 \<le> now" "int64 now"
  shows "\<exists>as. ps_GetSince now count when p = Inr (atMost count (rev as)) \<and> sorted_wrt (earlier successOf T) as
    \<and> set as = {a. \<exists>i. T a = Some i \<and> LastSuccess i \<noteq> 0 \<and> when \<le> LastSuccess i \<and> LastSuccess i < now}"
proof -
  define es where "es = filter (\<lambda>e. 115 # be 8 when \<le> fst e \<and> fst e < 115 # be 8 now) (entries (ps_db p))"
  obtain as where as: "map fst es = map (\<lambda>a. 115 # be 8 (timeOf successOf T a) @ a) as" "set as = indexed successOf T when now"
      "sorted_wrt (earlier successOf T) as"
    using index_range [OF rel _ r es_def, of successOf] by auto
  have m: "map fst (rev es) = map (\<lambda>a. 115 # be 8 (timeOf successOf T a) @ a) (rev as)"
    using as(1) by (simp add: rev_map [symmetric])
  have t: "int64 (timeOf successOf T a)" if "a \<in> set (rev as)" for a
    using that as(2) rel by (auto simp: indexed_def timeOf_def successOf_def ps_rel_def infoRange_def split: if_splits)
  have "sinceLoop count (rev es) [] = Inr (atMost count ([] @ rev as))"
    by (rule sinceLoop_spec [OF m t]) simp_all
  then have "ps_GetSince now count when p = Inr (atMost count (rev as))"
    using f by (simp add: ps_GetSince_def ps_Snapshot_def db_Range_def computeLastSuccessTimeKey_def es_def)
  moreover have "set as = {a. \<exists>i. T a = Some i \<and> LastSuccess i \<noteq> 0 \<and> when \<le> LastSuccess i \<and> LastSuccess i < now}"
    using as(2) by (auto simp: indexed_def successOf_def split: if_splits)
  ultimately show ?thesis using as(3) by blast
qed

section \<open>A storage in use\<close>

definition sample_info_codec :: info_codec where
  "sample_info_codec = \<lparr>gobEncodeInfo = \<lambda>i. be 8 (FirstSeen i) @ be 8 (LastAttempt i) @ be 8 (LastSuccess i),
     gobDecodeInfo = \<lambda>bs. bindE (read_i64 bs) (\<lambda>(f, bs). bindE (read_i64 bs) (\<lambda>(a, bs). bindE (read_i64 bs) (\<lambda>(s, bs).
       Inr \<lparr>FirstSeen = f, LastAttempt = a, LastSuccess = s\<rparr>)))\<rparr>"

lemma sample_info_codec_ok: "info_codec_ok sample_info_codec"
proof -
  have "read_i64 (be 8 x) = Inr (x, [])" if "int64 x" for x using read_i64_be [OF that, of "[]"] by simp
  then show ?thesis by (simp add: info_codec_ok_def sample_info_codec_def infoRange_def read_i64_be)
qed

definition sample_peer_db :: leveldb where
  "sample_peer_db = \<lparr>entries = [], readFault = \<lambda>_. False, writeFault = False, iterFault = False\<rparr>"

definition sample_storage :: peer_storage where
  "sample_storage = \<lparr>ps_db = sample_peer_db, ps_connected = {}\<rparr>"

text \<open>Two peers are learnt of; the second is connected to, the first is dropped after a failed attempt.\<close>

definition sample_peer_ops :: "peer_op list" where
  "sample_peer_ops = [PStore 2000000000 5 [65], PStore 2000000000 9 [66], PAttempt 2000000100 [66], PSuccess 2000000101 [66],
     PAttempt 2000000102 [65], PFailure (2000000103 * 10 ^ 9) [65], PAttempt 2000000104 [65], PStore 2000000104 3 [67]]"

definition sample_table :: peer_table where
  "sample_table = [[66] \<mapsto> \<lparr>FirstSeen = 2000000000, LastAttempt = 2000000100, LastSuccess = 2000000101\<rparr>,
     [67] \<mapsto> \<lparr>FirstSeen = 2000000104, LastAttempt = 3, LastSuccess = 0\<rparr>]"

lemma sample_ops_range: "list_all op_range sample_peer_ops"
  by (simp add: sample_peer_ops_def int64_def)

lemma sample_faultless: "faultless (ps_db sample_storage)"
  by (simp add: faultless_def sample_storage_def sample_peer_db_def)

lemma sample_storage_rel: "ps_rel sample_info_codec Map.empty sample_storage"
  unfolding sample_storage_def by (rule rel_empty) (simp add: sample_peer_db_def)

lemma sample_table_run:
  "table_run sample_peer_ops Map.empty {} = ([False, False, False, False, False, False, True, False], sample_table, {[66]})"
  by (simp add: sample_peer_ops_def sample_table_def shouldDelete_def fun_upd_twist)

definition sample_peers :: peer_storage where
  "sample_peers = snd (ps_run sample_info_codec sample_peer_ops sample_storage)"

lemma sample_peers_rel:
  "ps_rel sample_info_codec sample_table sample_peers" "ps_connected sample_peers = {[66]}" "faultless (ps_db sample_peers)"
proof -
  have "ps_connected sample_storage = {}" by (simp add: sample_storage_def)
  then obtain p' where p': "ps_run sample_info_codec sample_peer_ops sample_storage
      = ([False, False, False, False, False, False, True, False], p')"
    and r: "ps_rel sample_info_codec sample_table p' \<and> ps_connected p' = {[66]} \<and> faultless (ps_db p')"
    using run_refines [OF sample_storage_rel sample_info_codec_ok sample_ops_range sample_faultless, of _ sample_table "{[66]}"]
      sample_table_run by metis
  have "sample_peers = p'" unfolding sample_peers_def p' by (rule snd_conv)
  with r show "ps_rel sample_info_codec sample_table sample_peers" "ps_connected sample_peers = {[66]}"
    "faultless (ps_db sample_peers)" by blast+
qed


theorem peers_refine_table_witness:
  "\<exists>p'. ps_run sample_info_codec sample_peer_ops sample_storage = ([False, False, False, False, False, False, True, False], p')
    \<and> getPeerInfo sample_info_codec [65] (ps_db p') = Inr None \<and> ps_connected p' = {[66]}"
proof -
  have "table_run sample_peer_ops Map.empty (ps_connected sample_storage)
      = ([False, False, False, False, False, False, True, False], sample_table, {[66]})"
    using sample_table_run by (simp add: sample_storage_def)
  from peers_refine_table [OF sample_storage_rel sample_info_codec_ok sample_ops_range sample_faultless this]
  obtain p' where "ps_run sample_info_codec sample_peer_ops sample_storage = ([False, False, False, False, False, False, True, False], p')"
    "ps_connected p' = {[66]}" "\<forall>a. getPeerInfo sample_info_codec a (ps_db p') = Inr (sample_table a)" by blast
  then show ?thesis by (auto simp: sample_table_def)
qed

theorem peers_to_try_witness: "ps_Get sample_info_codec 2000000200 1 sample_peers = Inr [[67]]"
proof -
  obtain as where as: "ps_Get sample_info_codec 2000000200 1 sample_peers = Inr (atMost 1 as)"
    "set as = {a. \<exists>i. sample_table a = Some i \<and> LastAttempt i < 2000000200 \<and> a \<notin> {[66]} \<and> shouldRetry 2000000200 i}"
    using peers_to_try [OF sample_peers_rel(1) sample_info_codec_ok sample_peers_rel(3), of 2000000200 1] sample_peers_rel(2)
    by (auto simp: int64_def)
  have "set as = {[67]}" unfolding as(2)
    by (auto simp: sample_table_def shouldRetry_def split: if_splits)
  then obtain bs where "as = [67] # bs" by (cases as) auto
  then show ?thesis by (simp add: as(1) atMost_def)
qed

theorem peers_to_tell_witness: "ps_GetSince 2000000200 1 2000000000 sample_peers = Inr [[66]]"
proof -
  obtain as where as: "ps_GetSince 2000000200 1 2000000000 sample_peers = Inr (atMost 1 (rev as))"
    "set as = {a. \<exists>i. sample_table a = Some i \<and> LastSuccess i \<noteq> 0 \<and> 2000000000 \<le> LastSuccess i \<and> LastSuccess i < 2000000200}"
    using peers_to_tell [OF sample_peers_rel(1), of 2000000000 2000000200 1] sample_peers_rel(3)
    by (auto simp: int64_def faultless_def)
  have "set (rev as) = {[66]}" unfolding set_rev as(2)
    by (auto simp: sample_table_def split: if_splits)
  then obtain bs where "rev as = [66] # bs" by (cases "rev as") auto
  then show ?thesis by (simp add: as(1) atMost_def)
qed

end
