(* ===== verification/Peer.thy ===== *)
theory Peer
  imports Miner Block_Queue Peer_Storage Ledger_Queries
begin

text \<open>
  \<^verbatim>\<open>src/peer.go\<close> and the messages of \<^verbatim>\<open>src/protocol.go\<close>: one connection to a peer, its download queues and its protocol
  handlers. The state of a connection holds the objects all connections share (the processor with the ledger, the block
  store and the transaction queue, the global queue of blocks in flight, the storage of addresses, the channel to the
  peer manager) in the field \<open>pr_node\<close>. A handler returns its error and the new state; one that gives a block to the
  processor may not return, which is \<open>None\<close>. An error is logged, a panic ends the process.

  Messages to the peer, whether written by the writer loop or put into its channel, are kept in order in \<open>pr_sent\<close>.
  Closing the connection sets a flag; the reader loop then ends. The WebSocket and the cuckoo filter are third-party
  code, and \<^verbatim>\<open>json.Unmarshal\<close> works by reflection: the filter and the decoders are parameters. A failing write closes
  the connection and is no different from a connection lost at that point. The clock and the random numbers are
  arguments.
\<close>

section \<open>Messages\<close>

record filter_block =
  fb_BlockID :: block_id
  fb_Header :: "block_header option"
  fb_Transactions :: "transaction option list"

text \<open>Messages sent. An optional body is one that may be missing; the text of an error is the error.\<close>

datatype message =
    InvBlockMessage "block_id list"
  | GetBlockMessage block_id
  | BlockMessage "block_id option" "bytes option"
  | BlockHeaderMessage "block_id option" "block_header option"
  | FindCommonAncestorMessage "block_id list"
  | BalanceMessage "block_id option" int bytes int "error option"
  | BalancesMessage "block_id option" int "(bytes \<times> int) list" "error option"
  | TransactionMessage "block_id option" int tx_id "transaction option"
  | TipHeaderMessage "(block_id option \<times> block_header option \<times> int) option"
  | PushTransactionMessage transaction
  | PushTransactionResultMessage tx_id "error option"
  | FilterResultMessage "error option"
  | FilterBlockMessage filter_block
  | FilterBlockUndoMessage filter_block
  | FilterTransactionQueueMessage "transaction list" "error option"
  | PublicKeyTransactionsMessage "(bytes \<times> int \<times> int \<times> int \<times> filter_block list \<times> error option) option"
  | GetPeerAddressesMessage
  | PeerAddressesMessage "bytes list"
  | TransactionRelayPolicyMessage int int
  | WorkMessage int "block_header option" int "error option"
  | SubmitWorkResultMessage int "error option"

text \<open>
  Messages received. A pointer that was absent in the text is \<open>None\<close>: of a block its header, and single
  transactions of its list, may be missing.
\<close>

datatype request =
    InvBlock "block_id list"
  | GetBlock block_id
  | GetBlockByHeight int
  | BlockReceived "(block_header option \<times> transaction option list) option"
  | FindCommonAncestor "block_id list"
  | GetBlockHeader block_id
  | GetBlockHeaderByHeight int
  | GetBalance bytes
  | GetBalances "bytes list"
  | GetPublicKeyTransactions bytes int int int int
  | GetTransaction tx_id
  | GetTipHeader
  | PushTransaction "transaction option"
  | PushTransactionResult
  | FilterLoad string bytes
  | FilterAdd "bytes list"
  | GetFilterTransactionQueue
  | GetPeerAddresses
  | PeerAddresses "bytes list"
  | GetTransactionRelayPolicy
  | GetWork "bytes list" bytes
  | SubmitWork int "block_header option"
  | UnknownMessage string

text \<open>The decoders of the frame and of the bodies.\<close>

record wire =
  w_frame :: "bytes \<Rightarrow> (string \<times> bytes) result"
  w_InvBlock :: "bytes \<Rightarrow> block_id list result"
  w_GetBlock :: "bytes \<Rightarrow> block_id result"
  w_GetBlockByHeight :: "bytes \<Rightarrow> int result"
  w_Block :: "bytes \<Rightarrow> (block_header option \<times> transaction option list) option result"
  w_FindCommonAncestor :: "bytes \<Rightarrow> block_id list result"
  w_GetBlockHeader :: "bytes \<Rightarrow> block_id result"
  w_GetBlockHeaderByHeight :: "bytes \<Rightarrow> int result"
  w_GetBalance :: "bytes \<Rightarrow> bytes result"
  w_GetBalances :: "bytes \<Rightarrow> bytes list result"
  w_GetPublicKeyTransactions :: "bytes \<Rightarrow> (bytes \<times> int \<times> int \<times> int \<times> int) result"
  w_GetTransaction :: "bytes \<Rightarrow> tx_id result"
  w_PushTransaction :: "bytes \<Rightarrow> transaction option result"
  w_PushTransactionResult :: "bytes \<Rightarrow> unit result"
  w_FilterLoad :: "bytes \<Rightarrow> (string \<times> bytes) result"
  w_FilterAdd :: "bytes \<Rightarrow> bytes list result"
  w_PeerAddresses :: "bytes \<Rightarrow> bytes list result"
  w_GetWork :: "bytes \<Rightarrow> (bytes list \<times> bytes) result"
  w_SubmitWork :: "bytes \<Rightarrow> (int \<times> block_header option) result"

definition parseRequest :: "wire \<Rightarrow> string \<Rightarrow> bytes \<Rightarrow> request result" where
  "parseRequest w ty body =
     (if ty = ''inv_block'' then bindE (w_InvBlock w body) (\<lambda>ids. Inr (InvBlock ids))
      else if ty = ''get_block'' then bindE (w_GetBlock w body) (\<lambda>i. Inr (GetBlock i))
      else if ty = ''get_block_by_height'' then bindE (w_GetBlockByHeight w body) (\<lambda>h. Inr (GetBlockByHeight h))
      else if ty = ''block'' then bindE (w_Block w body) (\<lambda>b. Inr (BlockReceived b))
      else if ty = ''find_common_ancestor'' then bindE (w_FindCommonAncestor w body) (\<lambda>ids. Inr (FindCommonAncestor ids))
      else if ty = ''get_block_header'' then bindE (w_GetBlockHeader w body) (\<lambda>i. Inr (GetBlockHeader i))
      else if ty = ''get_block_header_by_height'' then bindE (w_GetBlockHeaderByHeight w body) (\<lambda>h. Inr (GetBlockHeaderByHeight h))
      else if ty = ''get_balance'' then bindE (w_GetBalance w body) (\<lambda>k. Inr (GetBalance k))
      else if ty = ''get_balances'' then bindE (w_GetBalances w body) (\<lambda>ks. Inr (GetBalances ks))
      else if ty = ''get_public_key_transactions''
        then bindE (w_GetPublicKeyTransactions w body) (\<lambda>(k, s, e, i, n). Inr (GetPublicKeyTransactions k s e i n))
      else if ty = ''get_transaction'' then bindE (w_GetTransaction w body) (\<lambda>i. Inr (GetTransaction i))
      else if ty = ''get_tip_header'' then Inr GetTipHeader
      else if ty = ''push_transaction'' then bindE (w_PushTransaction w body) (\<lambda>t. Inr (PushTransaction t))
      else if ty = ''push_transaction_result'' then bindE (w_PushTransactionResult w body) (\<lambda>_. Inr PushTransactionResult)
      else if ty = ''filter_load'' then bindE (w_FilterLoad w body) (\<lambda>(t, f). Inr (FilterLoad t f))
      else if ty = ''filter_add'' then bindE (w_FilterAdd w body) (\<lambda>ks. Inr (FilterAdd ks))
      else if ty = ''get_filter_transaction_queue'' then Inr GetFilterTransactionQueue
      else if ty = ''get_peer_addresses'' then Inr GetPeerAddresses
      else if ty = ''peer_addresses'' then bindE (w_PeerAddresses w body) (\<lambda>as. Inr (PeerAddresses as))
      else if ty = ''get_transaction_relay_policy'' then Inr GetTransactionRelayPolicy
      else if ty = ''get_work'' then bindE (w_GetWork w body) (\<lambda>(ks, m). Inr (GetWork ks m))
      else if ty = ''submit_work'' then bindE (w_SubmitWork w body) (\<lambda>(i, h). Inr (SubmitWork i h))
      else Inr (UnknownMessage ty))"

section \<open>The connection\<close>

record node =
  n_processor :: processor
  n_inflight :: block_queue
  n_peerStore :: peer_storage
  n_addrs :: "bytes list"

record 'f peer =
  pr_node :: node
  pr_addr :: string
  pr_genesisID :: block_id
  pr_outbound :: bool
  localDownloadQueue :: block_queue
  localInflightQueue :: block_queue
  ignoreBlocks :: "block_id list"
  continuationBlockID :: block_id
  lastPeerAddressesReceivedTime :: "int option"
  pr_filter :: "'f option"
  pr_workID :: int
  pr_workBlock :: "mining_block option"
  pr_medianTimestamp :: int
  pr_pubKeys :: "bytes list"
  pr_memo :: bytes
  pr_readLimit :: int
  pr_ibd :: bool
  pr_lastNewBlock :: int
  pr_getWork :: "(bytes list \<times> bytes) list"
  pr_submitWork :: "(int \<times> block_header) list"
  pr_sent :: "message list"
  pr_closed :: bool

record 'f cuckoo =
  cf_Decode :: "bytes \<Rightarrow> 'f result"
  cf_New :: 'f
  cf_Insert :: "bytes \<Rightarrow> 'f \<Rightarrow> bool \<times> 'f"
  cf_Lookup :: "bytes \<Rightarrow> 'f \<Rightarrow> bool"

definition maxBlocksPerInv :: nat where "maxBlocksPerInv = 500"
definition inflightQueueMax :: nat where "inflightQueueMax = 8"
definition downloadQueueMax :: nat where "downloadQueueMax = maxBlocksPerInv * 10"
definition getPeerAddressesPeriod :: int where "getPeerAddressesPeriod = 3600 * 10 ^ 9"
definition syncWait :: int where "syncWait = 120 * 10 ^ 9"

abbreviation pr_processor :: "'f peer \<Rightarrow> processor" where "pr_processor p \<equiv> n_processor (pr_node p)"
abbreviation pr_ledger :: "'f peer \<Rightarrow> ledger" where "pr_ledger p \<equiv> p_ledger (pr_processor p)"
abbreviation pr_blockStore :: "'f peer \<Rightarrow> block_store" where "pr_blockStore p \<equiv> p_blockStore (pr_processor p)"
abbreviation pr_txQueue :: "'f peer \<Rightarrow> tx_queue" where "pr_txQueue p \<equiv> p_txQueue (pr_processor p)"

definition setProcessor :: "processor \<Rightarrow> 'f peer \<Rightarrow> 'f peer" where
  "setProcessor proc p = p\<lparr>pr_node := (pr_node p)\<lparr>n_processor := proc\<rparr>\<rparr>"

definition send :: "message \<Rightarrow> 'f peer \<Rightarrow> 'f peer" where
  "send m p = p\<lparr>pr_sent := pr_sent p @ [m]\<rparr>"

definition closeConn :: "'f peer \<Rightarrow> 'f peer" where
  "closeConn p = p\<lparr>pr_closed := True\<rparr>"

definition isPanic :: "error \<Rightarrow> bool" where
  "isPanic e = (case e of Panic _ \<Rightarrow> True | _ \<Rightarrow> False)"

text \<open>Going on after a step that may not return.\<close>

definition bindO :: "('a result \<times> 's) option \<Rightarrow> ('a \<Rightarrow> 's \<Rightarrow> ('b result \<times> 's) option) \<Rightarrow> ('b result \<times> 's) option" where
  "bindO m f = (case m of None \<Rightarrow> None | Some (Inl e, s) \<Rightarrow> Some (Inl e, s) | Some (Inr x, s) \<Rightarrow> f x s)"

text \<open>A call whose error is only logged.\<close>

definition logged :: "'a result \<times> 's \<Rightarrow> unit result \<times> 's" where
  "logged m = (case m of (Inl e, s) \<Rightarrow> (if isPanic e then Inl e else Inr (), s) | (Inr _, s) \<Rightarrow> (Inr (), s))"

text \<open>\<^verbatim>\<open>log.Fatal\<close> ends the process as a panic does. A limit of 0 is no limit.\<close>

definition updateReadLimit :: "int \<Rightarrow> 'f peer \<Rightarrow> unit result \<times> 'f peer" where
  "updateReadLimit now p =
     (case IsInitialBlockDownload (pr_ledger p) (pr_blockStore p) now of
        Inl e \<Rightarrow> (Inl (Panic ''log.Fatal''), p)
      | Inr (ok, height) \<Rightarrow>
          if ok then (Inr (), p\<lparr>pr_readLimit := 0\<rparr>)
          else (case computeMaxTransactionsPerBlock (i64 (height + 1)) of
                  Inl e \<Rightarrow> (Inl e, p)
                | Inr maxTransactions \<Rightarrow> (Inr (), p\<lparr>pr_readLimit := i64 (maxTransactions * 1024)\<rparr>)))"

definition NewPeer :: "int \<Rightarrow> string \<Rightarrow> block_id \<Rightarrow> node \<Rightarrow> unit result \<times> 'f peer" where
  "NewPeer now addr genesisID n =
     updateReadLimit now \<lparr>pr_node = n, pr_addr = addr, pr_genesisID = genesisID, pr_outbound = False,
       localDownloadQueue = NewBlockQueue, localInflightQueue = NewBlockQueue, ignoreBlocks = [], continuationBlockID = 0,
       lastPeerAddressesReceivedTime = None, pr_filter = None, pr_workID = 0, pr_workBlock = None, pr_medianTimestamp = 0,
       pr_pubKeys = [], pr_memo = [], pr_readLimit = 0, pr_ibd = False, pr_lastNewBlock = 0, pr_getWork = [],
       pr_submitWork = [], pr_sent = [], pr_closed = False\<rparr>"

text \<open>The outcome of dialling the peer is given: connected, or failed with the status of the reply, 0 if there was none.\<close>

datatype dial = Dialled | DialRefused int

definition StatusTooManyRequests :: int where "StatusTooManyRequests = 429"

definition onPeerStore :: "(peer_storage \<Rightarrow> 'a result \<times> peer_storage) \<Rightarrow> 'f peer \<Rightarrow> 'a result \<times> 'f peer" where
  "onPeerStore f p =
     (case f (n_peerStore (pr_node p)) of (r, s) \<Rightarrow> (r, p\<lparr>pr_node := (pr_node p)\<lparr>n_peerStore := s\<rparr>\<rparr>))"

definition Connect :: "info_codec \<Rightarrow> int \<Rightarrow> dial \<Rightarrow> bytes \<Rightarrow> 'f peer \<Rightarrow> int \<times> unit result \<times> 'f peer" where
  "Connect c nowNano dial addr p =
     (case onPeerStore (OnConnectAttempt c (nowNano div 10 ^ 9) addr) p of
        (Inl e, p) \<Rightarrow> (0, Inl e, p)
      | (Inr _, p) \<Rightarrow>
          (case dial of
             DialRefused statusCode \<Rightarrow>
               (statusCode,
                if statusCode = StatusTooManyRequests
                then bindS (logged (onPeerStore (OnConnectSuccess c (nowNano div 10 ^ 9) addr) p)) (\<lambda>_ p.
                  bindS (logged (onPeerStore (OnDisconnect addr) p)) (\<lambda>_ p. (Inl (Err ''bad handshake''), p)))
                else bindS (logged (onPeerStore (OnConnectFailure c nowNano addr) p)) (\<lambda>_ p. (Inl (Err ''dial failed''), p)))
           | Dialled \<Rightarrow> (101, onPeerStore (OnConnectSuccess c (nowNano div 10 ^ 9) addr) (p\<lparr>pr_outbound := True\<rparr>))))"

section \<open>Looking for a common ancestor\<close>

text \<open>
  The identifiers of ever older blocks of the main chain, the first eleven in a row and then with gaps that double. An
  error reading the ledger gives up without sending anything. The loop ends because the height falls.
\<close>

partial_function (option) locatorLoop ::
  "ledger \<Rightarrow> block_id \<Rightarrow> block_id option \<Rightarrow> int \<Rightarrow> int \<Rightarrow> block_id list \<Rightarrow> block_id list result option" where
  "locatorLoop l genesisID i height step ids =
     (case i of None \<Rightarrow> Some (Inr ids)
      | Some i \<Rightarrow>
          if i = genesisID then Some (Inr ids)
          else let ids = ids @ [i]; depth = i64 (height - step)
               in if depth \<le> 0 then Some (Inr ids)
                  else (case GetBlockIDForHeight l depth of
                          Inl e \<Rightarrow> Some (Inl e)
                        | Inr i \<Rightarrow> locatorLoop l genesisID i depth (if length ids > 10 then i64 (step * 2) else step) ids))"

definition locatorStart :: "block_id option \<Rightarrow> 'f peer \<Rightarrow> (block_id option \<times> int) result" where
  "locatorStart startID p =
     (case startID of
        None \<Rightarrow> bindE (GetChainTip (pr_ledger p)) (\<lambda>tip. Inr (map_option fst tip, case tip of None \<Rightarrow> 0 | Some (_, h) \<Rightarrow> h))
      | Some i \<Rightarrow> bindE (bs_GetBlockHeader (pr_blockStore p) i) (\<lambda>h.
          case h of None \<Rightarrow> Inl (Err ''No header for block'') | Some (header, _) \<Rightarrow> Inr (Some i, Height header)))"

definition sendFindCommonAncestor :: "block_id option \<Rightarrow> 'f peer \<Rightarrow> (unit result \<times> 'f peer) option" where
  "sendFindCommonAncestor startID p =
     (case locatorStart startID p of
        Inl e \<Rightarrow> Some (Inl e, p)
      | Inr (i, height) \<Rightarrow>
          (case locatorLoop (pr_ledger p) (pr_genesisID p) i height 1 [] of
             None \<Rightarrow> None
           | Some (Inl e) \<Rightarrow> Some (Inr (), p)
           | Some (Inr ids) \<Rightarrow> Some (Inr (), send (FindCommonAncestorMessage (ids @ [pr_genesisID p])) p)))"

fun invLoop :: "ledger \<Rightarrow> int \<Rightarrow> nat \<Rightarrow> block_id list result" where
  "invLoop l height 0 = Inr []"
| "invLoop l height (Suc room) =
     bindE (GetBlockIDForHeight l height) (\<lambda>nextID.
       case nextID of None \<Rightarrow> Inr []
       | Some i \<Rightarrow> bindE (invLoop l (i64 (height + 1)) room) (\<lambda>ids. Inr (i # ids)))"

definition onFindCommonAncestor :: "block_id \<Rightarrow> 'f peer \<Rightarrow> bool result \<times> 'f peer" where
  "onFindCommonAncestor i p =
     (case bs_GetBlockHeader (pr_blockStore p) i of
        Inl e \<Rightarrow> (Inl e, p)
      | Inr None \<Rightarrow> (Inr False, p)
      | Inr (Some (header, _)) \<Rightarrow>
          (case GetBranchType (pr_ledger p) i of
             Inl e \<Rightarrow> (Inl e, p)
           | Inr branchType \<Rightarrow>
               if branchType \<noteq> MAIN then (Inr False, p)
               else (case invLoop (pr_ledger p) (i64 (Height header + 1)) maxBlocksPerInv of
                       Inl e \<Rightarrow> (Inl e, p)
                     | Inr ids \<Rightarrow>
                         (Inr True, if ids = [] then p
                            else send (InvBlockMessage ids) (p\<lparr>continuationBlockID := last ids\<rparr>)))))"

text \<open>The loop over the identifiers of a \<^verbatim>\<open>find_common_ancestor\<close> message; it stops at an error.\<close>

fun findCommonAncestors :: "block_id list \<Rightarrow> 'f peer \<Rightarrow> unit result \<times> 'f peer" where
  "findCommonAncestors [] p = (Inr (), p)"
| "findCommonAncestors (i # ids) p =
     (case onFindCommonAncestor i p of
        (Inl e, p) \<Rightarrow> (Inl e, p)
      | (Inr ok, p) \<Rightarrow> if ok then (Inr (), p) else findCommonAncestors ids p)"

section \<open>Downloading blocks\<close>

definition onDownload :: "(block_queue \<Rightarrow> 'a result \<times> block_queue) \<Rightarrow> 'f peer \<Rightarrow> 'a result \<times> 'f peer" where
  "onDownload f p = (case f (localDownloadQueue p) of (r, q) \<Rightarrow> (r, p\<lparr>localDownloadQueue := q\<rparr>))"

definition onInflight :: "(block_queue \<Rightarrow> 'a result \<times> block_queue) \<Rightarrow> 'f peer \<Rightarrow> 'a result \<times> 'f peer" where
  "onInflight f p = (case f (localInflightQueue p) of (r, q) \<Rightarrow> (r, p\<lparr>localInflightQueue := q\<rparr>))"

definition onGlobal :: "(block_queue \<Rightarrow> 'a result \<times> block_queue) \<Rightarrow> 'f peer \<Rightarrow> 'a result \<times> 'f peer" where
  "onGlobal f p = (case f (n_inflight (pr_node p)) of (r, q) \<Rightarrow> (r, p\<lparr>pr_node := (pr_node p)\<lparr>n_inflight := q\<rparr>\<rparr>))"

text \<open>One pass of the loop of \<^verbatim>\<open>processDownloadQueue\<close>; it returns whether the loop goes on.\<close>

definition downloadNext :: "int \<Rightarrow> 'f peer \<Rightarrow> bool result \<times> 'f peer" where
  "downloadNext now p =
     (if bq_Len (localInflightQueue p) \<ge> inflightQueueMax then (Inr False, p)
      else (case bq_Peek (localDownloadQueue p) of
              None \<Rightarrow> (Inr False, p)
            | Some blockToDownload \<Rightarrow>
                (case GetBranchType (pr_ledger p) blockToDownload of
                   Inl e \<Rightarrow> (Inl e, p)
                 | Inr branchType \<Rightarrow>
                     if branchType \<noteq> UNKNOWN
                     then bindS (onDownload (bq_Remove blockToDownload '''') p) (\<lambda>_ p. (Inr True, p))
                     else bindS (onGlobal (bq_Add now blockToDownload (pr_addr p)) p) (\<lambda>added p.
                       if \<not> added then (Inr False, p)
                       else bindS (onDownload (bq_Remove blockToDownload '''') p) (\<lambda>_ p.
                         bindS (onInflight (bq_Add now blockToDownload '''') p) (\<lambda>_ p.
                           (Inr True, send (GetBlockMessage blockToDownload) p)))))))"

partial_function (option) processDownloadQueue :: "int \<Rightarrow> 'f peer \<Rightarrow> (unit result \<times> 'f peer) option" where
  "processDownloadQueue now p =
     (case downloadNext now p of
        (Inl e, p) \<Rightarrow> Some (Inl e, p)
      | (Inr goOn, p) \<Rightarrow> if goOn then processDownloadQueue now p else Some (Inr (), p))"

definition onInvBlock :: "int \<Rightarrow> block_id \<Rightarrow> nat \<Rightarrow> nat \<Rightarrow> 'f peer \<Rightarrow> (unit result \<times> 'f peer) option" where
  "onInvBlock now i index len p =
     (if len > maxBlocksPerInv then Some (Inl (Err ''more than maximum per inv_block''), p)
      else if i \<in> set (ignoreBlocks p) then Some (Inr (), p)
      else if bq_Exists i (localDownloadQueue p) \<or> bq_Exists i (localInflightQueue p) then Some (Inr (), p)
      else (case GetBranchType (pr_ledger p) i of
              Inl e \<Rightarrow> Some (Inl e, p)
            | Inr branchType \<Rightarrow>
                if branchType \<noteq> UNKNOWN
                then if len > 1 \<and> index + 1 = len then sendFindCommonAncestor (Some i) p else Some (Inr (), p)
                else if bq_Len (localDownloadQueue p) \<ge> downloadQueueMax then Some (Inr (), p)
                else bindO (Some (onDownload (bq_Add now i '''') p)) (\<lambda>_. processDownloadQueue now)))"

fun invBlocks :: "int \<Rightarrow> nat \<Rightarrow> nat \<Rightarrow> block_id list \<Rightarrow> 'f peer \<Rightarrow> (unit result \<times> 'f peer) option" where
  "invBlocks now index len [] p = Some (Inr (), p)"
| "invBlocks now index len (i # ids) p = bindO (onInvBlock now i index len p) (\<lambda>_. invBlocks now (index + 1) len ids)"

definition release :: "block_id \<Rightarrow> 'f peer \<Rightarrow> unit result \<times> 'f peer" where
  "release i p =
     bindS (onInflight (bq_Remove i '''') p) (\<lambda>_ p.
       bindS (onGlobal (bq_Remove i (pr_addr p)) p) (\<lambda>_ p. (Inr (), p)))"

text \<open>
  \<^verbatim>\<open>ProcessBlock\<close> with a list of transactions in which some may be nil. While there is none it is the processor's
  turn. Otherwise the checks of \<^verbatim>\<open>checkBlock\<close> run up to the first nil transaction they call a method of.
\<close>

fun restCoinbases :: "transaction option list \<Rightarrow> unit result" where
  "restCoinbases [] = Inr ()"
| "restCoinbases (None # txs) = Inl nilDereference"
| "restCoinbases (Some tx # txs) = (if IsCoinbase tx then Inl (Err ''Multiple coinbase transactions'') else restCoinbases txs)"

definition checkNilBlock :: "block_id \<Rightarrow> block_header \<Rightarrow> transaction option list \<Rightarrow> int \<Rightarrow> unit result" where
  "checkNilBlock i h txs now =
     (if bh_Time h < 0 \<or> bh_Time h > MAX_NUMBER then Inl (Err ''Time value is invalid'')
      else if bh_Time h > i64 (now + MAX_FUTURE_SECONDS) then Inl (Err ''Timestamp too far in the future'')
      else if \<not> CheckPOW \<lparr>Header = h, Transactions = []\<rparr> i then Inl (Err ''Insufficient proof-of-work'')
      else if bh_Nonce h < 0 \<or> bh_Nonce h > MAX_NUMBER then Inl (Err ''Nonce value is invalid'')
      else if Height h < 0 \<or> Height h > MAX_NUMBER then Inl (Err ''Height value is invalid'')
      else bindE (CheckpointCheck i (Height h)) (\<lambda>_.
        if TransactionCount h < 0 then Inl (Err ''Negative transaction count in header'')
        else if TransactionCount h \<noteq> int (length txs)
          then Inl (Err ''Transaction count in header doesn't match block'')
        else (case txs of
            [] \<Rightarrow> Inl (Err ''No transactions in block'')
          | None # _ \<Rightarrow> Inl nilDereference
          | Some tx # rest \<Rightarrow>
              if \<not> IsCoinbase tx then Inl (Err ''First transaction is not a coinbase'')
              else bindE (computeMaxTransactionsPerBlock (Height h)) (\<lambda>m.
                if int (length txs) > m then Inl (Err ''Block contains too many transactions'')
                else restCoinbases rest))))"

definition ProcessBlock ::
  "crypto \<Rightarrow> int \<Rightarrow> block_id \<Rightarrow> block_header \<Rightarrow> transaction option list \<Rightarrow> string \<Rightarrow> processor \<Rightarrow> (unit result \<times> processor) option" where
  "ProcessBlock cr now i h txs source proc =
     (case those txs of
        Some ts \<Rightarrow> run_turn cr now (BlockToProcess i \<lparr>Header = h, Transactions = ts\<rparr> source) proc
      | None \<Rightarrow>
          (case GetBranchType (p_ledger proc) i of Inl e \<Rightarrow> Some (Inl e, proc)
           | Inr branchType \<Rightarrow>
               if branchType \<noteq> UNKNOWN then Some (Inr (), proc) else Some (checkNilBlock i h txs now, proc)))"

definition orphanBlock :: "int \<Rightarrow> block_id \<Rightarrow> 'f peer \<Rightarrow> (bool result \<times> 'f peer) option" where
  "orphanBlock now i p =
     bindO (Some (release i p)) (\<lambda>_ p.
       bindO (sendFindCommonAncestor None p) (\<lambda>_ p.
         bindO (processDownloadQueue now p) (\<lambda>_ p. Some (Inr False, p))))"

definition onBlock ::
  "crypto \<Rightarrow> int \<Rightarrow> block_header \<Rightarrow> transaction option list \<Rightarrow> 'f peer \<Rightarrow> (bool result \<times> 'f peer) option" where
  "onBlock cr now header txs p =
     (let i = header_ID cr header
      in if bq_Peek (localInflightQueue p) \<noteq> Some i
         then Some (Inl (Err ''Received unrequested block''), closeConn p)
         else if \<not> pr_ibd p \<and> CheckpointsEnabled \<and> Height header < LatestCheckpointHeight
         then bindO (Some (release i p)) (\<lambda>_ p.
           let p = p\<lparr>ignoreBlocks := List.insert i (ignoreBlocks p)\<rparr>
           in Some (Inl (Err ''Block height less than latest checkpoint height''),
                if length (ignoreBlocks p) > maxBlocksPerInv then closeConn p else p))
         else (case bs_GetBlockHeader (pr_blockStore p) (Previous header) of
                 Inl e \<Rightarrow> bindO (Some (release i p)) (\<lambda>_ p. Some (Inl e, p))
               | Inr None \<Rightarrow> orphanBlock now i p
               | Inr (Some _) \<Rightarrow>
                   (case ProcessBlock cr (now div 10 ^ 9) i header txs (pr_addr p) (pr_processor p) of
                      None \<Rightarrow> None
                    | Some (Inl e, proc) \<Rightarrow> Some (Inl e, closeConn (setProcessor proc p))
                    | Some (Inr _, proc) \<Rightarrow>
                        bindO (Some (release i (setProcessor proc p))) (\<lambda>_ p.
                          bindO (processDownloadQueue now p) (\<lambda>_ p. Some (Inr True, p))))))"

section \<open>Answering queries\<close>

definition continueInv :: "block_id \<Rightarrow> 'f peer \<Rightarrow> 'f peer" where
  "continueInv i p =
     (if i = continuationBlockID p
      then let p = p\<lparr>continuationBlockID := 0\<rparr>
           in case GetChainTip (pr_ledger p) of
                Inr (Some (tipID, _)) \<Rightarrow> send (InvBlockMessage [tipID]) p
              | _ \<Rightarrow> p
      else p)"

definition getBlock :: "block_id \<Rightarrow> 'f peer \<Rightarrow> unit result \<times> 'f peer" where
  "getBlock i p =
     (case bs_GetBlockBytes (pr_blockStore p) i of
        Inl e \<Rightarrow> (Inl e, send (BlockMessage (Some i) None) p)
      | Inr blockJson \<Rightarrow>
          if octets blockJson = [] then (Inl (Err ''No block found''), send (BlockMessage (Some i) None) p)
          else (Inr (), continueInv i (send (BlockMessage (Some i) (Some (octets blockJson))) p)))"

text \<open>Looking up a height: what to do with the identifier, and the message if there is none.\<close>

definition byHeight :: "int \<Rightarrow> message \<Rightarrow> (block_id \<Rightarrow> 'f peer \<Rightarrow> unit result \<times> 'f peer) \<Rightarrow> 'f peer \<Rightarrow> unit result \<times> 'f peer" where
  "byHeight height notFound f p =
     (case GetBlockIDForHeight (pr_ledger p) height of
        Inl e \<Rightarrow> (Inl e, send notFound p)
      | Inr None \<Rightarrow> (Inl (Err ''No block found at height''), send notFound p)
      | Inr (Some i) \<Rightarrow> f i p)"

definition onGetBlockByHeight :: "int \<Rightarrow> 'f peer \<Rightarrow> unit result \<times> 'f peer" where
  "onGetBlockByHeight height = byHeight height (BlockMessage None None) getBlock"

definition getBlockHeader :: "block_id \<Rightarrow> 'f peer \<Rightarrow> unit result \<times> 'f peer" where
  "getBlockHeader i p =
     (case bs_GetBlockHeader (pr_blockStore p) i of
        Inl e \<Rightarrow> (Inl e, send (BlockHeaderMessage (Some i) None) p)
      | Inr None \<Rightarrow> (Inl (Err ''Block header not found''), send (BlockHeaderMessage (Some i) None) p)
      | Inr (Some (header, _)) \<Rightarrow> (Inr (), send (BlockHeaderMessage (Some i) (Some header)) p))"

definition onGetBlockHeaderByHeight :: "int \<Rightarrow> 'f peer \<Rightarrow> unit result \<times> 'f peer" where
  "onGetBlockHeaderByHeight height = byHeight height (BlockHeaderMessage None None) getBlockHeader"

definition onGetBalance :: "bytes \<Rightarrow> 'f peer \<Rightarrow> unit result \<times> 'f peer" where
  "onGetBalance pubKey p =
     (case GetPublicKeyBalances (pr_ledger p) [pubKey] of
        Inl e \<Rightarrow> (Inl e, send (BalanceMessage None 0 pubKey 0 (Some e)) p)
      | Inr (balances, tip) \<Rightarrow>
          (Inr (), send (BalanceMessage (map_option fst tip) (case tip of None \<Rightarrow> 0 | Some (_, h) \<Rightarrow> h) pubKey
             (fold (\<lambda>b _. snd b) balances 0) None) p))"

text \<open>The balances come in the order the ledger's map yields them.\<close>

definition onGetBalances :: "bytes list \<Rightarrow> 'f peer \<Rightarrow> unit result \<times> 'f peer" where
  "onGetBalances pubKeys p =
     (if length pubKeys > 64
      then let e = Err ''Too many public keys'' in (Inl e, send (BalancesMessage None 0 [] (Some e)) p)
      else (case GetPublicKeyBalances (pr_ledger p) pubKeys of
              Inl e \<Rightarrow> (Inl e, send (BalancesMessage None 0 [] (Some e)) p)
            | Inr (balances, tip) \<Rightarrow>
                (Inr (), send (BalancesMessage (map_option fst tip) (case tip of None \<Rightarrow> 0 | Some (_, h) \<Rightarrow> h) balances None) p)))"

text \<open>
  Filter blocks from the indices of transactions; consecutive ones of a block share one. Transactions that cannot be
  read are left out.
\<close>

definition addToFilterBlocks :: "block_id \<Rightarrow> block_header option \<Rightarrow> transaction option \<Rightarrow> filter_block list \<Rightarrow> filter_block list" where
  "addToFilterBlocks i header tx fbs =
     (if fbs = [] \<or> fb_BlockID (last fbs) \<noteq> i
      then fbs @ [\<lparr>fb_BlockID = i, fb_Header = header, fb_Transactions = [tx]\<rparr>]
      else butlast fbs @ [(last fbs)\<lparr>fb_Transactions := fb_Transactions (last fbs) @ [tx]\<rparr>])"

fun filterBlocks :: "block_store \<Rightarrow> (block_id \<times> int) list \<Rightarrow> filter_block list \<Rightarrow> filter_block list" where
  "filterBlocks bs [] fbs = fbs"
| "filterBlocks bs ((i, index) # rest) fbs =
     (case bs_GetTransaction bs i index of
        Inl e \<Rightarrow> filterBlocks bs rest fbs
      | Inr r \<Rightarrow> filterBlocks bs rest (addToFilterBlocks i (map_option snd r) (map_option fst r) fbs))"

definition onGetPublicKeyTransactions :: "bytes \<Rightarrow> int \<Rightarrow> int \<Rightarrow> int \<Rightarrow> int \<Rightarrow> 'f peer \<Rightarrow> unit result \<times> 'f peer" where
  "onGetPublicKeyTransactions pubKey startHeight endHeight startIndex limit p =
     (if limit < 0 then (Inr (), send (PublicKeyTransactionsMessage None) p)
      else let limit = (if limit > 32 \<or> limit = 0 then 32 else limit)
           in case GetPublicKeyTransactionIndicesRange (pr_ledger p) pubKey startHeight endHeight startIndex limit of
                Inl e \<Rightarrow> (Inl e, send (PublicKeyTransactionsMessage (Some ([], 0, 0, 0, [], Some e))) p)
              | Inr (bIDs, indices, stopHeight, stopIndex) \<Rightarrow>
                  if length indices < length bIDs then (Inl (Panic ''index out of range''), p)
                  else (Inr (), send (PublicKeyTransactionsMessage (Some (pubKey, startHeight, stopHeight, stopIndex,
                     filterBlocks (pr_blockStore p) (zip bIDs indices) [], None))) p))"

definition onGetTransaction :: "tx_id \<Rightarrow> 'f peer \<Rightarrow> unit result \<times> 'f peer" where
  "onGetTransaction txID p =
     (case GetTransactionIndex (pr_ledger p) txID of
        Inl e \<Rightarrow> (Inl e, send (TransactionMessage None 0 txID None) p)
      | Inr (None, _) \<Rightarrow> (Inl (Err ''Transaction not found''), send (TransactionMessage None 0 txID None) p)
      | Inr (Some blockID, index) \<Rightarrow>
          (case bs_GetTransaction (pr_blockStore p) blockID index of
             Inl e \<Rightarrow> (Inl e, send (TransactionMessage (Some blockID) 0 txID None) p)
           | Inr None \<Rightarrow> (Inl nilDereference, p)
           | Inr (Some (tx, header)) \<Rightarrow> (Inr (), send (TransactionMessage (Some blockID) (Height header) txID (Some tx)) p)))"

definition onGetTipHeader :: "'f peer \<Rightarrow> unit result \<times> 'f peer" where
  "onGetTipHeader p =
     (case getChainTipHeader (pr_ledger p) (pr_blockStore p) of
        Inl e \<Rightarrow> (Inl e, send (TipHeaderMessage None) p)
      | Inr None \<Rightarrow> (Inr (), send (TipHeaderMessage (Some (None, None, 0))) p)
      | Inr (Some (tipID, tipHeader, tipWhen)) \<Rightarrow> (Inr (), send (TipHeaderMessage (Some (Some tipID, tipHeader, tipWhen))) p))"

section \<open>Transactions and filters\<close>

definition onPushTransaction :: "crypto \<Rightarrow> transaction \<Rightarrow> 'f peer \<Rightarrow> unit result \<times> 'f peer" where
  "onPushTransaction cr tx p =
     (let i = tx_ID cr tx
      in if tq_Exists i (pr_txQueue p) then (Inr (), send (PushTransactionResultMessage i None) p)
         else (case processTransaction cr i tx (pr_addr p) (pr_processor p) of
                 (r, proc) \<Rightarrow>
                   let p = setProcessor proc p
                   in case r of Inr _ \<Rightarrow> (Inr (), send (PushTransactionResultMessage i None) p)
                      | Inl e \<Rightarrow> if isPanic e then (Inl e, p) else (Inl e, send (PushTransactionResultMessage i (Some e)) p)))"

definition onFilterLoad :: "'f cuckoo \<Rightarrow> string \<Rightarrow> bytes \<Rightarrow> 'f peer \<Rightarrow> unit result \<times> 'f peer" where
  "onFilterLoad cf filterType filterBytes p =
     (case (if filterType \<noteq> ''cuckoo'' then Inl (Err ''Unsupported filter type'')
            else if length filterBytes > 2 ^ 16 then Inl (Err ''Filter too large'')
            else cf_Decode cf filterBytes) of
        Inl e \<Rightarrow> (Inl e, send (FilterResultMessage (Some e)) p)
      | Inr f \<Rightarrow> (Inr (), send (FilterResultMessage None) (p\<lparr>pr_filter := Some f\<rparr>)))"

fun insertKeys :: "'f cuckoo \<Rightarrow> bytes list \<Rightarrow> 'f \<Rightarrow> bool \<times> 'f" where
  "insertKeys cf [] f = (True, f)"
| "insertKeys cf (pubKey # pubKeys) f =
     (case cf_Insert cf pubKey f of (ok, f) \<Rightarrow> if ok then insertKeys cf pubKeys f else (False, f))"

definition onFilterAdd :: "'f cuckoo \<Rightarrow> bytes list \<Rightarrow> 'f peer \<Rightarrow> unit result \<times> 'f peer" where
  "onFilterAdd cf pubKeys p =
     (if length pubKeys > 256
      then let e = Err ''Too many public keys'' in (Inl e, send (FilterResultMessage (Some e)) p)
      else (case insertKeys cf pubKeys (case pr_filter p of None \<Rightarrow> cf_New cf | Some f \<Rightarrow> f) of
              (ok, f) \<Rightarrow> (Inr (), send (FilterResultMessage (if ok then None else Some (Err ''Unable to insert into filter'')))
                 (p\<lparr>pr_filter := Some f\<rparr>))))"

definition filterLookup :: "'f cuckoo \<Rightarrow> transaction \<Rightarrow> 'f peer \<Rightarrow> bool" where
  "filterLookup cf tx p =
     (case pr_filter p of None \<Rightarrow> True
      | Some f \<Rightarrow> \<not> IsCoinbase tx \<and> cf_Lookup cf (octets (tx_From tx)) f \<or> cf_Lookup cf (octets (tx_To tx)) f)"

definition onGetFilterTransactionQueue :: "'f cuckoo \<Rightarrow> 'f peer \<Rightarrow> unit result \<times> 'f peer" where
  "onGetFilterTransactionQueue cf p =
     (if pr_filter p = None then (Inr (), send (FilterTransactionQueueMessage [] (Some (Err ''No filter set''))) p)
      else (case tq_Get 0 (pr_txQueue p) of
              Inl e \<Rightarrow> (Inl e, p)
            | Inr transactions \<Rightarrow>
                (Inr (), send (FilterTransactionQueueMessage (filter (\<lambda>tx. filterLookup cf tx p) transactions) None) p)))"

definition createFilterBlock :: "'f cuckoo \<Rightarrow> block_id \<Rightarrow> block \<Rightarrow> 'f peer \<Rightarrow> filter_block option" where
  "createFilterBlock cf i b p =
     (if pr_filter p = None then None
      else Some \<lparr>fb_BlockID = i, fb_Header = Some (Header b),
        fb_Transactions = map Some (filter (\<lambda>tx. filterLookup cf tx p) (Transactions b))\<rparr>)"

section \<open>Addresses\<close>

definition onGetPeerAddresses :: "int \<Rightarrow> 'f peer \<Rightarrow> unit result \<times> 'f peer" where
  "onGetPeerAddresses now p =
     (case ps_GetSince now 32 (i64 (now - 60 * 60 * 3)) (n_peerStore (pr_node p)) of
        Inl e \<Rightarrow> (Inl e, p)
      | Inr addresses \<Rightarrow> (Inr (), if addresses = [] then p else send (PeerAddressesMessage addresses) p))"

text \<open>The time of the last addresses is not set at first, and then lies far back.\<close>

definition onPeerAddresses :: "int \<Rightarrow> bytes list \<Rightarrow> 'f peer \<Rightarrow> 'f peer" where
  "onPeerAddresses nowNano addresses p =
     (if (case lastPeerAddressesReceivedTime p of None \<Rightarrow> False
          | Some t \<Rightarrow> nowNano - t < getPeerAddressesPeriod - 2 * 60 * 10 ^ 9)
      then p
      else p\<lparr>lastPeerAddressesReceivedTime := Some nowNano,
        pr_node := (pr_node p)\<lparr>n_addrs := n_addrs (pr_node p) @ take 32 addresses\<rparr>\<rparr>)"

section \<open>Work for miners\<close>

text \<open>The clock and the random numbers of a work block: the key, the identifier of the work, and those of the block.\<close>

record work_chance = chance +
  c_keyIndex :: nat
  c_workID :: int

definition createNewWorkBlock ::
  "crypto \<Rightarrow> work_chance \<Rightarrow> block_id \<Rightarrow> block_header option \<Rightarrow> 'f peer \<Rightarrow> unit result \<times> 'f peer" where
  "createNewWorkBlock cr ch tipID tipHeader p =
     (if pr_pubKeys p = [] then (Inr (), p)
      else (case tipHeader of None \<Rightarrow> (Inl nilDereference, p)
            | Some h \<Rightarrow>
                (case computeMedianTimestamp h (pr_blockStore p) of
                   Inl e \<Rightarrow> if isPanic e then (Inl e, p) else (Inl e, send (WorkMessage (pr_workID p) None 0 (Some e)) p)
                 | Inr medianTimestamp \<Rightarrow>
                     let p = p\<lparr>pr_medianTimestamp := medianTimestamp, pr_workID := c_workID ch\<rparr>
                     in case createNextBlock cr (chance.truncate ch) tipID tipHeader (pr_txQueue p) (pr_blockStore p)
                               (pr_ledger p) (pr_pubKeys p ! (c_keyIndex ch mod length (pr_pubKeys p))) (pr_memo p) of
                          Inl e \<Rightarrow> if isPanic e then (Inl e, p)
                            else (Inl e, send (WorkMessage (pr_workID p) None 0 (Some e)) (p\<lparr>pr_workBlock := None\<rparr>))
                        | Inr b \<Rightarrow> (Inr (), send (WorkMessage (pr_workID p) (Some (Header b)) (i64 (medianTimestamp + 1)) None)
                             (p\<lparr>pr_workBlock := Some b\<rparr>)))))"

definition onGetWork :: "crypto \<Rightarrow> work_chance \<Rightarrow> bytes list \<Rightarrow> bytes \<Rightarrow> 'f peer \<Rightarrow> unit result \<times> 'f peer" where
  "onGetWork cr ch pubKeys memo p =
     (let refuse = (\<lambda>e. (Inr (), send (WorkMessage 0 None 0 (Some e)) p))
      in if pr_workBlock p \<noteq> None then refuse (Err ''Peer already has work'')
         else if pubKeys = [] then refuse (Err ''No public keys specified'')
         else if length memo > MAX_MEMO_LENGTH then refuse (Err ''Max memo length exceeded'')
         else (case getChainTipHeader (pr_ledger p) (pr_blockStore p) of
                 Inl e \<Rightarrow> refuse e
               | Inr None \<Rightarrow> (Inl nilDereference, p\<lparr>pr_pubKeys := pubKeys, pr_memo := memo\<rparr>)
               | Inr (Some (tipID, tipHeader, _)) \<Rightarrow>
                   logged (createNewWorkBlock cr ch tipID tipHeader (p\<lparr>pr_pubKeys := pubKeys, pr_memo := memo\<rparr>))))"

definition workResult :: "int \<Rightarrow> unit result \<Rightarrow> 'f peer \<Rightarrow> unit result \<times> 'f peer" where
  "workResult workID r p =
     (case r of Inr _ \<Rightarrow> (Inr (), send (SubmitWorkResultMessage workID None) p)
      | Inl e \<Rightarrow> if isPanic e then (Inl e, p) else (Inr (), send (SubmitWorkResultMessage workID (Some e)) p))"

definition onSubmitWork :: "crypto \<Rightarrow> int \<Rightarrow> int \<Rightarrow> block_header \<Rightarrow> 'f peer \<Rightarrow> (unit result \<times> 'f peer) option" where
  "onSubmitWork cr now workID header p =
     (let i = header_ID cr header
      in if workID = 0 then Some (workResult workID (Inl (Err ''No work ID set'')) p)
         else if workID \<noteq> pr_workID p then Some (workResult workID (Inl (Err ''Expected other work ID'')) p)
         else (case pr_workBlock p of
                 None \<Rightarrow> Some (Inl nilDereference, p)
               | Some b \<Rightarrow>
                   let b = b\<lparr>Header := header\<rparr>; p = p\<lparr>pr_workBlock := Some b\<rparr>
                   in case ProcessBlock cr now i header (map Some (Transactions b)) (pr_addr p) (pr_processor p) of
                        None \<Rightarrow> None
                      | Some (r, proc) \<Rightarrow> Some (workResult workID r (setProcessor proc p))))"

section \<open>The reader loop\<close>

text \<open>
  One message. The result is whether the loop goes on; an error of a handler is logged and the loop goes on, an error of
  a decoder ends it.
\<close>

definition goOn :: "('a result \<times> 'f peer) option \<Rightarrow> (bool result \<times> 'f peer) option" where
  "goOn m = map_option (\<lambda>(r, p). case r of Inl e \<Rightarrow> (if isPanic e then Inl e else Inr True, p) | Inr _ \<Rightarrow> (Inr True, p)) m"

definition onRequest :: "crypto \<Rightarrow> 'f cuckoo \<Rightarrow> int \<Rightarrow> request \<Rightarrow> 'f peer \<Rightarrow> (bool result \<times> 'f peer) option" where
  "onRequest cr cf now req p =
     (case req of
        InvBlock ids \<Rightarrow> goOn (invBlocks now 0 (length ids) ids p)
      | GetBlock i \<Rightarrow> goOn (Some (getBlock i p))
      | GetBlockByHeight height \<Rightarrow> goOn (Some (onGetBlockByHeight height p))
      | BlockReceived b \<Rightarrow>
          (case b of
             Some (Some header, txs) \<Rightarrow>
               (case onBlock cr now header txs p of
                  Some (Inr ok, p) \<Rightarrow> Some (Inr True, if ok then p\<lparr>pr_lastNewBlock := now\<rparr> else p)
                | m \<Rightarrow> goOn m)
           | _ \<Rightarrow> Some (Inr False, p))
      | FindCommonAncestor ids \<Rightarrow> goOn (Some (findCommonAncestors ids p))
      | GetBlockHeader i \<Rightarrow> goOn (Some (getBlockHeader i p))
      | GetBlockHeaderByHeight height \<Rightarrow> goOn (Some (onGetBlockHeaderByHeight height p))
      | GetBalance pubKey \<Rightarrow> goOn (Some (onGetBalance pubKey p))
      | GetBalances pubKeys \<Rightarrow> goOn (Some (onGetBalances pubKeys p))
      | GetPublicKeyTransactions pubKey startHeight endHeight startIndex limit \<Rightarrow>
          goOn (Some (onGetPublicKeyTransactions pubKey startHeight endHeight startIndex limit p))
      | GetTransaction i \<Rightarrow> goOn (Some (onGetTransaction i p))
      | GetTipHeader \<Rightarrow> goOn (Some (onGetTipHeader p))
      | PushTransaction tx \<Rightarrow>
          (case tx of None \<Rightarrow> Some (Inr False, p) | Some tx \<Rightarrow> goOn (Some (onPushTransaction cr tx p)))
      | PushTransactionResult \<Rightarrow> Some (Inr True, p)
      | FilterLoad filterType filterBytes \<Rightarrow> goOn (Some (onFilterLoad cf filterType filterBytes p))
      | FilterAdd pubKeys \<Rightarrow> goOn (Some (onFilterAdd cf pubKeys p))
      | GetFilterTransactionQueue \<Rightarrow> goOn (Some (onGetFilterTransactionQueue cf p))
      | GetPeerAddresses \<Rightarrow> goOn (Some (onGetPeerAddresses (now div 10 ^ 9) p))
      | PeerAddresses addresses \<Rightarrow> Some (Inr True, onPeerAddresses now addresses p)
      | GetTransactionRelayPolicy \<Rightarrow>
          Some (Inr True, send (TransactionRelayPolicyMessage MIN_FEE_CRUZBITS MIN_AMOUNT_CRUZBITS) p)
      | GetWork pubKeys memo \<Rightarrow> Some (Inr True, p\<lparr>pr_getWork := pr_getWork p @ [(pubKeys, memo)]\<rparr>)
      | SubmitWork workID header \<Rightarrow>
          (case header of None \<Rightarrow> Some (Inr False, p)
           | Some header \<Rightarrow> Some (Inr True, p\<lparr>pr_submitWork := pr_submitWork p @ [(workID, header)]\<rparr>))
      | UnknownMessage ty \<Rightarrow> Some (Inr True, p))"

text \<open>
  A text message off the wire. The WebSocket library refuses one longer than the limit. Ending the loop closes the
  connection.
\<close>

definition readMessage :: "crypto \<Rightarrow> 'f cuckoo \<Rightarrow> wire \<Rightarrow> int \<Rightarrow> bytes \<Rightarrow> 'f peer \<Rightarrow> (unit result \<times> 'f peer) option" where
  "readMessage cr cf w now text p =
     (if pr_closed p then Some (Inr (), p)
      else if pr_readLimit p > 0 \<and> int (length text) > pr_readLimit p then Some (Inr (), closeConn p)
      else if \<not> utf8_valid text then Some (Inr (), closeConn p)
      else (case w_frame w text of
              Inl e \<Rightarrow> Some (Inr (), closeConn p)
            | Inr (ty, body) \<Rightarrow>
                if ty \<noteq> ''block'' \<and> int (length text) > MAX_PROTOCOL_MESSAGE_LENGTH then Some (Inr (), closeConn p)
                else (case parseRequest w ty body of
                        Inl e \<Rightarrow> Some (Inr (), closeConn p)
                      | Inr req \<Rightarrow>
                          bindO (onRequest cr cf now req p) (\<lambda>ok p. Some (Inr (), if ok then p else closeConn p)))))"

text \<open>The handler of pongs, and what the reader does before its loop and when it ends.\<close>

definition onPong :: "int \<Rightarrow> 'f peer \<Rightarrow> (unit result \<times> 'f peer) option" where
  "onPong now p =
     (if pr_closed p then Some (Inr (), p)
      else if pr_ibd p
      then (case IsInitialBlockDownload (pr_ledger p) (pr_blockStore p) (now div 10 ^ 9) of
              Inl e \<Rightarrow> Some (Inr (), closeConn p)
            | Inr (ibd, _) \<Rightarrow>
                let p = p\<lparr>pr_ibd := ibd\<rparr>
                in Some (Inr (), if ibd \<and> now - pr_lastNewBlock p > syncWait then closeConn p else p))
      else (case processDownloadQueue now p of
              Some (Inl e, p) \<Rightarrow> Some (if isPanic e then Inl e else Inr (), closeConn p)
            | m \<Rightarrow> m))"

definition startReader :: "int \<Rightarrow> 'f peer \<Rightarrow> 'f peer" where
  "startReader now p =
     (case IsInitialBlockDownload (pr_ledger p) (pr_blockStore p) (now div 10 ^ 9) of
        Inl e \<Rightarrow> closeConn (p\<lparr>pr_lastNewBlock := now\<rparr>)
      | Inr (ibd, _) \<Rightarrow> p\<lparr>pr_lastNewBlock := now, pr_ibd := ibd\<rparr>)"

partial_function (option) dropInflight :: "'f peer \<Rightarrow> (unit result \<times> 'f peer) option" where
  "dropInflight p =
     (case bq_Peek (localInflightQueue p) of
        None \<Rightarrow> Some (Inr (), p)
      | Some i \<Rightarrow> (case release i p of (Inl e, p) \<Rightarrow> Some (Inl e, p) | (Inr _, p) \<Rightarrow> dropInflight p))"

text \<open>The connection is closed, the blocks in flight are given up, and the storage of addresses is told.\<close>

definition disconnect :: "'f peer \<Rightarrow> (unit result \<times> 'f peer) option" where
  "disconnect p =
     bindO (dropInflight (closeConn p)) (\<lambda>_ p.
       Some (if pr_outbound p then logged (onPeerStore (OnDisconnect (str (pr_addr p))) p) else (Inr (), p)))"

section \<open>The writer loop\<close>

definition onTipNotice :: "crypto \<Rightarrow> 'f cuckoo \<Rightarrow> int \<Rightarrow> work_chance \<Rightarrow> tip_change \<Rightarrow> 'f peer \<Rightarrow> unit result \<times> 'f peer" where
  "onTipNotice cr cf now ch tip p =
     bindS (updateReadLimit now p) (\<lambda>_ p.
       bindS (if tc_Connect tip \<and> \<not> tc_More tip
              then logged (createNewWorkBlock cr ch (tc_BlockID tip) (Some (Header (tc_Block tip))) p) else (Inr (), p)) (\<lambda>_ p.
         if tc_Source tip = pr_addr p then (Inr (), p)
         else let p = (if tc_Connect tip then send (InvBlockMessage [tc_BlockID tip]) p else p)
              in (Inr (), case createFilterBlock cf (tc_BlockID tip) (tc_Block tip) p of
                     None \<Rightarrow> p
                   | Some fb \<Rightarrow> send (if tc_Connect tip then FilterBlockMessage fb else FilterBlockUndoMessage fb) p)))"

definition onTxNotice :: "'f cuckoo \<Rightarrow> new_tx \<Rightarrow> 'f peer \<Rightarrow> 'f peer" where
  "onTxNotice cf newTx p =
     (if nt_Source newTx = pr_addr p \<or> \<not> filterLookup cf (nt_Transaction newTx) p then p
      else send (PushTransactionMessage (nt_Transaction newTx)) p)"

definition onConnected :: "'f peer \<Rightarrow> (unit result \<times> 'f peer) option" where
  "onConnected p =
     (case sendFindCommonAncestor None p of
        None \<Rightarrow> None
      | Some (Inl e, p) \<Rightarrow> Some (if isPanic e then Inl e else Inr (), send GetPeerAddressesMessage (closeConn p))
      | Some (Inr _, p) \<Rightarrow> Some (Inr (), send GetPeerAddressesMessage p))"

definition updateWork :: "crypto \<Rightarrow> work_chance \<Rightarrow> 'f peer \<Rightarrow> unit result \<times> 'f peer" where
  "updateWork cr ch p =
     (case pr_workBlock p of
        None \<Rightarrow> (Inr (), p)
      | Some b \<Rightarrow>
          if length (Transactions b) = MAX_TRANSACTIONS_TO_INCLUDE_PER_BLOCK
            \<or> int (length (Transactions b)) - 1 = int (tq_Len (pr_txQueue p)) then (Inr (), p)
          else (case getChainTipHeader (pr_ledger p) (pr_blockStore p) of
                  Inl e \<Rightarrow> (Inr (), p)
                | Inr None \<Rightarrow> (Inl nilDereference, p)
                | Inr (Some (tipID, tipHeader, _)) \<Rightarrow> logged (createNewWorkBlock cr ch tipID tipHeader p)))"

section \<open>One event of a connection\<close>

datatype peer_event =
    TextMessage bytes
  | Pong
  | TipChanged tip_change work_chance
  | NewTxArrived new_tx
  | Connected
  | TakeGetWork work_chance
  | TakeSubmitWork
  | PeerStoreRefresh
  | AskAddresses
  | UpdateWorkCheck work_chance
  | Disconnected

definition peer_turn ::
  "crypto \<Rightarrow> 'f cuckoo \<Rightarrow> wire \<Rightarrow> info_codec \<Rightarrow> int \<Rightarrow> peer_event \<Rightarrow> 'f peer \<Rightarrow> (unit result \<times> 'f peer) option" where
  "peer_turn cr cf w c now ev p =
     (case ev of
        TextMessage text \<Rightarrow> readMessage cr cf w now text p
      | Pong \<Rightarrow> onPong now p
      | TipChanged tip ch \<Rightarrow> Some (onTipNotice cr cf (now div 10 ^ 9) ch tip p)
      | NewTxArrived newTx \<Rightarrow> Some (Inr (), onTxNotice cf newTx p)
      | Connected \<Rightarrow> onConnected p
      | TakeGetWork ch \<Rightarrow>
          (case pr_getWork p of [] \<Rightarrow> Some (Inr (), p)
           | (pubKeys, memo) # rest \<Rightarrow> Some (onGetWork cr ch pubKeys memo (p\<lparr>pr_getWork := rest\<rparr>)))
      | TakeSubmitWork \<Rightarrow>
          (case pr_submitWork p of [] \<Rightarrow> Some (Inr (), p)
           | (workID, header) # rest \<Rightarrow> onSubmitWork cr (now div 10 ^ 9) workID header (p\<lparr>pr_submitWork := rest\<rparr>))
      | PeerStoreRefresh \<Rightarrow>
          Some (if pr_outbound p then logged (onPeerStore (OnConnectSuccess c (now div 10 ^ 9) (str (pr_addr p))) p) else (Inr (), p))
      | AskAddresses \<Rightarrow> Some (Inr (), send GetPeerAddressesMessage p)
      | UpdateWorkCheck ch \<Rightarrow> Some (updateWork cr ch p)
      | Disconnected \<Rightarrow> disconnect p)"

end
