(* ===== verification/Branches.thy ===== *)
theory Branches
  imports Processor
begin

text \<open>
  Branches of the block tree as lists of blocks from the genesis block up, and the walks of
  \<^verbatim>\<open>acceptBlockContinue\<close> on them: they end, and what they collect is the blocks of either branch above the
  last common one.
\<close>

section \<open>Branches\<close>

definition holds :: "crypto \<Rightarrow> block_store \<Rightarrow> block_id \<Rightarrow> block \<Rightarrow> bool" where
  "holds cr bs i b \<longleftrightarrow> bs_blocks bs i = Some b \<and> (\<exists>w. bs_headers bs i = Some (Header b, w)) \<and> block_ID cr b = i"

abbreviation work :: "block \<Rightarrow> int" where
  "work b \<equiv> GetBigInt (ChainWork (Header b))"

inductive branch :: "crypto \<Rightarrow> block_id \<Rightarrow> block_store \<Rightarrow> block_id \<Rightarrow> block list \<Rightarrow> bool" for cr gid bs where
  root: "holds cr bs gid b \<Longrightarrow> block_ok cr 0 b \<Longrightarrow> branch cr gid bs gid [b]"
| grow: "branch cr gid bs (Previous (Header b)) bl \<Longrightarrow> holds cr bs i b \<Longrightarrow> i \<noteq> gid \<Longrightarrow> block_ok cr (length bl) b \<Longrightarrow>
    work (last bl) < work b \<Longrightarrow> branch cr gid bs i (bl @ [b])"

inductive_cases branch_snocE: "branch cr gid bs i (bl @ [b])"

lemma branch_ne [simp]: "branch cr gid bs i bl \<Longrightarrow> bl \<noteq> []"
  by (induction rule: branch.induct) auto

lemma branch_unique: "branch cr gid bs i bl \<Longrightarrow> branch cr gid bs i bl' \<Longrightarrow> bl = bl'"
proof (induction arbitrary: bl' rule: branch.induct)
  case (root b)
  from root.prems show ?case
    by (cases rule: branch.cases) (use root.hyps in \<open>auto simp: holds_def\<close>)
next
  case (grow b bl i)
  from grow.prems show ?case
  proof (cases rule: branch.cases)
    case (grow c cl)
    then have "c = b" using grow.hyps(2) by (simp add: holds_def)
    with grow(1,2) grow.IH show ?thesis by blast
  qed (use grow.hyps in simp)
qed

lemma branch_last: "branch cr gid bs i bl \<Longrightarrow> holds cr bs i (last bl) \<and> block_ID cr (last bl) = i"
  by (induction rule: branch.induct) (auto simp: holds_def)

lemma branch_prefix:
  "branch cr gid bs i bl \<Longrightarrow> k < length bl \<Longrightarrow> branch cr gid bs (block_ID cr (bl ! k)) (take (Suc k) bl)"
proof (induction arbitrary: k rule: branch.induct)
  case (root b)
  then show ?case by (auto simp: holds_def intro: branch.root)
next
  case (grow b bl i)
  show ?case
  proof (cases "k < length bl")
    case True
    with grow.IH [OF True] show ?thesis by (simp add: nth_append)
  next
    case False
    with grow.prems have "k = length bl" by simp
    with branch.grow [OF grow.hyps(1-5)] grow.hyps(2) show ?thesis by (simp add: holds_def)
  qed
qed

lemma branch_block_ok: "branch cr gid bs i bl \<Longrightarrow> k < length bl \<Longrightarrow> block_ok cr k (bl ! k)"
  by (induction rule: branch.induct) (auto simp: nth_append less_Suc_eq)

lemma branch_height: "branch cr gid bs i bl \<Longrightarrow> k < length bl \<Longrightarrow> Height (Header (bl ! k)) = int k"
  using branch_block_ok by (auto simp: block_ok_def)

lemma branch_top: "branch cr gid bs i bl \<Longrightarrow> Height (Header (last bl)) = int (length bl) - 1"
  using branch_height [of cr gid bs i bl "length bl - 1"] branch_ne
  by (fastforce simp: last_conv_nth of_nat_diff Suc_le_eq)

lemma branch_holds: "branch cr gid bs i bl \<Longrightarrow> b \<in> set bl \<Longrightarrow> holds cr bs (block_ID cr b) b"
  by (induction rule: branch.induct) (auto simp: holds_def)

lemma branch_stored: "branch cr gid bs i bl \<Longrightarrow> stored cr bs bl"
  using branch_holds by (fastforce simp: stored_def holds_def)

lemma branch_first: "branch cr gid bs i bl \<Longrightarrow> branch cr gid bs gid [bl ! 0]"
proof (induction rule: branch.induct)
  case (root b)
  then show ?case by (auto intro: branch.root)
next
  case (grow b bl i)
  from branch_ne [OF grow.hyps(1)] grow.IH show ?case by (simp add: nth_append)
qed

lemma branch_common_first:
  "branch cr gid bs i T \<Longrightarrow> branch cr gid bs j N \<Longrightarrow> T ! 0 = N ! 0"
  using branch_unique [OF branch_first branch_first] by blast

lemma branch_same_header:
  assumes "branch cr gid bs i T" "branch cr gid bs j N" "k < length T" "k < length N"
    and "Header (T ! k) = Header (N ! k)"
  shows "take (Suc k) T = take (Suc k) N"
proof -
  have "block_ID cr (T ! k) = block_ID cr (N ! k)" using assms(5) by (simp add: block_ID_def)
  with branch_prefix [OF assms(1,3)] branch_prefix [OF assms(2,4)] branch_unique show ?thesis by metis
qed

lemma branch_previous:
  assumes "branch cr gid bs i bl" "Suc k < length bl"
  shows "Previous (Header (bl ! Suc k)) = block_ID cr (bl ! k)" "bs_headers bs (block_ID cr (bl ! k)) \<noteq> None"
proof -
  have "branch cr gid bs (block_ID cr (bl ! Suc k)) (take (Suc k) bl @ [bl ! Suc k])"
    using branch_prefix [OF assms] assms(2) by (simp add: take_Suc_conv_app_nth)
  then have p: "branch cr gid bs (Previous (Header (bl ! Suc k))) (take (Suc k) bl)"
    by (rule branch_snocE) (use assms(2) in \<open>auto simp: take_Suc_conv_app_nth\<close>)
  have "last (take (Suc k) bl) = bl ! k" using assms(2) by (simp add: take_Suc_conv_app_nth)
  with branch_last [OF p] show "Previous (Header (bl ! Suc k)) = block_ID cr (bl ! k)" by simp
  show "bs_headers bs (block_ID cr (bl ! k)) \<noteq> None"
    using branch_holds [OF assms(1), of "bl ! k"] assms(2) by (auto simp: holds_def)
qed

lemma branch_snoc:
  assumes "branch cr gid bs i (bl @ [b])" "bl \<noteq> []"
  shows "branch cr gid bs (Previous (Header b)) bl" "i \<noteq> gid" "work (last bl) < work b" "block_ID cr b = i"
    "block_ok cr (length bl) b"
  using assms by (auto elim!: branch_snocE simp: holds_def)

lemma branch_work_mono:
  "branch cr gid bs i bl \<Longrightarrow> j < k \<Longrightarrow> k < length bl \<Longrightarrow> work (bl ! j) < work (bl ! k)"
proof (induction arbitrary: j k rule: branch.induct)
  case (grow b bl i)
  have "work (bl ! j) \<le> work (last bl)" if "j < length bl"
  proof (cases "j = length bl - 1")
    case False
    with that have "j < length bl - 1" by linarith
    with grow.IH [of j "length bl - 1"] that branch_ne [OF grow.hyps(1)] show ?thesis
      by (simp add: last_conv_nth)
  qed (use branch_ne [OF grow.hyps(1)] in \<open>simp add: last_conv_nth\<close>)
  with grow show ?case by (fastforce simp: nth_append less_Suc_eq)
qed simp

text \<open>Writing a block the branch does not use leaves the branch alone.\<close>

lemma branch_frame:
  assumes "branch cr gid bs i bl"
    and "\<And>j. j \<in> block_ID cr ` set bl \<Longrightarrow> bs_blocks bs' j = bs_blocks bs j \<and> bs_headers bs' j = bs_headers bs j"
  shows "branch cr gid bs' i bl"
  using assms
proof (induction rule: branch.induct)
  case (root b)
  have "gid \<in> block_ID cr ` set [b]" using root.hyps(1) by (simp add: holds_def)
  with root show ?case by (auto intro!: branch.root simp: holds_def)
next
  case (grow b bl i)
  have i: "i \<in> block_ID cr ` set (bl @ [b])" using grow.hyps(2) by (auto simp: holds_def)
  have "branch cr gid bs' (Previous (Header b)) bl" using grow.IH grow.prems by simp
  moreover have "holds cr bs' i b" using grow.hyps(2) grow.prems [OF i] by (simp add: holds_def)
  ultimately show ?case using grow.hyps(3-5) by (rule branch.grow)
qed

section \<open>The walks\<close>

lemma branch_getHeader:
  assumes "branch cr gid bs i bl" "k < length bl" "\<And>j. \<not> bs_readFault bs j"
  shows "getHeader bs (block_ID cr (bl ! k)) = Inr (Some (Header (bl ! k)))"
  using branch_holds [OF assms(1), of "bl ! k"] assms(2,3) by (auto simp: holds_def getHeader_Inr)

lemma walkToHeight_branch:
  assumes nf: "\<And>j. \<not> bs_readFault bs j"
  shows "branch cr gid bs i bl \<Longrightarrow> m < length bl \<Longrightarrow>
    walkToHeight bs (int m) add (Some (Header (last bl))) i ids =
      Some (Inr (Header (bl ! m), block_ID cr (bl ! m), fold add (map (block_ID cr) (rev (drop (Suc m) bl))) ids))"
proof (induction arbitrary: ids rule: branch.induct)
  case (root b)
  then show ?case by (subst walkToHeight.simps) (simp add: block_ok_def holds_def)
next
  case (grow b bl i)
  have i: "block_ID cr b = i" using grow.hyps(2) by (simp add: holds_def)
  have h: "Height (Header b) = int (length bl)" using grow.hyps(4) by (simp add: block_ok_def)
  show ?case
  proof (cases "m = length bl")
    case True
    then show ?thesis by (subst walkToHeight.simps) (simp add: h i)
  next
    case False
    with grow.prems have m: "m < length bl" by simp
    have "getHeader bs (Previous (Header b)) = Inr (Some (Header (last bl)))"
      using branch_last [OF grow.hyps(1)] nf by (auto simp: holds_def getHeader_Inr)
    then have "walkToHeight bs (int m) add (Some (Header (last (bl @ [b])))) i ids
        = walkToHeight bs (int m) add (Some (Header (last bl))) (Previous (Header b)) (add i ids)"
      by (subst walkToHeight.simps) (use m h in simp)
    with grow.IH [OF m, of "add i ids"] m i show ?thesis by (simp add: nth_append)
  qed
qed

lemma walkToCommon_branch:
  assumes nf: "\<And>j. \<not> bs_readFault bs j" and T: "branch cr gid bs i T" and N: "branch cr gid bs j N"
  shows "k < length T \<Longrightarrow> k < length N \<Longrightarrow> \<exists>c \<le> k. take (Suc c) T = take (Suc c) N
    \<and> (c < k \<longrightarrow> T ! Suc c \<noteq> N ! Suc c)
    \<and> walkToCommon bs (Some (Header (T ! k))) (block_ID cr (T ! k)) (Some (Header (N ! k))) (block_ID cr (N ! k)) ds cs =
      Some (Inr (ds @ map (block_ID cr) (rev (take (k - c) (drop (Suc c) T))),
                 map (block_ID cr) (take (k - c) (drop (Suc c) N)) @ cs))"
proof (induction k arbitrary: ds cs)
  case 0
  have "Header (T ! 0) = Header (N ! 0)" using branch_common_first [OF T N] by simp
  with branch_same_header [OF T N 0] show ?case
    by (intro exI [of _ 0]) (subst walkToCommon.simps, simp)
next
  case (Suc k)
  show ?case
  proof (cases "Header (T ! Suc k) = Header (N ! Suc k)")
    case True
    with branch_same_header [OF T N Suc.prems True] show ?thesis
      by (intro exI [of _ "Suc k"]) (subst walkToCommon.simps, simp)
  next
    case False
    have k: "k < length T" "k < length N" using Suc.prems by auto
    let ?ds = "ds @ [block_ID cr (T ! Suc k)]" and ?cs = "block_ID cr (N ! Suc k) # cs"
    have step: "walkToCommon bs (Some (Header (T ! Suc k))) (block_ID cr (T ! Suc k)) (Some (Header (N ! Suc k)))
        (block_ID cr (N ! Suc k)) ds cs
      = walkToCommon bs (Some (Header (T ! k))) (block_ID cr (T ! k)) (Some (Header (N ! k))) (block_ID cr (N ! k)) ?ds ?cs"
      using False branch_previous(1) [OF T Suc.prems(1)] branch_previous(1) [OF N Suc.prems(2)]
        branch_getHeader [OF T k(1) nf] branch_getHeader [OF N k(2) nf]
      by (subst walkToCommon.simps) simp
    obtain c where c: "c \<le> k" "take (Suc c) T = take (Suc c) N" "c < k \<longrightarrow> T ! Suc c \<noteq> N ! Suc c"
      "walkToCommon bs (Some (Header (T ! k))) (block_ID cr (T ! k)) (Some (Header (N ! k))) (block_ID cr (N ! k)) ?ds ?cs =
        Some (Inr (?ds @ map (block_ID cr) (rev (take (k - c) (drop (Suc c) T))),
                   map (block_ID cr) (take (k - c) (drop (Suc c) N)) @ ?cs))"
      using Suc.IH [OF k] by blast
    have t: "take (Suc k - c) (drop (Suc c) xs) = take (k - c) (drop (Suc c) xs) @ [xs ! Suc k]"
      if "Suc k < length xs" for xs :: "block list"
    proof -
      have "Suc k - c = Suc (k - c)" using c(1) by simp
      then show ?thesis using that c(1) by (simp add: take_Suc_conv_app_nth)
    qed
    have "T ! Suc c \<noteq> N ! Suc c" using c(1,3) False by (cases "c = k") auto
    with c step t [OF Suc.prems(1)] t [OF Suc.prems(2)] show ?thesis
      by (intro exI [of _ c]) simp
  qed
qed

text \<open>Where a branch has to be left and the other one entered.\<close>

lemma reorgPath_branch:
  assumes nf: "\<And>j. \<not> bs_readFault bs j" and T: "branch cr gid bs i T" and N: "branch cr gid bs j N"
  shows "\<exists>c. 0 < c \<and> c \<le> length T \<and> c \<le> length N \<and> take c T = take c N
    \<and> (c < length T \<longrightarrow> c < length N \<longrightarrow> T ! c \<noteq> N ! c)
    \<and> reorgPath bs i (Header (last T)) j (Some (Header (last N)))
      = Some (Inr (map (block_ID cr) (rev (drop c T)), map (block_ID cr) (drop c N)))"
proof -
  define m where "m = min (length T) (length N) - 1"
  have ne: "0 < length T" "0 < length N" using branch_ne [OF T] branch_ne [OF N] by auto
  then have m: "m < length T" "m < length N" unfolding m_def by linarith+
  have h: "(if Height (Header (last N)) < Height (Header (last T)) then Height (Header (last N)) else Height (Header (last T)))
      = int m"
    unfolding branch_top [OF T] branch_top [OF N] m_def using ne by (auto simp: min_def of_nat_diff Suc_le_eq)
  have d: "fold (\<lambda>x ys. ys @ [x]) xs ys = ys @ xs" "fold (#) xs ys = rev xs @ ys" for xs ys :: "block_id list"
    by (induction xs arbitrary: ys) auto
  obtain c where c: "c \<le> m" "take (Suc c) T = take (Suc c) N" "c < m \<longrightarrow> T ! Suc c \<noteq> N ! Suc c"
    "walkToCommon bs (Some (Header (T ! m))) (block_ID cr (T ! m)) (Some (Header (N ! m))) (block_ID cr (N ! m))
       (map (block_ID cr) (rev (drop (Suc m) T))) (map (block_ID cr) (drop (Suc m) N)) =
      Some (Inr (map (block_ID cr) (rev (drop (Suc m) T)) @ map (block_ID cr) (rev (take (m - c) (drop (Suc c) T))),
                 map (block_ID cr) (take (m - c) (drop (Suc c) N)) @ map (block_ID cr) (drop (Suc m) N)))"
    using walkToCommon_branch [OF nf T N m] by blast
  have j: "take (m - c) (drop (Suc c) xs) @ drop (Suc m) xs = drop (Suc c) xs" for xs :: "block list"
    using c(1) append_take_drop_id [of "m - c" "drop (Suc c) xs"] by simp
  have r: "reorgPath bs i (Header (last T)) j (Some (Header (last N)))
      = Some (Inr (map (block_ID cr) (rev (drop (Suc m) T)) @ map (block_ID cr) (rev (take (m - c) (drop (Suc c) T))),
                 map (block_ID cr) (take (m - c) (drop (Suc c) N)) @ map (block_ID cr) (drop (Suc m) N)))"
    unfolding reorgPath_def option.case Let_def h walkToHeight_branch [OF nf T m(1)] walkToHeight_branch [OF nf N m(2)] d
    using c(4) by (simp add: rev_map)
  have "reorgPath bs i (Header (last T)) j (Some (Header (last N)))
      = Some (Inr (map (block_ID cr) (rev (drop (Suc c) T)), map (block_ID cr) (drop (Suc c) N)))"
    unfolding r map_append [symmetric] rev_append [symmetric] j ..
  moreover have "T ! Suc c \<noteq> N ! Suc c" if "Suc c < length T" "Suc c < length N"
  proof -
    have "c < m" using that unfolding m_def by linarith
    with c(3) show ?thesis by blast
  qed
  ultimately show ?thesis using c m by (intro exI [of _ "Suc c"]) auto
qed

end
