(* ===== verification/Processor_Core.thy ===== *)
theory Processor_Core
  imports Branches
begin

text \<open>
  The state the processor keeps between turns when storage works, and what connecting and disconnecting
  blocks does to it.
\<close>

section \<open>Connecting does not panic\<close>

lemma reads_no_panic:
  "db_Get db k \<noteq> Inl (Panic m)" "db_Has db k \<noteq> Inl (Panic m)" "GetPublicKeyBalance l pk \<noteq> Inl (Panic m)"
  "GetBlockIDForHeight l h \<noteq> Inl (Panic m)" "GetChainTip l \<noteq> Inl (Panic m)"
  "bs_GetBlock bs i \<noteq> Inl (Panic m)" "bs_GetTransaction bs i n \<noteq> Inl (Panic m)"
  by (auto simp: db_Get_def db_Has_def GetPublicKeyBalance_def GetBlockIDForHeight_def GetChainTip_def decodeChainTip_def
      bs_GetBlock_def bs_GetTransaction_def read_array32_def read_i64_def result_simps split: option.splits if_splits)

lemma Apply_no_panic: "Apply (GetPublicKeyBalance l) tx b \<noteq> (Inl (Panic m), b')"
  using reads_no_panic(3)
  by (auto simp: Apply_def creditRecipient_def cachedBalance_def Let_def split: sum.splits option.splits if_splits)

lemma applyToCache_no_panic: "applyToCache l t b \<noteq> Inl (Panic m)"
  using Apply_no_panic by (auto simp: applyToCache_def split: option.splits prod.splits sum.splits bool.splits)

lemma maturedCoinbase_no_panic: "maturedCoinbase bs l h \<noteq> Inl (Panic m)"
  using reads_no_panic by (auto simp: maturedCoinbase_def result_simps split: option.splits if_splits)

lemma connectTxs_no_panic: "connectTxs cr bs l h i txs batch bc ids \<noteq> Inl (Panic m)"
proof (induction txs arbitrary: i batch bc ids)
  case (Cons tx txs)
  then show ?case
    using reads_no_panic(2) applyToCache_no_panic maturedCoinbase_no_panic
    by (auto simp: Let_def result_simps split: if_splits)
qed simp

lemma connect_no_panic: "ConnectBlock cr bs i b l \<noteq> (Inl (Panic m), l')"
proof -
  have "pruneIndices cr bs l h \<noteq> Inl (Panic m)" for h
    using reads_no_panic by (auto simp: pruneIndices_def blockAtHeight_def result_simps split: option.splits)
  then have "connectBatch cr bs l i b \<noteq> Inl (Panic m)"
    using reads_no_panic(5) connectTxs_no_panic
    by (auto simp: connectBatch_def result_simps split: if_splits)
  then show ?thesis
    by (auto simp: ConnectBlock_def writeBatch_def db_Write_def split: sum.splits prod.splits if_splits)
qed

section \<open>The state between turns\<close>

definition branchByte :: "ledger \<Rightarrow> block_id \<Rightarrow> bytes option" where
  "branchByte l i = db_at (l_db l) (computeBranchTypeKey i)"

text \<open>The blocks the ledger has a branch type for.\<close>

definition known :: "ledger \<Rightarrow> block_id set" where
  "known l = {i. branchByte l i \<noteq> None}"

abbreviation ids_of :: "crypto \<Rightarrow> block list \<Rightarrow> block_id set" where
  "ids_of cr bl \<equiv> block_ID cr ` set bl"

definition healthy :: "processor \<Rightarrow> bool" where
  "healthy p \<longleftrightarrow> no_faults (p_blockStore p) (p_ledger p) \<and> \<not> iterFault (l_db (p_ledger p))
     \<and> \<not> bs_readOnly (p_blockStore p) \<and> \<not> bs_writeBlockFault (p_blockStore p) \<and> \<not> bs_writeHeaderFault (p_blockStore p)"

definition queue_ok :: "crypto \<Rightarrow> tx_queue \<Rightarrow> bool" where
  "queue_ok cr q \<longleftrightarrow> tq_inv cr q \<and> (\<forall>tx \<in> set (tq_txs q). queueable tx) \<and> minBalance (balanceCache q) = minQueueBalance"

definition pcore :: "crypto \<Rightarrow> block_id \<Rightarrow> bool \<Rightarrow> block list \<Rightarrow> processor \<Rightarrow> bool" where
  "pcore cr gid prune chain p \<longleftrightarrow> healthy p \<and> p_genesisID p = gid \<and> queue_ok cr (p_txQueue p)
     \<and> reach cr prune chain (p_ledger p) \<and> chain \<noteq> []
     \<and> branch cr gid (p_blockStore p) (block_ID cr (last chain)) chain
     \<and> (\<forall>i. branchByte (p_ledger p) i \<in> {None, Some [0], Some [1]})
     \<and> (\<forall>i \<in> known (p_ledger p). \<exists>bl. branch cr gid (p_blockStore p) i bl \<and> ids_of cr bl \<subseteq> known (p_ledger p))"

lemma pcore_parts:
  assumes "pcore cr gid prune chain p"
  shows "healthy p" "p_genesisID p = gid" "queue_ok cr (p_txQueue p)" "reach cr prune chain (p_ledger p)" "chain \<noteq> []"
    "branch cr gid (p_blockStore p) (block_ID cr (last chain)) chain"
    "branchByte (p_ledger p) i \<in> {None, Some [0], Some [1]}"
    "i \<in> known (p_ledger p) \<Longrightarrow> \<exists>bl. branch cr gid (p_blockStore p) i bl \<and> ids_of cr bl \<subseteq> known (p_ledger p)"
    "stored cr (p_blockStore p) chain" "ids_of cr chain \<subseteq> known (p_ledger p)"
proof -
  show "healthy p" "p_genesisID p = gid" "queue_ok cr (p_txQueue p)" "reach cr prune chain (p_ledger p)" "chain \<noteq> []"
    "branch cr gid (p_blockStore p) (block_ID cr (last chain)) chain"
    "branchByte (p_ledger p) i \<in> {None, Some [0], Some [1]}"
    "i \<in> known (p_ledger p) \<Longrightarrow> \<exists>bl. branch cr gid (p_blockStore p) i bl \<and> ids_of cr bl \<subseteq> known (p_ledger p)"
    using assms unfolding pcore_def by blast+
  then show "stored cr (p_blockStore p) chain" using branch_stored by blast
  have r: "reach cr prune chain (p_ledger p)" using assms by (simp add: pcore_def)
  show "ids_of cr chain \<subseteq> known (p_ledger p)"
    using reach_rels(8) [OF r] by (auto simp: branch_rel_def known_def branchByte_def)
qed

lemma healthy_parts:
  assumes "healthy p"
  shows "no_faults (p_blockStore p) (p_ledger p)" "readable (p_ledger p)" "\<not> bs_readFault (p_blockStore p) i"
    "\<not> readFault (l_db (p_ledger p)) k"
  using assms by (auto simp: healthy_def no_faults_def readable_def)

lemma reach_supply: "reach cr prune chain l \<Longrightarrow> supply_table (bal l)"
  using chain_table(3) reach_rels(1,5) bal_rel_eq(1) by metis

text \<open>A new ledger and queue over the same store, with the branch table changed for one block.\<close>

lemma pcore_update:
  assumes p: "pcore cr gid prune chain p"
    and l: "reach cr prune chain' l" "same_faults (l_db (p_ledger p)) (l_db l)" "chain' \<noteq> []"
    and i: "\<And>j. branchByte l j = (if j = i then Some v else branchByte (p_ledger p) j)" "v = [0] \<or> v = [1]"
    and b: "branch cr gid (p_blockStore p) (block_ID cr (last chain')) chain'"
    and k: "i \<notin> known (p_ledger p) \<Longrightarrow> \<exists>bl. branch cr gid (p_blockStore p) i bl \<and> ids_of cr bl \<subseteq> insert i (known (p_ledger p))"
    and q: "queue_ok cr q"
    and p': "p_ledger p' = l" "p_txQueue p' = q" "p_blockStore p' = p_blockStore p" "p_genesisID p' = p_genesisID p"
  shows "pcore cr gid prune chain' p'" "known l = insert i (known (p_ledger p))"
proof -
  note c = pcore_parts [OF p]
  show kn: "known l = insert i (known (p_ledger p))" using i(1) by (auto simp: known_def)
  have "healthy p'" using c(1) l(2) unfolding healthy_def no_faults_def same_faults_def p' by simp
  moreover have "\<exists>bl. branch cr gid (p_blockStore p) j bl \<and> ids_of cr bl \<subseteq> known l" if "j \<in> known l" for j
  proof (cases "j \<in> known (p_ledger p)")
    case True
    from c(8) [OF this] show ?thesis unfolding kn by (elim exE conjE) (blast intro: subset_insertI2)
  next
    case False
    then have "j = i" using that unfolding kn by simp
    with False k show ?thesis unfolding kn by simp
  qed
  moreover have "branchByte l j \<in> {None, Some [0], Some [1]}" for j using i c(7) [of j] by auto
  ultimately show "pcore cr gid prune chain' p'"
    unfolding pcore_def p' using c(2) l(1,3) b q by simp
qed

section \<open>Disconnecting and connecting\<close>

lemma shape_tail:
  assumes "block_shape cr b"
  shows "Transactions b \<noteq> []" "\<forall>tx \<in> set (tl (Transactions b)). queueable tx"
    "distinct (map (tx_ID cr) (tl (Transactions b)))"
  using assms by (auto simp: block_shape_def queueable_def)

lemma AddBatch_ok:
  assumes "queue_ok cr q" "block_shape cr b"
  shows "\<exists>q'. tq_AddBatch (map (tx_ID cr) (tl (Transactions b))) (tl (Transactions b)) h q = (Inr (), q') \<and> queue_ok cr q'"
proof -
  note t = shape_tail [OF assms(2)]
  from addBatchLoop_inv [OF _ refl t(3)] assms(1) t(2) show ?thesis
    by (fastforce simp: queue_ok_def tq_AddBatch_def)
qed

lemma disconnectBlock_ok:
  assumes p: "pcore cr gid prune (chain @ [b]) p" and ne: "chain \<noteq> []"
  shows "\<exists>p'. disconnectBlock cr (block_ID cr b) b source p = (Inr (), p') \<and> pcore cr gid prune chain p'
    \<and> p_blockStore p' = p_blockStore p \<and> known (p_ledger p') = known (p_ledger p)"
proof -
  let ?l = "p_ledger p" and ?bs = "p_blockStore p" and ?i = "block_ID cr b"
  note c = pcore_parts [OF p] and h = healthy_parts [OF pcore_parts(1) [OF p]]
  have inv: "chain_valid cr (l_prune ?l) (chain @ [b])" "ledger_rel cr (chain @ [b]) ?l"
    using reach_inv [OF c(4)] by auto
  obtain l where l: "DisconnectBlock cr ?bs ?i b ?l = (Inr (map (tx_ID cr) (Transactions b)), l)"
    "\<forall>j. db_at (l_db l) (computeBranchTypeKey j) = (if j = ?i then Some [1] else db_at (l_db ?l) (computeBranchTypeKey j))"
    "same_faults (l_db ?l) (l_db l)"
    using disconnect_succeeds [OF inv c(9) ne h(1)] by blast
  have r: "reach cr prune chain l" using reach.disconnect [OF c(4) ne c(9) l(1)] by simp
  have sh: "block_shape cr b" using chain_valid_block(1) [OF inv(1), of "length chain"] by simp
  obtain q where q: "tq_AddBatch (map (tx_ID cr) (tl (Transactions b))) (tl (Transactions b)) (i64 (Height (Header b) - 1))
      (p_txQueue p) = (Inr (), q)" "queue_ok cr q"
    using AddBatch_ok [OF c(3) sh] by blast
  define p' where "p' = notifyTipChange \<lparr>tc_BlockID = ?i, tc_Block = b, tc_Source = source,
      tc_Connect = False, tc_More = False\<rparr> (p\<lparr>p_ledger := l, p_txQueue := q\<rparr>)"
  have d: "disconnectBlock cr ?i b source p = (Inr (), p')"
    using shape_tail(1) [OF sh] q(1) unfolding disconnectBlock_def l(1) p'_def
    by (simp add: sliceTail_def map_tl [symmetric])
  have br: "branch cr gid ?bs (block_ID cr (last chain)) chain"
    using branch_prefix [OF c(6), of "length chain - 1"] ne by (simp add: nth_append last_conv_nth)
  have i: "?i \<in> known ?l" using c(10) by auto
  have b: "branchByte l j = (if j = ?i then Some [1] else branchByte ?l j)" for j using l(2) by (simp add: branchByte_def)
  have "pcore cr gid prune chain p'"
    by (rule pcore_update(1) [OF p r l(3) ne b _ br _ q(2)]; simp add: p'_def notifyTipChange_def i)
  moreover have "known l = insert ?i (known ?l)" using b by (auto simp: known_def)
  moreover note i
  ultimately show ?thesis using d by (intro exI [of _ p']) (auto simp: p'_def notifyTipChange_def)
qed

lemma connectBlock_ok:
  assumes p: "pcore cr gid prune chain p" and b: "branch cr gid (p_blockStore p) (block_ID cr b) (chain @ [b])"
    and v: "chain_valid cr prune (chain @ [b])"
  shows "\<exists>p'. connectBlock cr (block_ID cr b) b source moreComing p = (Inr (), p') \<and> pcore cr gid prune (chain @ [b]) p'
    \<and> p_blockStore p' = p_blockStore p \<and> known (p_ledger p') = insert (block_ID cr b) (known (p_ledger p))
    \<and> (\<not> moreComing \<longrightarrow> settled cr (p_ledger p') (p_txQueue p'))"
proof -
  let ?l = "p_ledger p" and ?bs = "p_blockStore p" and ?i = "block_ID cr b"
  note c = pcore_parts [OF p] and h = healthy_parts [OF pcore_parts(1) [OF p]]
  have inv: "chain_valid cr (l_prune ?l) chain" "ledger_rel cr chain ?l" "l_prune ?l = prune"
    using reach_inv [OF c(4)] by auto
  have ok: "block_ok cr (length chain) b" using branch_block_ok [OF b, of "length chain"] by simp
  obtain l where l: "ConnectBlock cr ?bs ?i b ?l = (Inr (map (tx_ID cr) (Transactions b)), l)"
    using connect_succeeds [OF inv(1,2) c(9) ok h(1)] chain_valid_conditions [OF v] inv(3) by blast
  note ref = connect_refines(4,6) [OF inv(1,2) c(9) ok l]
  have r: "reach cr prune (chain @ [b]) l" using reach.connect [OF c(4,9) ok l] by simp
  have bal: "supply_table (bal l)" "readable l"
    using reach_supply [OF r] h(2) ref(1) by (auto simp: readable_def same_faults_def)
  have by': "branchByte l ?i = Some [0]"
    using reach_rels(8) [OF r] by (auto simp: branch_rel_def branchByte_def)
  have bb: "branchByte l j = (if j = ?i then Some [0] else branchByte ?l j)" for j
    using ref(2) [of j] by' by (auto simp: branchByte_def)
  have sh: "block_shape cr b" using ok by (simp add: block_ok_def)
  obtain q where q: "tq_RemoveBatch cr (GetPublicKeyBalance l) (map (tx_ID cr) (tl (Transactions b))) (Height (Header b))
      moreComing (p_txQueue p) = (Inr (), q)" "queue_ok cr q" "\<not> moreComing \<longrightarrow> settled cr l q"
  proof (cases moreComing)
    case True
    show ?thesis
      by (rule that [of "removeIDs (map (tx_ID cr) (tl (Transactions b))) (p_txQueue p)"])
        (use True c(3) removeIDs_inv [of cr "p_txQueue p" "map (tx_ID cr) (tl (Transactions b))"] in
          \<open>simp_all add: tq_RemoveBatch_def queue_ok_def\<close>)
  next
    case False
    from c(3) have qo: "tq_inv cr (p_txQueue p)" "\<forall>tx \<in> set (tq_txs (p_txQueue p)). queueable tx"
      "minBalance (balanceCache (p_txQueue p)) = minQueueBalance" unfolding queue_ok_def by blast+
    obtain q' where "tq_RemoveBatch cr (GetPublicKeyBalance l) (map (tx_ID cr) (tl (Transactions b))) (Height (Header b))
      False (p_txQueue p) = (Inr (), q')" "settled cr l q'"
      using reprocess_settles [OF qo bal] by blast
    with False show ?thesis by (intro that [of q']) (auto simp: settled_def queue_ok_def)
  qed
  define p' where "p' = notifyTipChange \<lparr>tc_BlockID = ?i, tc_Block = b, tc_Source = source,
      tc_Connect = True, tc_More = moreComing\<rparr> (p\<lparr>p_ledger := l, p_txQueue := q\<rparr>)"
  have d: "connectBlock cr ?i b source moreComing p = (Inr (), p')"
    using shape_tail(1) [OF sh] q(1) unfolding connectBlock_def l p'_def
    by (simp add: sliceTail_def map_tl [symmetric])
  have br: "branch cr gid ?bs (block_ID cr (last (chain @ [b]))) (chain @ [b])" using b by simp
  have k: "\<exists>bl. branch cr gid ?bs ?i bl \<and> ids_of cr bl \<subseteq> insert ?i (known ?l)"
    using b c(10) by (intro exI [of _ "chain @ [b]"]) auto
  have "pcore cr gid prune (chain @ [b]) p'"
    by (rule pcore_update(1) [OF p r ref(1) _ bb _ br k q(2)]; simp add: p'_def notifyTipChange_def)
  moreover have "known l = insert ?i (known ?l)" using bb by (auto simp: known_def)
  ultimately show ?thesis using d q(3) by (intro exI [of _ p']) (auto simp: p'_def notifyTipChange_def)
qed

lemma connectBlock_refused:
  assumes p: "pcore cr gid prune chain p" and b: "branch cr gid (p_blockStore p) (block_ID cr b) (chain @ [b])"
    and v: "\<not> chain_valid cr prune (chain @ [b])"
  shows "\<exists>e. connectBlock cr (block_ID cr b) b source moreComing p = (Inl e, p) \<and> (\<forall>m. e \<noteq> Panic m)"
proof -
  note c = pcore_parts [OF p]
  have ok: "block_ok cr (length chain) b" using branch_block_ok [OF b, of "length chain"] by simp
  obtain r l where l: "ConnectBlock cr (p_blockStore p) (block_ID cr b) b (p_ledger p) = (r, l)" by force
  with connect_conditions [OF c(4,9) ok] v obtain e where e: "r = Inl e" by (cases r) auto
  with l connect_failure have "l = p_ledger p" by blast
  with l e connect_no_panic show ?thesis by (auto simp: connectBlock_def)
qed

section \<open>Moving between branches\<close>

lemma withBlock_branch:
  assumes "pcore cr gid prune chain p" "branch cr gid (p_blockStore p) i bl" "b \<in> set bl"
  shows "withBlock (block_ID cr b) f p = f b p"
  using healthy_parts(3) [OF pcore_parts(1) [OF assms(1)]] branch_holds [OF assms(2,3)]
  by (simp add: withBlock_def bs_GetBlock_def holds_def)

lemma disconnectBlocks_ok:
  "pcore cr gid prune (chain @ xs) p \<Longrightarrow> chain \<noteq> [] \<Longrightarrow>
   \<exists>p'. disconnectBlocks cr source (map (block_ID cr) (rev xs)) p = (Inr (), p') \<and> pcore cr gid prune chain p'
    \<and> p_blockStore p' = p_blockStore p \<and> known (p_ledger p') = known (p_ledger p)"
proof (induction xs arbitrary: p rule: rev_induct)
  case (snoc x xs)
  have p: "pcore cr gid prune ((chain @ xs) @ [x]) p" using snoc.prems(1) by simp
  obtain p1 where p1: "disconnectBlock cr (block_ID cr x) x source p = (Inr (), p1)" "pcore cr gid prune (chain @ xs) p1"
    "p_blockStore p1 = p_blockStore p" "known (p_ledger p1) = known (p_ledger p)"
    using disconnectBlock_ok [OF p] snoc.prems(2) by auto
  have "withBlock (block_ID cr x) (\<lambda>b. disconnectBlock cr (block_ID cr x) b source) p
      = disconnectBlock cr (block_ID cr x) x source p"
    by (rule withBlock_branch [OF snoc.prems(1) pcore_parts(6) [OF snoc.prems(1)]]) simp
  with p1 snoc.IH [OF p1(2) snoc.prems(2)] show ?case by simp
qed simp

lemma chain_valid_prefix: "chain_valid cr prune (xs @ ys) \<Longrightarrow> chain_valid cr prune xs"
proof (induction ys rule: rev_induct)
  case (snoc y ys)
  then show ?case using chain_valid_butlast [of cr prune "xs @ ys" y] by simp
qed simp

lemma connectBlocks_cases:
  "pcore cr gid prune chain p \<Longrightarrow> branch cr gid (p_blockStore p) i (chain @ xs) \<Longrightarrow> ids_of cr xs \<subseteq> known (p_ledger p) \<Longrightarrow>
   \<exists>ys zs r p'. xs = ys @ zs \<and> connectBlocks cr source (map (block_ID cr) xs) p = (r, p')
    \<and> pcore cr gid prune (chain @ ys) p' \<and> p_blockStore p' = p_blockStore p \<and> known (p_ledger p') = known (p_ledger p)
    \<and> (if zs = [] then r = Inr ()
       else (\<exists>e. r = Inl e \<and> (\<forall>m. e \<noteq> Panic m)) \<and> \<not> chain_valid cr prune (chain @ xs) \<and> (ys = [] \<longrightarrow> p' = p))"
proof (induction xs arbitrary: chain p)
  case Nil
  then show ?case by simp
next
  case (Cons x xs)
  have b: "branch cr gid (p_blockStore p) (block_ID cr x) (chain @ [x])"
    using branch_prefix [OF Cons.prems(2), of "length chain"] by simp
  have w: "withBlock (block_ID cr x) (\<lambda>b. connectBlock cr (block_ID cr x) b source True) p
      = connectBlock cr (block_ID cr x) x source True p"
    by (rule withBlock_branch [OF Cons.prems(1,2)]) simp
  show ?case
  proof (cases "chain_valid cr prune (chain @ [x])")
    case True
    obtain p1 where p1: "connectBlock cr (block_ID cr x) x source True p = (Inr (), p1)" "pcore cr gid prune (chain @ [x]) p1"
      "p_blockStore p1 = p_blockStore p" "known (p_ledger p1) = known (p_ledger p)"
      using connectBlock_ok [OF Cons.prems(1) b True, of source True] Cons.prems(3) by (auto simp: insert_absorb)
    have b1: "branch cr gid (p_blockStore p1) i ((chain @ [x]) @ xs)" using Cons.prems(2) p1(3) by simp
    have k1: "ids_of cr xs \<subseteq> known (p_ledger p1)" using Cons.prems(3) p1(4) by simp
    obtain ys zs r p' where ih: "xs = ys @ zs" "connectBlocks cr source (map (block_ID cr) xs) p1 = (r, p')"
      "pcore cr gid prune ((chain @ [x]) @ ys) p'" "p_blockStore p' = p_blockStore p1" "known (p_ledger p') = known (p_ledger p1)"
      "if zs = [] then r = Inr () else (\<exists>e. r = Inl e \<and> (\<forall>m. e \<noteq> Panic m)) \<and> \<not> chain_valid cr prune ((chain @ [x]) @ xs)
         \<and> (ys = [] \<longrightarrow> p' = p1)"
      using Cons.IH [OF p1(2) b1 k1] by blast
    have "connectBlocks cr source (map (block_ID cr) (x # xs)) p = (r, p')" using w p1(1) ih(2) by simp
    with ih p1(3,4) show ?thesis
      by (rule_tac exI [of _ "x # ys"], rule_tac exI [of _ zs], rule_tac exI [of _ r], rule_tac exI [of _ p'])
        (simp split: if_splits)
  next
    case False
    with chain_valid_prefix [of cr prune "chain @ [x]" xs] have nv: "\<not> chain_valid cr prune (chain @ x # xs)" by auto
    obtain e where "connectBlock cr (block_ID cr x) x source True p = (Inl e, p)" "\<forall>m. e \<noteq> Panic m"
      using connectBlock_refused [OF Cons.prems(1) b False] by blast
    with w nv Cons.prems(1) show ?thesis
      by (rule_tac exI [of _ "[]"], rule_tac exI [of _ "x # xs"]) auto
  qed
qed

text \<open>From branch \<open>T\<close> to branch \<open>N\<close> and on to the new block.\<close>

lemma reorg_cases:
  fixes source :: string
  assumes p: "pcore cr gid prune T p" and N: "branch cr gid (p_blockStore p) (block_ID cr b) (N @ [b])" "N \<noteq> []"
    and k: "ids_of cr N \<subseteq> known (p_ledger p)"
    and c: "0 < c" "c \<le> length T" "c \<le> length N" "take c T = take c N"
  defines "res \<equiv> bindS (disconnectBlocks cr source (map (block_ID cr) (rev (drop c T))) p) (\<lambda>_ p.
      bindS (connectBlocks cr source (map (block_ID cr) (drop c N)) p) (\<lambda>_ p. connectBlock cr (block_ID cr b) b source False p))"
  shows "if chain_valid cr prune (N @ [b])
    then \<exists>p'. res = (Inr (), p') \<and> pcore cr gid prune (N @ [b]) p' \<and> p_blockStore p' = p_blockStore p
      \<and> known (p_ledger p') = insert (block_ID cr b) (known (p_ledger p)) \<and> settled cr (p_ledger p') (p_txQueue p')
    else \<exists>e p' m. res = (Inl e, p') \<and> (\<forall>m. e \<noteq> Panic m) \<and> pcore cr gid prune (take m N) p' \<and> 0 < m
      \<and> p_blockStore p' = p_blockStore p \<and> known (p_ledger p') = known (p_ledger p) \<and> (T = N \<and> c = length N \<longrightarrow> p' = p)"
proof -
  let ?c = "take c N"
  have ne: "?c \<noteq> []" using c N(2) by auto
  have T: "pcore cr gid prune (?c @ drop c T) p" using p c(4) append_take_drop_id [of c T] by simp
  obtain p1 where p1: "disconnectBlocks cr source (map (block_ID cr) (rev (drop c T))) p = (Inr (), p1)"
    "pcore cr gid prune ?c p1" "p_blockStore p1 = p_blockStore p" "known (p_ledger p1) = known (p_ledger p)"
    using disconnectBlocks_ok [OF T ne] by blast
  have bN: "branch cr gid (p_blockStore p1) (Previous (Header b)) (?c @ drop c N)"
    using branch_snoc(1) [OF N] p1(3) by simp
  have kN: "ids_of cr (drop c N) \<subseteq> known (p_ledger p1)" using k p1(4) set_drop_subset by fastforce
  obtain ys zs r p2 where p2: "drop c N = ys @ zs" "connectBlocks cr source (map (block_ID cr) (drop c N)) p1 = (r, p2)"
    "pcore cr gid prune (?c @ ys) p2" "p_blockStore p2 = p_blockStore p1" "known (p_ledger p2) = known (p_ledger p1)"
    "if zs = [] then r = Inr ()
       else (\<exists>e. r = Inl e \<and> (\<forall>m. e \<noteq> Panic m)) \<and> \<not> chain_valid cr prune (?c @ drop c N) \<and> (ys = [] \<longrightarrow> p2 = p1)"
    using connectBlocks_cases [OF p1(2) bN kN] by blast
  have same: "p1 = p" if "c = length N" "T = N" using that p1(1) by simp
  show ?thesis
  proof (cases "zs = []")
    case True
    have p2N: "pcore cr gid prune N p2" using p2(1,3) True append_take_drop_id [of c N] by simp
    have b2: "branch cr gid (p_blockStore p2) (block_ID cr b) (N @ [b])" using N(1) p1(3) p2(4) by simp
    have res: "res = connectBlock cr (block_ID cr b) b source False p2" unfolding res_def p1(1) using p2(2,6) True by simp
    show ?thesis
    proof (cases "chain_valid cr prune (N @ [b])")
      case v: True
      from connectBlock_ok [OF p2N b2 v, of source False] v p1 p2 show ?thesis unfolding res by auto
    next
      case v: False
      obtain e where e: "connectBlock cr (block_ID cr b) b source False p2 = (Inl e, p2)" "\<forall>m. e \<noteq> Panic m"
        using connectBlock_refused [OF p2N b2 v] by blast
      have "p2 = p" if "c = length N" "T = N"
        using that same [OF that] p2(2) by simp
      with v e p2N p1 p2 N(2) show ?thesis
        unfolding res if_not_P [OF v] by (intro exI [of _ e] exI [of _ p2] exI [of _ "length N"]) auto
    qed
  next
    case False
    then obtain e where e: "r = Inl e" "\<forall>m. e \<noteq> Panic m" and nv: "\<not> chain_valid cr prune N" using p2(6) by auto
    with chain_valid_prefix have v: "\<not> chain_valid cr prune (N @ [b])" by blast
    have res: "res = (Inl e, p2)" unfolding res_def p1(1) using p2(2) e by simp
    have "N = (?c @ ys) @ zs" using p2(1) append_take_drop_id [of c N] by simp
    then have "?c @ ys = take (length (?c @ ys)) N" by (metis append_eq_conv_conj)
    then obtain m where t: "?c @ ys = take m N" by blast
    then have "0 < m" using ne by (cases m) auto
    have "\<not> (c = length N)" using False p2(1) by auto
    with \<open>0 < m\<close> v e p1 p2(3-5) t show ?thesis
      unfolding res if_not_P [OF v] by (intro exI [of _ e] exI [of _ p2] exI [of _ m]) auto
  qed
qed

end
