(* ===== verification/Consensus.thy ===== *)
theory Consensus
  imports Processor_Core
begin

text \<open>
  Which chain the processor is on. While storage works, the ledger follows the most-work valid chain among the
  blocks it has accepted, a reorganisation either completes or is undone, and the transaction queue
  is settled against the ledger after every block.
\<close>

section \<open>The tip\<close>

lemma pcore_tip:
  assumes "pcore cr gid prune chain p"
  obtains w where "GetChainTip (p_ledger p) = Inr (Some (block_ID cr (last chain), int (length chain) - 1))"
    "bs_headers (p_blockStore p) (block_ID cr (last chain)) = Some (Header (last chain), w)"
    "getChainTipHeader (p_ledger p) (p_blockStore p) = Inr (Some (block_ID cr (last chain), Some (Header (last chain)), w))"
proof -
  note c = pcore_parts [OF assms] and h = healthy_parts [OF pcore_parts(1) [OF assms]]
  have "int64 (int (length chain) - 1)" using reach_rels(9) [OF c(4)] by (simp add: int64_def)
  then have t: "GetChainTip (p_ledger p) = Inr (Some (block_ID cr (last chain), int (length chain) - 1))"
    using GetChainTip_eq(2) [OF h(4)] reach_rels(3) [OF c(4)] c(5) by (simp add: tip_rel_def)
  obtain w where w: "bs_headers (p_blockStore p) (block_ID cr (last chain)) = Some (Header (last chain), w)"
    using branch_last [OF c(6)] by (auto simp: holds_def)
  show ?thesis by (rule that [OF t w]) (simp add: getChainTipHeader_def t w h(3) bs_GetBlockHeader_def)
qed

lemma branch_id:
  assumes "branch cr gid bs i bl"
  shows "i \<in> ids_of cr bl"
proof -
  have "last bl \<in> set bl" using branch_ne [OF assms] by simp
  then have "block_ID cr (last bl) \<in> ids_of cr bl" by (rule imageI)
  with branch_last [OF assms] show ?thesis by simp
qed

lemma pcore_tip_known: "pcore cr gid prune chain p \<Longrightarrow> block_ID cr (last chain) \<in> known (p_ledger p)"
  using pcore_parts(10) pcore_parts(5) by fastforce

lemma settled_cong: "bal l = bal l' \<Longrightarrow> settled cr l q = settled cr l' q"
  by (simp add: settled_def lb.view_def [abs_def])

lemma side_ok:
  assumes p: "pcore cr gid prune chain p" and i: "i \<notin> ids_of cr chain"
    and b: "branch cr gid (p_blockStore p) i bl" "ids_of cr bl \<subseteq> insert i (known (p_ledger p))"
  shows "\<exists>l. SetBranchType i SIDE (p_ledger p) = (Inr (), l) \<and> pcore cr gid prune chain (p\<lparr>p_ledger := l\<rparr>)
    \<and> known l = insert i (known (p_ledger p)) \<and> bal l = bal (p_ledger p)"
proof -
  let ?l = "p_ledger p"
  note c = pcore_parts [OF p] and h = healthy_parts [OF pcore_parts(1) [OF p]]
  have "\<not> writeFault (l_db ?l)" using h(1) by (simp add: no_faults_def)
  then obtain db where db: "db_Write [Put (computeBranchTypeKey i) [1]] (l_db ?l) = (Inr (), db)"
    by (simp add: db_Write_def)
  define l where "l = ?l\<lparr>l_db := db\<rparr>"
  have s: "SetBranchType i SIDE ?l = (Inr (), l)" by (simp add: SetBranchType_def db l_def)
  have r: "reach cr prune chain l" by (rule reach.side [OF c(4) i _ _ _ s]) simp_all
  have bb: "branchByte l j = (if j = i then Some [1] else branchByte ?l j)" for j
    using db_Write_Inr(1) [OF db] by (simp add: branchByte_def l_def)
  have f: "same_faults (l_db ?l) (l_db l)" using db_Write_Inr(3) [OF db] by (simp add: l_def)
  have "pcore cr gid prune chain (p\<lparr>p_ledger := l\<rparr>)"
    by (rule pcore_update(1) [OF p r f c(5) bb _ c(6) _ c(3)]) (use b in auto)
  moreover have "known l = insert i (known ?l)" using bb by (auto simp: known_def)
  moreover have "bal l = bal ?l"
    using bal_rel_eq(1) [OF reach_rels(1,5) [OF r]] bal_rel_eq(1) [OF reach_rels(1,5) [OF c(4)]] by simp
  ultimately show ?thesis using s by blast
qed

section \<open>Moving to a better block\<close>

lemma continue_better:
  assumes p: "pcore cr gid prune T p" and N: "branch cr gid (p_blockStore p) (block_ID cr b) (N @ [b])" "N \<noteq> []"
    and k: "ids_of cr N \<subseteq> known (p_ledger p)" and ne: "block_ID cr b \<noteq> block_ID cr (last T)"
    and w: "bs_headers (p_blockStore p) (block_ID cr (last T)) = Some (Header (last T), w)"
    and cmp: "Compare cr (Header b) (Header (last T)) v w"
  shows "if chain_valid cr prune (N @ [b])
    then \<exists>p'. acceptBlockContinue cr (block_ID cr b) b v (Some (Header (last N))) source p = Some (Inr (), p')
      \<and> pcore cr gid prune (N @ [b]) p' \<and> p_blockStore p' = p_blockStore p
      \<and> known (p_ledger p') = insert (block_ID cr b) (known (p_ledger p)) \<and> settled cr (p_ledger p') (p_txQueue p')
    else \<exists>e p' m. acceptBlockContinue cr (block_ID cr b) b v (Some (Header (last N))) source p = Some (Inl e, p')
      \<and> (\<forall>m. e \<noteq> Panic m) \<and> pcore cr gid prune (take m N) p' \<and> 0 < m
      \<and> p_blockStore p' = p_blockStore p \<and> known (p_ledger p') = known (p_ledger p) \<and> (T = N \<longrightarrow> p' = p)"
proof -
  note c = pcore_parts [OF p] and h = healthy_parts [OF pcore_parts(1) [OF p]]
  have bN: "branch cr gid (p_blockStore p) (Previous (Header b)) N" by (rule branch_snoc(1) [OF N])
  obtain c where c: "0 < c" "c \<le> length T" "c \<le> length N" "take c T = take c N"
    "c < length T \<longrightarrow> c < length N \<longrightarrow> T ! c \<noteq> N ! c"
    "reorgPath (p_blockStore p) (block_ID cr (last T)) (Header (last T)) (Previous (Header b)) (Some (Header (last N)))
      = Some (Inr (map (block_ID cr) (rev (drop c T)), map (block_ID cr) (drop c N)))"
    using reorgPath_branch [OF h(3) c(6) bN] by blast
  obtain w' where t: "getChainTipHeader (p_ledger p) (p_blockStore p) = Inr (Some (block_ID cr (last T), Some (Header (last T)), w'))"
    "bs_headers (p_blockStore p) (block_ID cr (last T)) = Some (Header (last T), w')"
    by (rule pcore_tip [OF p])
  have "w' = w" using t(2) w by simp
  then have a: "acceptBlockContinue cr (block_ID cr b) b v (Some (Header (last N))) source p =
      Some (bindS (disconnectBlocks cr source (map (block_ID cr) (rev (drop c T))) p) (\<lambda>_ p.
        bindS (connectBlocks cr source (map (block_ID cr) (drop c N)) p) (\<lambda>_ p. connectBlock cr (block_ID cr b) b source False p)))"
    unfolding acceptBlockContinue_def t(1) using ne cmp c(6) by simp
  have "c = length N" if "T = N" using c(2,5) that by (cases "c = length N") auto
  then have e: "(T = N \<and> c = length N \<longrightarrow> p' = p) \<longleftrightarrow> (T = N \<longrightarrow> p' = p)" for p' by blast
  show ?thesis
    using reorg_cases [OF p N k c(1-4), of source] unfolding a option.inject e .
qed

section \<open>The best known block is the tip\<close>

lemma Compare_trans: "Compare cr h k a b \<Longrightarrow> Compare cr k m b c \<Longrightarrow> Compare cr h m a c"
  unfolding Compare_lex by (rule less_trans)

lemma Compare_total: "header_ID cr h \<noteq> header_ID cr k \<Longrightarrow> \<not> Compare cr h k a b \<Longrightarrow> Compare cr k h b a"
  unfolding Compare_lex GetBigInt_inject [symmetric] by (auto simp: less_prod_simp simp del: GetBigInt_inject)

lemma Compare_work: "Compare cr h k a b \<Longrightarrow> GetBigInt (ChainWork k) \<le> GetBigInt (ChainWork h)"
  by (auto simp: Compare_def split: if_splits)

definition beats :: "crypto \<Rightarrow> block_store \<Rightarrow> block_id \<Rightarrow> block_id \<Rightarrow> bool" where
  "beats cr bs i j \<longleftrightarrow> (\<exists>h w k v. bs_headers bs i = Some (h, w) \<and> bs_headers bs j = Some (k, v) \<and> Compare cr h k w v)"

lemma beats_trans: "beats cr bs i j \<Longrightarrow> beats cr bs j k \<Longrightarrow> beats cr bs i k"
  by (auto simp: beats_def intro: Compare_trans)

definition pinv :: "crypto \<Rightarrow> block_id \<Rightarrow> bool \<Rightarrow> block list \<Rightarrow> processor \<Rightarrow> bool" where
  "pinv cr gid prune chain p \<longleftrightarrow> pcore cr gid prune chain p \<and> settled cr (p_ledger p) (p_txQueue p)
     \<and> (\<forall>j \<in> known (p_ledger p). j \<noteq> block_ID cr (last chain) \<longrightarrow> beats cr (p_blockStore p) (block_ID cr (last chain)) j)"

lemma pinv_not_prefix:
  assumes p: "pinv cr gid prune T p" and N: "branch cr gid (p_blockStore p) j N" "j \<in> known (p_ledger p)"
    and t: "T = take m N"
  shows "T = N"
proof (rule ccontr)
  assume ne: "T \<noteq> N"
  have c: "pcore cr gid prune T p" using p by (simp add: pinv_def)
  note b = pcore_parts(6) [OF c]
  have len: "0 < length T" "length T < length N"
    using t ne pcore_parts(5) [OF c] by (auto simp: min_def split: if_splits)
  have "T ! (length T - 1) = N ! (length T - 1)" using t len(1) by (metis One_nat_def diff_less length_greater_0_conv nth_take zero_less_one length_take min_less_iff_conj)
  then have lt: "last T = N ! (length T - 1)" using len(1) by (simp add: last_conv_nth)
  have "work (N ! (length T - 1)) < work (N ! (length N - 1))"
    by (rule branch_work_mono [OF N(1)]; use len in linarith)
  then have w: "work (last T) < work (last N)" using lt branch_ne [OF N(1)] by (simp add: last_conv_nth)
  have "j \<noteq> block_ID cr (last T)" using branch_unique [OF N(1), of T] b ne by blast
  with p N(2) have "beats cr (p_blockStore p) (block_ID cr (last T)) j" by (simp add: pinv_def)
  moreover have "holds cr (p_blockStore p) j (last N)" "holds cr (p_blockStore p) (block_ID cr (last T)) (last T)"
    using branch_last [OF N(1)] branch_last [OF b] by auto
  ultimately have "work (last N) \<le> work (last T)" by (auto simp: beats_def holds_def dest: Compare_work)
  with w show False by simp
qed

lemma reconnect_restores:
  assumes p: "pinv cr gid prune T p" and N: "branch cr gid (p_blockStore p) j N" "j \<in> known (p_ledger p)" "T \<noteq> N"
    and k: "ids_of cr N \<subseteq> known (p_ledger p)"
    and p': "pcore cr gid prune (take m N) p'" "0 < m" "p_blockStore p' = p_blockStore p" "known (p_ledger p') = known (p_ledger p)"
  shows "\<exists>p''. reconnectTip cr (block_ID cr (last T)) source p' = Some (Inr (), p'') \<and> pinv cr gid prune T p''
    \<and> p_blockStore p'' = p_blockStore p \<and> known (p_ledger p'') = known (p_ledger p)"
proof -
  let ?M = "take m N" and ?bs = "p_blockStore p" and ?t = "last T" and ?T = "butlast T"
  have c: "pcore cr gid prune T p" using p by (simp add: pinv_def)
  note d = pcore_parts [OF c] and d' = pcore_parts [OF p'(1)] and h = healthy_parts [OF pcore_parts(1) [OF c]]
  have T: "T = ?T @ [?t]" using d(5) by simp
  have "T = ?M" if "block_ID cr (last ?M) = block_ID cr ?t"
    using branch_unique [OF d(6)] d'(6) p'(3) that by simp
  with pinv_not_prefix [OF p N(1,2)] N(3) have ne: "block_ID cr ?t \<noteq> block_ID cr (last ?M)" by metis
  have T0: "?T \<noteq> []"
  proof
    assume "?T = []"
    with T obtain t where t: "T = [t]" by (metis append_Nil)
    have "T ! 0 = N ! 0" by (rule branch_common_first [OF d(6) N(1)])
    then have "T = take 1 N" using branch_ne [OF N(1)] unfolding t by (cases N) auto
    with pinv_not_prefix [OF p N(1,2)] N(3) show False by blast
  qed
  have bT: "branch cr gid (p_blockStore p') (block_ID cr ?t) (?T @ [?t])" using d(6) T p'(3) by simp
  have M: "block_ID cr (last ?M) \<in> known (p_ledger p)" using pcore_tip_known [OF p'(1)] p'(4) by simp
  with p ne have "beats cr ?bs (block_ID cr ?t) (block_ID cr (last ?M))" unfolding pinv_def by metis
  moreover have "holds cr ?bs (block_ID cr (last ?M)) (last ?M)" "holds cr ?bs (block_ID cr ?t) ?t"
    using branch_last [OF d'(6)] branch_last [OF d(6)] p'(3) by auto
  ultimately obtain v w where vw: "bs_headers ?bs (block_ID cr ?t) = Some (Header ?t, v)" "bs_blocks ?bs (block_ID cr ?t) = Some ?t"
    "bs_headers (p_blockStore p') (block_ID cr (last ?M)) = Some (Header (last ?M), w)" "Compare cr (Header ?t) (Header (last ?M)) v w"
    using p'(3) by (auto simp: beats_def holds_def)
  have "branch cr gid ?bs (Previous (Header ?t)) ?T" using branch_snoc(1) [OF bT T0] p'(3) by simp
  then have "getHeader ?bs (Previous (Header ?t)) = Inr (Some (Header (last ?T)))"
    using branch_last h(3) by (fastforce simp: holds_def getHeader_Inr)
  then have rc: "reconnectTip cr (block_ID cr ?t) source p'
      = acceptBlockContinue cr (block_ID cr ?t) ?t v (Some (Header (last ?T))) source p'"
    using vw(1,2) h(3) by (simp add: reconnectTip_def p'(3) bs_GetBlock_def bs_GetBlockHeader_def)
  have kT: "ids_of cr ?T \<subseteq> known (p_ledger p')" using d(10) p'(4) by (auto dest: in_set_butlastD)
  have v: "chain_valid cr prune (?T @ [?t])" using reach_rels(1) [OF d(4)] T by simp
  have tk: "block_ID cr ?t \<in> known (p_ledger p)" by (rule pcore_tip_known [OF c])
  from continue_better [OF p'(1) bT T0 kT ne vw(3,4), of source] v obtain p'' where
    p'': "acceptBlockContinue cr (block_ID cr ?t) ?t v (Some (Header (last ?T))) source p' = Some (Inr (), p'')"
    "pcore cr gid prune T p''" "p_blockStore p'' = ?bs" "known (p_ledger p'') = known (p_ledger p)"
    "settled cr (p_ledger p'') (p_txQueue p'')"
    using T p'(3,4) insert_absorb [OF tk] by auto
  then have "pinv cr gid prune T p''" using p by (simp add: pinv_def)
  with rc p'' show ?thesis by auto
qed

section \<open>What the checks establish\<close>

lemma verify_fees: "verifyTransactions cr q h txs (i64 a) = Inr f \<Longrightarrow> f = i64 (a + sum_list (map tx_Fee txs))"
proof (induction txs arbitrary: a)
  case (Cons tx txs)
  then have "verifyTransactions cr q h txs (i64 (a + tx_Fee tx)) = Inr f"
    by (auto simp: result_simps i64_add_i64 split: if_splits)
  from Cons.IH [OF this] show ?case by (simp add: algebra_simps)
qed simp

lemma shape_fees:
  assumes "block_shape cr b"
  shows "sum_list (map tx_Fee (Transactions b)) = fees (Transactions b)"
proof -
  have "(if IsCoinbase tx then 0 else tx_Fee tx) = tx_Fee tx" if "tx \<in> set (Transactions b)" for tx
    using assms that by (auto simp: block_shape_def tx_ok_def)
  then have m: "map (\<lambda>tx. if IsCoinbase tx then 0 else tx_Fee tx) (Transactions b) = map tx_Fee (Transactions b)"
    by (intro map_cong refl)
  show ?thesis unfolding fees_def m ..
qed

lemma checkAccept_ok:
  assumes chk: "checkAccept cr i b (Some h) p = Inr (Some u)" and cb: "checkBlock cr i b now = Inr ()"
    and n: "Height h = int n - 1" "Height h \<le> MAX_NUMBER" and i: "i \<noteq> 0"
  shows "block_ok cr n b" "GetBigInt (ChainWork h) < GetBigInt (ChainWork (Header b))"
proof -
  have sh: "block_shape cr b" by (rule checkBlock_shape [OF cb])
  obtain c txs where t: "Transactions b = c # txs" using sh by (auto simp: block_shape_def)
  from chk obtain f where hh: "Height (Header b) = i64 (Height h + 1)"
    and wk: "computeChainWork (Target (Header b)) (ChainWork h) = Inr (ChainWork (Header b))"
    and f: "verifyTransactions cr (p_txQueue p) (Height (Header b)) (Transactions b) 0 = Inr f"
    and a: "tx_Amount (coinbaseOf b) = i64 (BlockCreationReward (Height (Header b)) + f)"
    unfolding checkAccept_def coinbaseOf_def t by (auto simp: result_simps split: if_splits)
  have nn: "Height (Header b) = int n" unfolding hh using n by (simp add: i64_small)
  have "f = i64 (sum_list (map tx_Fee (Transactions b)))"
    using verify_fees [of cr "p_txQueue p" "Height (Header b)" "Transactions b" 0 f] f by (simp add: i64_small)
  then have "tx_Amount (coinbaseOf b) = i64 (BlockCreationReward (int n) + fees (Transactions b))"
    unfolding a nn shape_fees [OF sh] using i64_add_i64 [of "fees (Transactions b)"] by (simp add: add.commute)
  with sh nn show "block_ok cr n b" by (simp add: block_ok_def)
  have "CheckPOW b i" using cb by (auto simp: checkBlock_def Let_def split: if_splits)
  with i have "Target (Header b) \<noteq> 0"
    using GetBigInt_bounds(1) [of i] GetBigInt_inject [of i 0] by (auto simp: CheckPOW_def GetBigInt_def)
  with chain_work_grows [OF wk] show "GetBigInt (ChainWork h) < GetBigInt (ChainWork (Header b))" .
qed

section \<open>Accepting a block\<close>

text \<open>Storing a block the ledger does not know yet.\<close>

lemma store_pinv:
  assumes p: "pinv cr gid prune T p" and i: "block_ID cr b \<notin> known (p_ledger p)"
  obtains bs where "bs_Store (block_ID cr b) b now (p_blockStore p) = (Inr (), bs)"
    "pinv cr gid prune T (p\<lparr>p_blockStore := bs\<rparr>)" "holds cr bs (block_ID cr b) b"
    "bs_headers bs (block_ID cr b) = Some (Header b, now)"
    "\<And>j bl. branch cr gid (p_blockStore p) j bl \<Longrightarrow> ids_of cr bl \<subseteq> known (p_ledger p) \<Longrightarrow> branch cr gid bs j bl"
    "\<And>j. j \<noteq> block_ID cr b \<Longrightarrow> bs_headers bs j = bs_headers (p_blockStore p) j"
proof -
  let ?i = "block_ID cr b" and ?b = "p_blockStore p"
  have c: "pcore cr gid prune T p" using p by (simp add: pinv_def)
  note d = pcore_parts [OF c]
  define bs where "bs = ?b\<lparr>bs_blocks := (bs_blocks ?b)(?i \<mapsto> b), bs_headers := (bs_headers ?b)(?i \<mapsto> (Header b, now))\<rparr>"
  have s: "bs_Store ?i b now ?b = (Inr (), bs)"
    using d(1) by (simp add: bs_Store_def healthy_def Let_def bs_def)
  have fr: "branch cr gid bs j bl" if "branch cr gid ?b j bl" "ids_of cr bl \<subseteq> known (p_ledger p)" for j bl
    by (rule branch_frame [OF that(1)]) (use that(2) i in \<open>auto simp: bs_def\<close>)
  have hd: "bs_headers bs j = bs_headers ?b j" if "j \<noteq> ?i" for j using that by (simp add: bs_def)
  have "healthy (p\<lparr>p_blockStore := bs\<rparr>)" using d(1) by (simp add: healthy_def no_faults_def bs_def)
  moreover have "\<exists>bl. branch cr gid bs j bl \<and> ids_of cr bl \<subseteq> known (p_ledger p)" if "j \<in> known (p_ledger p)" for j
    using d(8) [OF that] fr by blast
  ultimately have "pcore cr gid prune T (p\<lparr>p_blockStore := bs\<rparr>)"
    using d(2-5) d(7) fr [OF d(6,10)] by (simp add: pcore_def)
  moreover have "beats cr bs (block_ID cr (last T)) j" if "j \<in> known (p_ledger p)" "j \<noteq> block_ID cr (last T)" for j
  proof -
    have "beats cr ?b (block_ID cr (last T)) j" using p that by (simp add: pinv_def)
    moreover have "j \<noteq> ?i" "block_ID cr (last T) \<noteq> ?i" using i that(1) pcore_tip_known [OF c] by auto
    ultimately show ?thesis using hd by (simp add: beats_def)
  qed
  ultimately have "pinv cr gid prune T (p\<lparr>p_blockStore := bs\<rparr>)" using p by (simp add: pinv_def)
  from that [OF s this _ _ fr hd] show ?thesis by (simp add: holds_def bs_def)
qed

lemma accept_tail:
  assumes p: "pinv cr gid prune T p" and i: "i = block_ID cr b" "i \<notin> known (p_ledger p)"
    and b: "branch cr gid (p_blockStore p) i (N @ [b])" "N \<noteq> []" "ids_of cr N \<subseteq> known (p_ledger p)"
    and bw: "bs_headers (p_blockStore p) i = Some (Header b, now)"
    and w: "bs_headers (p_blockStore p) (block_ID cr (last T)) = Some (Header (last T), w)"
  shows "\<exists>r p'. acceptOrReconnect cr i b now (Some (Header (last N))) source (Some (block_ID cr (last T))) p = Some (r, p') \<and>
    (if Compare cr (Header b) (Header (last T)) now w
     then if chain_valid cr prune (N @ [b])
          then r = Inr () \<and> pinv cr gid prune (N @ [b]) p' \<and> known (p_ledger p') = insert i (known (p_ledger p))
          else (\<exists>e. r = Inl e \<and> (\<forall>m. e \<noteq> Panic m)) \<and> pinv cr gid prune T p' \<and> known (p_ledger p') = known (p_ledger p)
     else r = Inr () \<and> pinv cr gid prune T p' \<and> known (p_ledger p') = insert i (known (p_ledger p)))"
proof -
  let ?t = "block_ID cr (last T)"
  have c: "pcore cr gid prune T p" using p by (simp add: pinv_def)
  note d = pcore_parts [OF c] and h = healthy_parts [OF pcore_parts(1) [OF c]]
  have ne: "i \<noteq> ?t" using i(2) pcore_tip_known [OF c] by blast
  have best: "beats cr (p_blockStore p) ?t j" if "j \<in> known (p_ledger p)" "j \<noteq> ?t" for j
    using p that by (simp add: pinv_def)
  have bN: "branch cr gid (p_blockStore p) (Previous (Header b)) N" by (rule branch_snoc(1) [OF b(1,2)])
  have Nk: "Previous (Header b) \<in> known (p_ledger p)" using branch_id [OF bN] b(3) by blast
  consider (better) "Compare cr (Header b) (Header (last T)) now w" "chain_valid cr prune (N @ [b])"
    | (invalid) "Compare cr (Header b) (Header (last T)) now w" "\<not> chain_valid cr prune (N @ [b])"
    | (worse) "\<not> Compare cr (Header b) (Header (last T)) now w" by blast
  then show ?thesis
  proof cases
    case better
    from continue_better [OF c b(1) [unfolded i(1)] b(2,3) ne [unfolded i(1)] w better(1), of source] better(2) obtain p' where
      p': "acceptBlockContinue cr i b now (Some (Header (last N))) source p = Some (Inr (), p')"
      "pcore cr gid prune (N @ [b]) p'" "p_blockStore p' = p_blockStore p"
      "known (p_ledger p') = insert i (known (p_ledger p))" "settled cr (p_ledger p') (p_txQueue p')"
      unfolding i(1) [symmetric] by auto
    have bt: "beats cr (p_blockStore p) i ?t" using bw w better(1) by (auto simp: beats_def)
    have "beats cr (p_blockStore p) i j" if "j \<in> known (p_ledger p)" for j
      using best [OF that] bt beats_trans [OF bt] by (cases "j = ?t") auto
    with p' have "pinv cr gid prune (N @ [b]) p'" by (auto simp: pinv_def i(1))
    with p' better show ?thesis by (simp add: acceptOrReconnect_def)
  next
    case invalid
    from continue_better [OF c b(1) [unfolded i(1)] b(2,3) ne [unfolded i(1)] w invalid(1), of source] invalid(2)
    obtain e p' m where p': "acceptBlockContinue cr i b now (Some (Header (last N))) source p = Some (Inl e, p')"
      "\<forall>m. e \<noteq> Panic m" "pcore cr gid prune (take m N) p'" "0 < m" "p_blockStore p' = p_blockStore p"
      "known (p_ledger p') = known (p_ledger p)" "T = N \<longrightarrow> p' = p"
      unfolding i(1) [symmetric] by auto
    obtain p'' where p'': "reconnectTip cr ?t source p' = Some (Inr (), p'')" "pinv cr gid prune T p''"
      "known (p_ledger p'') = known (p_ledger p)"
    proof (cases "T = N")
      case True
      obtain w' where t: "getChainTipHeader (p_ledger p) (p_blockStore p) = Inr (Some (?t, Some (Header (last T)), w'))"
        by (rule pcore_tip [OF c])
      have "bs_blocks (p_blockStore p) ?t = Some (last T)" using branch_last [OF d(6)] by (simp add: holds_def)
      then have "reconnectTip cr ?t source p = Some (Inr (), p)"
        using h(3) w by (simp add: reconnectTip_def bs_GetBlock_def bs_GetBlockHeader_def getHeader_def acceptBlockContinue_def t)
      with True p'(7) p that show ?thesis by blast
    next
      case False
      from reconnect_restores [OF p bN Nk False b(3) p'(3-6)] that show ?thesis by blast
    qed
    have "acceptOrReconnect cr i b now (Some (Header (last N))) source (Some ?t) p = Some (Inl e, p'')"
      using p'(1,2) p''(1) by (cases e) (auto simp: acceptOrReconnect_def)
    with invalid p'(2) p''(2,3) show ?thesis by auto
  next
    case worse
    obtain w' where t: "getChainTipHeader (p_ledger p) (p_blockStore p) = Inr (Some (?t, Some (Header (last T)), w'))"
      "bs_headers (p_blockStore p) ?t = Some (Header (last T), w')"
      by (rule pcore_tip [OF c])
    have w': "w' = w" using t(2) w by simp
    have it: "i \<notin> ids_of cr T" using i(2) d(10) by blast
    have ib: "ids_of cr (N @ [b]) \<subseteq> insert i (known (p_ledger p))" using b(3) i(1) by auto
    obtain l where l: "SetBranchType i SIDE (p_ledger p) = (Inr (), l)" "pcore cr gid prune T (p\<lparr>p_ledger := l\<rparr>)"
      "known l = insert i (known (p_ledger p))" "bal l = bal (p_ledger p)"
      using side_ok [OF c it b(1) ib] by blast
    have "Compare cr (Header (last T)) (Header b) w now"
      using worse ne i(1) by (intro Compare_total) (auto simp: block_ID_def)
    then have "beats cr (p_blockStore p) ?t i" using bw w by (auto simp: beats_def)
    with best l p have "pinv cr gid prune T (p\<lparr>p_ledger := l\<rparr>)"
      by (auto simp: pinv_def settled_cong [OF l(4)])
    moreover have "acceptOrReconnect cr i b now (Some (Header (last N))) source (Some ?t) p = Some (Inr (), p\<lparr>p_ledger := l\<rparr>)"
      using worse ne l(1) w' by (simp add: acceptOrReconnect_def acceptBlockContinue_def t(1))
    ultimately show ?thesis using worse l(3) by simp
  qed
qed

lemma checkAccept_known: "checkAccept cr i b h p = Inr None \<Longrightarrow> GetBranchType (p_ledger p) i \<noteq> Inr UNKNOWN"
  by (cases "Transactions b") (auto simp: checkAccept_def result_simps split: if_splits option.splits)

lemma acceptBlock_accepted:
  assumes p: "pinv cr gid prune T p" and i: "i = block_ID cr b" "i \<notin> known (p_ledger p)" "i \<noteq> 0"
    and N: "branch cr gid (p_blockStore p) (Previous (Header b)) N" "ids_of cr N \<subseteq> known (p_ledger p)"
    and cb: "checkBlock cr i b now = Inr ()"
    and ca: "checkAccept cr i b (Some (Header (last N))) p = Inr (Some ())"
  shows "\<exists>r p' w. acceptBlock cr i b now source p = Some (r, p') \<and> block_ok cr (length N) b
       \<and> GetBigInt (ChainWork (Header (last N))) < GetBigInt (ChainWork (Header b))
       \<and> bs_headers (p_blockStore p) (block_ID cr (last T)) = Some (Header (last T), w)
       \<and> (if Compare cr (Header b) (Header (last T)) now w
          then if chain_valid cr prune (N @ [b])
               then r = Inr () \<and> pinv cr gid prune (N @ [b]) p' \<and> known (p_ledger p') = insert i (known (p_ledger p))
               else (\<exists>e. r = Inl e \<and> (\<forall>m. e \<noteq> Panic m)) \<and> pinv cr gid prune T p' \<and> known (p_ledger p') = known (p_ledger p)
          else r = Inr () \<and> pinv cr gid prune T p' \<and> known (p_ledger p') = insert i (known (p_ledger p)))"
proof -
  have c: "pcore cr gid prune T p" using p by (simp add: pinv_def)
  note d = pcore_parts [OF c] and h = healthy_parts [OF pcore_parts(1) [OF c]]
  have gh: "getHeader (p_blockStore p) (Previous (Header b)) = Inr (Some (Header (last N)))"
    using branch_last [OF N(1)] h(3) by (auto simp: holds_def getHeader_Inr)
  have hN: "Height (Header (last N)) = int (length N) - 1" by (rule branch_top [OF N(1)])
  have hM: "Height (Header (last N)) \<le> MAX_NUMBER"
    using branch_block_ok [OF N(1), of "length N - 1"] branch_ne [OF N(1)] by (simp add: block_ok_def block_shape_def last_conv_nth)
  note ok = checkAccept_ok [OF ca cb hN hM i(3)]
  obtain bs where bs: "bs_Store (block_ID cr b) b now (p_blockStore p) = (Inr (), bs)"
    "pinv cr gid prune T (p\<lparr>p_blockStore := bs\<rparr>)" "holds cr bs (block_ID cr b) b"
    "bs_headers bs (block_ID cr b) = Some (Header b, now)"
    "\<And>j bl. branch cr gid (p_blockStore p) j bl \<Longrightarrow> ids_of cr bl \<subseteq> known (p_ledger p) \<Longrightarrow> branch cr gid bs j bl"
    "\<And>j. j \<noteq> block_ID cr b \<Longrightarrow> bs_headers bs j = bs_headers (p_blockStore p) j"
    using store_pinv [OF p, of b now] i by blast
  let ?p = "p\<lparr>p_blockStore := bs\<rparr>"
  obtain w where w: "GetChainTip (p_ledger p) = Inr (Some (block_ID cr (last T), int (length T) - 1))"
    "bs_headers (p_blockStore p) (block_ID cr (last T)) = Some (Header (last T), w)"
    by (rule pcore_tip [OF c])
  have gid: "gid \<in> known (p_ledger p)"
    using branch_id [OF branch_first [OF d(6)]] d(5,10) by (cases T) auto
  have "branch cr gid bs i (N @ [b])"
    using branch.grow [OF bs(5) [OF N] bs(3) _ ok(1)] ok(2) gid i(1,2) by auto
  then have bN: "branch cr gid (p_blockStore ?p) i (N @ [b])" by simp
  have "block_ID cr (last T) \<noteq> block_ID cr b" using pcore_tip_known [OF c] i(1,2) by auto
  then have w': "bs_headers (p_blockStore ?p) (block_ID cr (last T)) = Some (Header (last T), w)" using bs(6) w(2) by simp
  have bw: "bs_headers (p_blockStore ?p) i = Some (Header b, now)" using bs(4) i(1) by simp
  have k: "i \<notin> known (p_ledger ?p)" "ids_of cr N \<subseteq> known (p_ledger ?p)" using i(2) N(2) by simp_all
  have "acceptBlock cr i b now source p = acceptOrReconnect cr i b now (Some (Header (last N))) source (Some (block_ID cr (last T))) ?p"
    unfolding acceptBlock_def gh sum.case ca option.case bs(1) [folded i(1)] prod.case w(1) by simp
  with accept_tail [OF bs(2) i(1) k(1) bN branch_ne [OF N(1)] k(2) bw w', of source] ok w(2) show ?thesis
    by (auto split: if_splits)
qed

lemma acceptBlock_outcome:
  assumes p: "pinv cr gid prune T p" and i: "i = block_ID cr b" "i \<notin> known (p_ledger p)" "i \<noteq> 0"
    and prev: "Previous (Header b) \<in> known (p_ledger p)" and cb: "checkBlock cr i b now = Inr ()"
  shows "\<exists>r p'. acceptBlock cr i b now source p = Some (r, p') \<and>
    ((\<exists>e. r = Inl e \<and> p' = p) \<or>
     (\<exists>N w. branch cr gid (p_blockStore p) (Previous (Header b)) N \<and> ids_of cr N \<subseteq> known (p_ledger p)
       \<and> block_ok cr (length N) b
       \<and> bs_headers (p_blockStore p) (block_ID cr (last T)) = Some (Header (last T), w)
       \<and> (if Compare cr (Header b) (Header (last T)) now w
          then if chain_valid cr prune (N @ [b])
               then r = Inr () \<and> pinv cr gid prune (N @ [b]) p' \<and> known (p_ledger p') = insert i (known (p_ledger p))
               else (\<exists>e. r = Inl e \<and> (\<forall>m. e \<noteq> Panic m)) \<and> pinv cr gid prune T p' \<and> known (p_ledger p') = known (p_ledger p)
          else r = Inr () \<and> pinv cr gid prune T p' \<and> known (p_ledger p') = insert i (known (p_ledger p)))))"
proof -
  have c: "pcore cr gid prune T p" using p by (simp add: pinv_def)
  note d = pcore_parts [OF c] and h = healthy_parts [OF pcore_parts(1) [OF c]]
  obtain N where N: "branch cr gid (p_blockStore p) (Previous (Header b)) N" "ids_of cr N \<subseteq> known (p_ledger p)"
    using d(8) [OF prev] by blast
  have gh: "getHeader (p_blockStore p) (Previous (Header b)) = Inr (Some (Header (last N)))"
    using branch_last [OF N(1)] h(3) by (auto simp: holds_def getHeader_Inr)
  show ?thesis
  proof (cases "checkAccept cr i b (Some (Header (last N))) p")
    case (Inl e)
    then show ?thesis by (simp add: acceptBlock_def gh)
  next
    case (Inr ro)
    have bt: "GetBranchType (p_ledger p) i = Inr UNKNOWN"
      using i(2) h(4) by (simp add: GetBranchType_def db_Get_def known_def branchByte_def db_at_def)
    have "ro \<noteq> None" using Inr bt checkAccept_known by metis
    then have ca: "checkAccept cr i b (Some (Header (last N))) p = Inr (Some ())" using Inr by auto
    from acceptBlock_accepted [OF p i N cb ca, of source] N show ?thesis by blast
  qed
qed

end
