(* ===== verification/Processor_Props.thy ===== *)
theory Processor_Props
  imports Consensus
begin

text \<open>
  The processor as a transition system over its turns, and its properties. The blocks submitted carry their
  own identifier, none hashes to zero, and a block with the identifier of the genesis block is one
  that pays the first reward.
\<close>

section \<open>Candidate transactions\<close>

lemma pcore_cong:
  assumes "p_genesisID p' = p_genesisID p" "p_blockStore p' = p_blockStore p" "p_ledger p' = p_ledger p" "p_txQueue p' = p_txQueue p"
  shows "pcore cr gid prune chain p' = pcore cr gid prune chain p"
  using assms by (simp add: pcore_def healthy_def)

lemma pinv_cong:
  assumes "p_genesisID p' = p_genesisID p" "p_blockStore p' = p_blockStore p" "p_ledger p' = p_ledger p" "p_txQueue p' = p_txQueue p"
  shows "pinv cr gid prune chain p' = pinv cr gid prune chain p"
  using assms pcore_cong [OF assms] by (simp add: pinv_def)

lemma pinv_queue:
  assumes "pinv cr gid prune chain p" "settled cr (p_ledger p) q" "p_genesisID p' = p_genesisID p"
    "p_blockStore p' = p_blockStore p" "p_ledger p' = p_ledger p" "p_txQueue p' = q"
  shows "pinv cr gid prune chain p'"
  using assms by (auto simp: pinv_def pcore_def healthy_def queue_ok_def settled_def)

lemma checkCandidate_ok:
  assumes "checkCandidate cr i tx p = Inr u"
  shows "queueable tx" "checkTransaction tx = Inr ()" "Verify cr tx = Inr True" "tq_Len (p_txQueue p) < MAX_TRANSACTION_QUEUE_LENGTH"
    "\<exists>k. GetTransactionIndex (p_ledger p) i = Inr (None, k)"
    "\<exists>t h. GetChainTip (p_ledger p) = Inr (Some (t, h)) \<and> stillValid h tx"
  using assms checkTransaction_tx_ok [of tx]
  by (auto simp: checkCandidate_def result_simps queueable_def stillValid_def split: if_splits option.splits)

lemma processTransaction_cases:
  assumes p: "pinv cr gid prune chain p" and r: "processTransaction cr (tx_ID cr tx) tx source p = (r, p')"
  shows "pinv cr gid prune chain p'"
    and "tq_txs (p_txQueue p') = tq_txs (p_txQueue p)
      \<or> r = Inr () \<and> tq_txs (p_txQueue p') = tq_txs (p_txQueue p) @ [tx]
        \<and> tx_ID cr tx \<notin> tx_ID cr ` set (tq_txs (p_txQueue p))
        \<and> canPay minQueueBalance (transfers (tq_txs (p_txQueue p)) (bal (p_ledger p))) tx
        \<and> checkCandidate cr (tx_ID cr tx) tx p = Inr ()"
proof -
  have c: "pcore cr gid prune chain p" and s: "settled cr (p_ledger p) (p_txQueue p)" using p by (auto simp: pinv_def)
  note d = pcore_parts [OF c] and h = healthy_parts [OF pcore_parts(1) [OF c]]
  have "pinv cr gid prune chain p' \<and> (tq_txs (p_txQueue p') = tq_txs (p_txQueue p)
      \<or> r = Inr () \<and> tq_txs (p_txQueue p') = tq_txs (p_txQueue p) @ [tx]
        \<and> tx_ID cr tx \<notin> tx_ID cr ` set (tq_txs (p_txQueue p))
        \<and> canPay minQueueBalance (transfers (tq_txs (p_txQueue p)) (bal (p_ledger p))) tx
        \<and> checkCandidate cr (tx_ID cr tx) tx p = Inr ())"
  proof (cases "checkCandidate cr (tx_ID cr tx) tx p")
    case (Inl e)
    with r p show ?thesis by (auto simp: processTransaction_def)
  next
    case (Inr u)
    obtain ra q where a: "tq_Add (GetPublicKeyBalance (p_ledger p)) (tx_ID cr tx) tx (p_txQueue p) = (ra, q)" by force
    note ad = add_settled [OF s reach_supply [OF d(4)] h(2) checkCandidate_ok(1) [OF Inr] a]
    have "settled cr (p_ledger p) q" using ad by blast
    then have "pinv cr gid prune chain p'"
      by (rule pinv_queue [OF p]) (use r a Inr in \<open>auto simp: processTransaction_def notifyNewTx_def split: sum.splits bool.splits\<close>)
    moreover have "p_txQueue p' = q \<and> (ra = Inr True \<longrightarrow> r = Inr ())"
      using r a Inr by (auto simp: processTransaction_def notifyNewTx_def split: sum.splits bool.splits)
    ultimately show ?thesis using ad Inr by (auto split: if_splits)
  qed
  then show "pinv cr gid prune chain p'" "tq_txs (p_txQueue p') = tq_txs (p_txQueue p)
      \<or> r = Inr () \<and> tq_txs (p_txQueue p') = tq_txs (p_txQueue p) @ [tx]
        \<and> tx_ID cr tx \<notin> tx_ID cr ` set (tq_txs (p_txQueue p))
        \<and> canPay minQueueBalance (transfers (tq_txs (p_txQueue p)) (bal (p_ledger p))) tx
        \<and> checkCandidate cr (tx_ID cr tx) tx p = Inr ()" by blast+
qed

section \<open>Blocks\<close>

lemma branch_type_known:
  assumes "pcore cr gid prune chain p"
  shows "GetBranchType (p_ledger p) i = Inr UNKNOWN \<longleftrightarrow> i \<notin> known (p_ledger p)"
    "i \<in> known (p_ledger p) \<Longrightarrow> GetBranchType (p_ledger p) i = Inr MAIN \<or> GetBranchType (p_ledger p) i = Inr SIDE"
    "\<exists>t. GetBranchType (p_ledger p) i = Inr t"
  using pcore_parts(7) [OF assms, of i] healthy_parts(4) [OF pcore_parts(1) [OF assms]]
  by (auto simp: GetBranchType_def db_Get_def known_def branchByte_def db_at_def)

lemma processBlock_pinv:
  assumes p: "pinv cr gid prune T p" and i: "i = block_ID cr b" "i \<noteq> 0"
  shows "\<exists>r p'. processBlock cr i b now source p = Some (r, p') \<and>
    ((i \<in> known (p_ledger p) \<and> r = Inr () \<and> p' = p) \<or> (i \<notin> known (p_ledger p) \<and> (\<exists>e. r = Inl e) \<and> p' = p) \<or>
     (i \<notin> known (p_ledger p) \<and> checkBlock cr i b now = Inr () \<and>
      (\<exists>N w. branch cr gid (p_blockStore p) (Previous (Header b)) N \<and> ids_of cr N \<subseteq> known (p_ledger p)
       \<and> block_ok cr (length N) b
       \<and> bs_headers (p_blockStore p) (block_ID cr (last T)) = Some (Header (last T), w)
       \<and> (if Compare cr (Header b) (Header (last T)) now w
          then if chain_valid cr prune (N @ [b])
               then r = Inr () \<and> pinv cr gid prune (N @ [b]) p' \<and> known (p_ledger p') = insert i (known (p_ledger p))
               else (\<exists>e. r = Inl e \<and> (\<forall>m. e \<noteq> Panic m)) \<and> pinv cr gid prune T p' \<and> known (p_ledger p') = known (p_ledger p)
          else r = Inr () \<and> pinv cr gid prune T p' \<and> known (p_ledger p') = insert i (known (p_ledger p))))))"
proof -
  have c: "pcore cr gid prune T p" using p by (simp add: pinv_def)
  note d = pcore_parts [OF c] and bt = branch_type_known [OF c]
  show ?thesis
  proof (cases "i \<in> known (p_ledger p)")
    case True
    with bt(2) [OF True] show ?thesis by (auto simp: processBlock_def)
  next
    case False
    then have u: "GetBranchType (p_ledger p) i = Inr UNKNOWN" using bt(1) by simp
    show ?thesis
    proof (cases "checkBlock cr i b now")
      case (Inl e)
      with u False show ?thesis by (simp add: processBlock_def)
    next
      case (Inr v)
      then have cb: "checkBlock cr i b now = Inr ()" by simp
      show ?thesis
      proof (cases "Previous (Header b) \<in> known (p_ledger p)")
        case True
        have "processBlock cr i b now source p = acceptBlock cr i b now source p"
          using u cb bt(2) [OF True] by (auto simp: processBlock_def)
        with acceptBlock_outcome [OF p i(1) False i(2) True cb, of source] False cb show ?thesis by auto
      next
        case np: False
        have "gid \<in> known (p_ledger p)" using branch_id [OF branch_first [OF d(6)]] d(5,10) by (cases T) auto
        with False d(2) have "i \<noteq> p_genesisID p" by auto
        with u cb bt(1) [of "Previous (Header b)"] np False show ?thesis by (simp add: processBlock_def)
      qed
    qed
  qed
qed

definition pfresh :: "crypto \<Rightarrow> block_id \<Rightarrow> bool \<Rightarrow> processor \<Rightarrow> bool" where
  "pfresh cr gid prune p \<longleftrightarrow> healthy p \<and> p_genesisID p = gid \<and> settled cr (p_ledger p) (p_txQueue p)
     \<and> reach cr prune [] (p_ledger p) \<and> known (p_ledger p) = {}"

lemma genesis_connect:
  assumes p: "pfresh cr gid prune p" and b: "branch cr gid (p_blockStore p) (block_ID cr b) [b]"
    and v: "chain_valid cr prune [b]"
  shows "\<exists>p'. connectBlock cr (block_ID cr b) b source False p = (Inr (), p') \<and> pinv cr gid prune [b] p'
    \<and> known (p_ledger p') = {block_ID cr b} \<and> p_blockStore p' = p_blockStore p
    \<and> (tq_txs (p_txQueue p) = [] \<longrightarrow> tq_txs (p_txQueue p') = [])"
proof -
  let ?l = "p_ledger p" and ?bs = "p_blockStore p" and ?i = "block_ID cr b"
  have f: "healthy p" "p_genesisID p = gid" "settled cr ?l (p_txQueue p)" "reach cr prune [] ?l" "known ?l = {}"
    using p by (auto simp: pfresh_def)
  note h = healthy_parts [OF f(1)]
  have inv: "chain_valid cr (l_prune ?l) []" "ledger_rel cr [] ?l" "l_prune ?l = prune" using reach_inv [OF f(4)] by auto
  have st: "stored cr ?bs []" by (simp add: stored_def)
  have ok: "block_ok cr (length []) b" using branch_block_ok [OF b, of 0] by simp
  obtain l where l: "ConnectBlock cr ?bs ?i b ?l = (Inr (map (tx_ID cr) (Transactions b)), l)"
    using connect_succeeds [OF inv(1,2) st ok h(1)] chain_valid_conditions [of cr prune "[]" b] v inv(3) by auto
  note ref = connect_refines(4,6) [OF inv(1,2) st ok l]
  have r: "reach cr prune [b] l" using reach.connect [OF f(4) st ok l] by simp
  have bal: "supply_table (bal l)" "readable l"
    using reach_supply [OF r] h(2) ref(1) by (auto simp: readable_def same_faults_def)
  have "branchByte l ?i = Some [0]" using reach_rels(8) [OF r] by (auto simp: branch_rel_def branchByte_def)
  moreover have "branchByte l j = None" if "j \<noteq> ?i" for j
    using ref(2) [OF that] f(5) by (auto simp: branchByte_def known_def)
  ultimately have bb: "branchByte l j = (if j = ?i then Some [0] else None)" for j by simp
  have sh: "block_shape cr b" using ok by (simp add: block_ok_def)
  from f(3) have qo: "tq_inv cr (p_txQueue p)" "\<forall>tx \<in> set (tq_txs (p_txQueue p)). queueable tx"
      "minBalance (balanceCache (p_txQueue p)) = minQueueBalance" unfolding settled_def by blast+
  obtain q where q: "tq_RemoveBatch cr (GetPublicKeyBalance l) (map (tx_ID cr) (tl (Transactions b))) (Height (Header b))
      False (p_txQueue p) = (Inr (), q)" "settled cr l q" "tq_txs (p_txQueue p) = [] \<longrightarrow> tq_txs q = []"
    using reprocess_settles [OF qo bal, of "map (tx_ID cr) (tl (Transactions b))" "Height (Header b)"] by force
  define p' where "p' = notifyTipChange \<lparr>tc_BlockID = ?i, tc_Block = b, tc_Source = source,
      tc_Connect = True, tc_More = False\<rparr> (p\<lparr>p_ledger := l, p_txQueue := q\<rparr>)"
  have p': "p_ledger p' = l" "p_txQueue p' = q" "p_blockStore p' = ?bs" "p_genesisID p' = gid"
    using f(2) by (simp_all add: p'_def notifyTipChange_def)
  have "connectBlock cr ?i b source False p = (Inr (), p')"
    using shape_tail(1) [OF sh] q(1) unfolding connectBlock_def l p'_def
    by (simp add: sliceTail_def map_tl [symmetric])
  moreover have "healthy p'" using f(1) ref(1) unfolding healthy_def no_faults_def same_faults_def p' by simp
  then have "pcore cr gid prune [b] p'"
    using r b bb q(2) by (auto simp: pcore_def p' known_def queue_ok_def settled_def)
  moreover have "known l = {?i}" using bb by (auto simp: known_def)
  ultimately show ?thesis using q(2,3) by (intro exI [of _ p']) (simp add: pinv_def p')
qed

lemma pfresh_types:
  assumes "pfresh cr gid prune p"
  shows "GetBranchType (p_ledger p) i = Inr UNKNOWN" "GetChainTip (p_ledger p) = Inr None"
proof -
  have f: "healthy p" "reach cr prune [] (p_ledger p)" "known (p_ledger p) = {}" using assms by (auto simp: pfresh_def)
  from f(3) healthy_parts(4) [OF f(1)] show "GetBranchType (p_ledger p) i = Inr UNKNOWN"
    by (auto simp: GetBranchType_def db_Get_def known_def branchByte_def db_at_def)
  from reach_rels(3) [OF f(2)] healthy_parts(4) [OF f(1)] show "GetChainTip (p_ledger p) = Inr None"
    by (simp add: GetChainTip_def db_Get_def tip_rel_def db_at_def result_simps)
qed

lemma processBlock_fresh:
  assumes p: "pfresh cr gid prune p" and i: "i = block_ID cr b"
    and g: "i = gid \<Longrightarrow> block_ok cr 0 b \<and> chain_valid cr prune [b]"
  shows "\<exists>r p'. processBlock cr i b now source p = Some (r, p') \<and>
    (if i = gid \<and> checkBlock cr i b now = Inr ()
     then r = Inr () \<and> pinv cr gid prune [b] p' \<and> known (p_ledger p') = {i}
       \<and> p_blockStore p' = snd (bs_Store i b now (p_blockStore p)) \<and> (tq_txs (p_txQueue p) = [] \<longrightarrow> tq_txs (p_txQueue p') = [])
     else (\<exists>e. r = Inl e) \<and> p' = p)"
proof -
  note t = pfresh_types [OF p]
  have f: "healthy p" "p_genesisID p = gid" using p by (auto simp: pfresh_def)
  show ?thesis
  proof (cases "i = gid \<and> checkBlock cr i b now = Inr ()")
    case True
    define bs where "bs = (p_blockStore p)\<lparr>bs_blocks := (bs_blocks (p_blockStore p))(i \<mapsto> b),
        bs_headers := (bs_headers (p_blockStore p))(i \<mapsto> (Header b, now))\<rparr>"
    let ?p = "p\<lparr>p_blockStore := bs\<rparr>"
    have s: "bs_Store i b now (p_blockStore p) = (Inr (), bs)"
      using f(1) by (simp add: bs_Store_def healthy_def Let_def bs_def)
    have ok: "block_ok cr 0 b" "chain_valid cr prune [b]" using g True by auto
    have "pfresh cr gid prune ?p" using p by (simp add: pfresh_def healthy_def no_faults_def bs_def)
    moreover have "holds cr bs gid b" using True i by (simp add: holds_def bs_def)
    from branch.root [OF this ok(1)] have "branch cr gid (p_blockStore ?p) (block_ID cr b) [b]" using True i by simp
    ultimately obtain p' where "connectBlock cr i b source False ?p = (Inr (), p')" "pinv cr gid prune [b] p'"
      "known (p_ledger p') = {i}" "p_blockStore p' = bs" "tq_txs (p_txQueue p) = [] \<longrightarrow> tq_txs (p_txQueue p') = []"
      using genesis_connect [of cr gid prune ?p b source] ok(2) i by auto
    moreover from True have "i = gid" "checkBlock cr gid b now = Inr ()" by auto
    ultimately show ?thesis using t(1) f(2) s by (simp add: processBlock_def)
  next
    case False
    then show ?thesis
      by (cases "checkBlock cr i b now") (auto simp: processBlock_def t(1) f(2))
  qed
qed

lemma processTransaction_fresh:
  "pfresh cr gid prune p \<Longrightarrow> \<exists>e. processTransaction cr i tx source p = (Inl e, p)"
  using pfresh_types(2) [of cr gid prune p]
  by (cases "checkCandidate cr i tx p") (auto simp: processTransaction_def dest: checkCandidate_ok(6))

section \<open>The loop\<close>

definition submitted :: "crypto \<Rightarrow> block_id \<Rightarrow> bool \<Rightarrow> event \<Rightarrow> bool" where
  "submitted cr gid prune ev \<longleftrightarrow> (case ev of
     TxToProcess i tx _ \<Rightarrow> i = tx_ID cr tx
   | BlockToProcess i b _ \<Rightarrow> i = block_ID cr b \<and> i \<noteq> 0 \<and> (i = gid \<longrightarrow> block_ok cr 0 b \<and> chain_valid cr prune [b])
   | _ \<Rightarrow> True)"

inductive turns :: "crypto \<Rightarrow> block_id \<Rightarrow> bool \<Rightarrow> processor \<Rightarrow> processor \<Rightarrow> bool" for cr gid prune p where
  start: "turns cr gid prune p p"
| turn: "turns cr gid prune p p' \<Longrightarrow> submitted cr gid prune ev \<Longrightarrow> run_turn cr now ev p' = Some (r, p'') \<Longrightarrow>
    turns cr gid prune p p''"

definition running :: "crypto \<Rightarrow> block_id \<Rightarrow> bool \<Rightarrow> processor \<Rightarrow> bool" where
  "running cr gid prune p \<longleftrightarrow> pfresh cr gid prune p \<or> (\<exists>chain. pinv cr gid prune chain p)"

lemma running_cong:
  assumes "p_genesisID p' = p_genesisID p" "p_blockStore p' = p_blockStore p" "p_ledger p' = p_ledger p" "p_txQueue p' = p_txQueue p"
  shows "running cr gid prune p' = running cr gid prune p"
  using assms pinv_cong [OF assms] by (simp add: running_def pfresh_def healthy_def)

lemma run_turn_running:
  assumes p: "running cr gid prune p" and ev: "submitted cr gid prune ev"
  shows "\<exists>r p'. run_turn cr now ev p = Some (r, p') \<and> running cr gid prune p'"
proof (cases ev)
  case (TxToProcess i tx s)
  obtain r p' where r: "processTransaction cr i tx s p = (r, p')" by force
  have i: "i = tx_ID cr tx" using ev TxToProcess by (simp add: submitted_def)
  have "running cr gid prune p'"
    using p unfolding running_def
  proof (elim disjE exE)
    assume f: "pfresh cr gid prune p"
    with processTransaction_fresh [OF f, of i tx s] r show "pfresh cr gid prune p' \<or> (\<exists>chain. pinv cr gid prune chain p')" by auto
  qed (use processTransaction_cases(1) r i in blast)
  with TxToProcess r show ?thesis by (simp add: run_turn_def)
next
  case (BlockToProcess i b s)
  have b: "i = block_ID cr b" "i \<noteq> 0" "i = gid \<Longrightarrow> block_ok cr 0 b \<and> chain_valid cr prune [b]"
    using ev BlockToProcess by (auto simp: submitted_def)
  have "\<exists>r p'. processBlock cr i b now s p = Some (r, p') \<and> running cr gid prune p'"
    using p unfolding running_def
  proof (elim disjE exE)
    assume f: "pfresh cr gid prune p"
    from processBlock_fresh [OF f b(1,3), of now s] f
    show "\<exists>r p'. processBlock cr i b now s p = Some (r, p') \<and> (pfresh cr gid prune p' \<or> (\<exists>chain. pinv cr gid prune chain p'))"
      by (auto split: if_splits)
  next
    fix chain
    assume f: "pinv cr gid prune chain p"
    from processBlock_pinv [OF f b(1,2), of now s] f
    show "\<exists>r p'. processBlock cr i b now s p = Some (r, p') \<and> (pfresh cr gid prune p' \<or> (\<exists>chain. pinv cr gid prune chain p'))"
      by (auto split: if_splits)
  qed
  with BlockToProcess show ?thesis by (simp add: run_turn_def)
qed (simp_all add: run_turn_def running_cong [of _ p] p)

lemma turns_running:
  assumes "turns cr gid prune p p'" "pfresh cr gid prune p"
  shows "running cr gid prune p'"
  using assms(1)
proof induction
  case start
  then show ?case using assms(2) by (simp add: running_def)
next
  case (turn p' ev now r p'')
  with run_turn_running [OF turn.IH turn.hyps(2), of now] show ?case by auto
qed

section \<open>A node that starts empty\<close>

definition startable :: "bool \<Rightarrow> block_store \<Rightarrow> ledger \<Rightarrow> bool" where
  "startable prune bs l \<longleftrightarrow> entries (l_db l) = [] \<and> l_prune l = prune \<and> no_faults bs l \<and> \<not> iterFault (l_db l)
     \<and> \<not> bs_readOnly bs \<and> \<not> bs_writeBlockFault bs \<and> \<not> bs_writeHeaderFault bs"

lemma startable_fresh:
  assumes "startable prune bs l"
  shows "pfresh cr gid prune (NewProcessor gid bs NewTransactionQueueMemory l)"
proof -
  have "reach cr prune [] l" by (rule reach.init) (use assms in \<open>auto simp: startable_def\<close>)
  moreover have "settled cr l NewTransactionQueueMemory"
    using settled_new assms by (simp add: startable_def)
  moreover have "known l = {}" using assms by (simp add: startable_def known_def branchByte_def db_at_def)
  ultimately show ?thesis using assms by (simp add: pfresh_def NewProcessor_def healthy_def startable_def)
qed

lemma running_tip:
  assumes "running cr gid prune p"
  shows "GetChainTip (p_ledger p) = Inr None \<and> known (p_ledger p) = {} \<or> (\<exists>chain. pinv cr gid prune chain p)"
  using assms pfresh_types(2) by (auto simp: running_def pfresh_def)

text \<open>The first block of a chain, and one that extends it.\<close>

definition sample_first :: block where
  "sample_first = sample_genesis\<lparr>Header := (Header sample_genesis)\<lparr>HashListRoot := 64, Target := 1000\<rparr>\<rparr>"

definition sample_next :: block where
  "sample_next = sample_second\<lparr>Header := (Header sample_second)\<lparr>Previous := 371, HashListRoot := 64, Target := 1000,
     ChainWork := 2\<rparr>\<rparr>"

definition sample_node :: processor where
  "sample_node = NewProcessor 371 (sample_store\<lparr>bs_blocks := Map.empty\<rparr>) NewTransactionQueueMemory sample_ledger"

lemma sample_startable: "startable True (sample_store\<lparr>bs_blocks := Map.empty\<rparr>) sample_ledger"
  by (simp add: startable_def sample_store_def sample_ledger_def no_faults_def)

lemma sample_first_id: "block_ID sample_crypto sample_first = 371" "block_ID sample_crypto sample_next = 372"
  by (simp_all add: sample_crypto_def itoa_small sample_first_def sample_next_def json_key_def json_opt_def
      block_ID_def header_ID_def header_json_def sample_genesis_def sample_second_def sample_block_def)

lemma sample_first_checks: "checkBlock sample_crypto 371 sample_first 0 = Inr ()"
  by (simp add: checkBlock_def Let_def sample_first_def sample_genesis_def sample_block_def CheckPOW_def CheckpointCheck_def
      computeHashListRoot_def checkTransaction_def IsCoinbase_def sample_coinbase_def sample_tx_def octets_def max_txs_first
      Checkpoints_def addCoinbaseToHashListRoot_def sample_crypto_def i64_small result_simps GetBigInt_def utf8_valid.simps)

lemma sample_first_ok: "block_ok sample_crypto 0 sample_first" "chain_valid sample_crypto True [sample_first]"
proof -
  have t: "Transactions sample_first = Transactions sample_genesis" "Height (Header sample_first) = 0" "Height (Header sample_genesis) = 0"
    by (simp_all add: sample_first_def sample_genesis_def sample_block_def)
  have c: "coinbaseOf sample_first = coinbaseOf sample_genesis" by (simp add: coinbaseOf_def t)
  have s: "block_shape sample_crypto sample_first = block_shape sample_crypto sample_genesis"
    by (simp add: block_shape_def c t)
  from sample_block_ok(1) show "block_ok sample_crypto 0 sample_first" by (simp add: block_ok_def s c t)
  have "chain_valid sample_crypto True [sample_genesis]" using sample_chain reach_rels(1) by metis
  then show "chain_valid sample_crypto True [sample_first]"
    by (simp add: chain_valid_def s c t chainEffects_def effectsAt_def maturesAt_def)
qed

lemma sample_turn:
  obtains p where "turns sample_crypto 371 True sample_node p" "pinv sample_crypto 371 True [sample_first] p"
    "known (p_ledger p) = {371}" "p_blockStore p = snd (bs_Store 371 sample_first 0 (p_blockStore sample_node))"
    "tq_txs (p_txQueue p) = []"
proof -
  have f: "pfresh sample_crypto 371 True sample_node"
    unfolding sample_node_def by (rule startable_fresh [OF sample_startable])
  have "tq_txs (p_txQueue sample_node) = []" by (simp add: sample_node_def NewProcessor_def new_inv)
  then obtain r p where p: "processBlock sample_crypto 371 sample_first 0 [] sample_node = Some (r, p)" "pinv sample_crypto 371 True [sample_first] p"
    "known (p_ledger p) = {371}" "p_blockStore p = snd (bs_Store 371 sample_first 0 (p_blockStore sample_node))"
    "tq_txs (p_txQueue p) = []"
    using processBlock_fresh [OF f sample_first_id(1) [symmetric], of 0 "[]"] sample_first_ok sample_first_checks by auto
  have "turns sample_crypto 371 True sample_node p"
    by (rule turns.turn [OF turns.start, where ev = "BlockToProcess 371 sample_first []" and now = 0 and r = r])
      (use p(1) sample_first_id(1) sample_first_ok in \<open>simp_all add: submitted_def run_turn_def\<close>)
  from that [OF this p(2-5)] show ?thesis .
qed

section \<open>Properties\<close>

lemma pinv_most_work:
  assumes p: "pinv cr gid prune chain p"
  shows "reach cr prune chain (p_ledger p) \<and> chain \<noteq> [] \<and> chain_valid cr prune chain
    \<and> GetChainTip (p_ledger p) = Inr (Some (block_ID cr (last chain), int (length chain) - 1))
    \<and> payable minQueueBalance (chainBal chain) (tq_txs (p_txQueue p))
    \<and> (\<exists>w. bs_headers (p_blockStore p) (block_ID cr (last chain)) = Some (Header (last chain), w)
      \<and> (\<forall>j. GetBranchType (p_ledger p) j \<noteq> Inr UNKNOWN \<longrightarrow> j \<noteq> block_ID cr (last chain) \<longrightarrow>
          (\<exists>h v. bs_headers (p_blockStore p) j = Some (h, v) \<and> Compare cr (Header (last chain)) h w v
            \<and> GetBigInt (ChainWork h) \<le> GetBigInt (ChainWork (Header (last chain))))))"
proof -
  have c: "pcore cr gid prune chain p" and s: "settled cr (p_ledger p) (p_txQueue p)" using p by (auto simp: pinv_def)
  note d = pcore_parts [OF c]
  obtain w where w: "GetChainTip (p_ledger p) = Inr (Some (block_ID cr (last chain), int (length chain) - 1))"
    "bs_headers (p_blockStore p) (block_ID cr (last chain)) = Some (Header (last chain), w)"
    by (rule pcore_tip [OF c])
  have "\<exists>h v. bs_headers (p_blockStore p) j = Some (h, v) \<and> Compare cr (Header (last chain)) h w v
            \<and> GetBigInt (ChainWork h) \<le> GetBigInt (ChainWork (Header (last chain)))"
    if "GetBranchType (p_ledger p) j \<noteq> Inr UNKNOWN" "j \<noteq> block_ID cr (last chain)" for j
  proof -
    have "beats cr (p_blockStore p) (block_ID cr (last chain)) j"
      using p that branch_type_known(1) [OF c, of j] by (simp add: pinv_def)
    then show ?thesis using w(2) Compare_work by (fastforce simp: beats_def)
  qed
  moreover have "payable minQueueBalance (chainBal chain) (tq_txs (p_txQueue p))"
    using s bal_rel_eq(1) [OF reach_rels(1,5) [OF d(4)]] by (simp add: settled_def)
  ultimately show ?thesis using w d(4,5) reach_rels(1) [OF d(4)] by blast
qed









text \<open>
  C22 (termination). The walks that find the path of a reorganisation end, and the path they find is the right one: from
  the tip of one branch to its common ancestor with the other, newest block first, and from there to the tip of the
  other branch, oldest block first. No block of both branches is on the path.
\<close>

theorem reorg_path:
  assumes "\<And>k. \<not> bs_readFault bs k" "branch cr gid bs i T" "branch cr gid bs j N"
  shows "\<exists>c. 0 < c \<and> c \<le> length T \<and> c \<le> length N \<and> take c T = take c N
    \<and> (c < length T \<longrightarrow> c < length N \<longrightarrow> T ! c \<noteq> N ! c)
    \<and> reorgPath bs i (Header (last T)) j (Some (Header (last N)))
      = Some (Inr (map (block_ID cr) (rev (drop c T)), map (block_ID cr) (drop c N)))"
  using reorgPath_branch [OF assms] .

definition sample_blocks :: block_store where
  "sample_blocks = sample_store\<lparr>bs_blocks := [371 \<mapsto> sample_first, 372 \<mapsto> sample_next],
     bs_headers := [371 \<mapsto> (Header sample_first, 0), 372 \<mapsto> (Header sample_next, 1)]\<rparr>"

lemma sample_branches:
  "branch sample_crypto 371 sample_blocks 371 [sample_first]" "branch sample_crypto 371 sample_blocks 372 [sample_first, sample_next]"
proof -
  have h: "holds sample_crypto sample_blocks 371 sample_first" "holds sample_crypto sample_blocks 372 sample_next"
    using sample_first_id by (simp_all add: holds_def sample_blocks_def)
  show f: "branch sample_crypto 371 sample_blocks 371 [sample_first]" by (rule branch.root [OF h(1) sample_first_ok(1)])
  have p: "Previous (Header sample_next) = 371" by (simp add: sample_next_def)
  have t: "Transactions sample_next = Transactions sample_second" "Height (Header sample_next) = Height (Header sample_second)"
    by (simp_all add: sample_next_def)
  have "block_ok sample_crypto 1 sample_next"
    using sample_block_ok(2) by (simp add: block_ok_def block_shape_def coinbaseOf_def t)
  moreover have "work sample_first < work sample_next"
    by (simp add: sample_first_def sample_next_def sample_genesis_def sample_block_def GetBigInt_def)
  ultimately show "branch sample_crypto 371 sample_blocks 372 [sample_first, sample_next]"
    using branch.grow [where bl = "[sample_first]", OF _ h(2)] f p by simp
qed

theorem reorg_path_witness:
  "reorgPath sample_blocks 371 (Header sample_first) 372 (Some (Header sample_next)) = Some (Inr ([], [372]))"
proof -
  have "\<not> bs_readFault sample_blocks k" for k by (simp add: sample_blocks_def sample_store_def)
  from reorg_path [OF this sample_branches] sample_first_id show ?thesis
    by (auto simp: le_Suc_eq)
qed

end
