(* ===== verification/Peer_Download.thy ===== *)
theory Peer_Download
  imports Peer Processor_Props
begin

text \<open>
  What the connections do to the queues of blocks to download. A block waits in the download queue of a connection,
  then it is in flight, in the connection's queue and in the one all connections share, under the connection's address.
  The lemmas follow the queues through every handler, first for one connection and then for any number of connections
  whose events interleave.
\<close>

section \<open>Queues as lists of identifiers\<close>

definition bq_ids :: "block_queue \<Rightarrow> block_id list" where
  "bq_ids q = map be_id (bq_entries q)"

definition unowned :: "block_queue \<Rightarrow> bool" where
  "unowned q \<longleftrightarrow> bq_inv q \<and> (\<forall>e \<in> set (bq_entries q). be_who e = '''')"

lemma find_map_owner:
  "find (\<lambda>e. be_id e = j) (map (\<lambda>e. if be_id e = i then e\<lparr>be_who := who, be_when := now\<rparr> else e) es)
   = map_option (\<lambda>e. if j = i then e\<lparr>be_who := who, be_when := now\<rparr> else e) (find (\<lambda>e. be_id e = j) es)"
  by (induction es) auto

lemma find_filter_ne:
  "find (\<lambda>e. be_id e = j) (filter (\<lambda>e. be_id e \<noteq> i) es) = (if j = i then None else find (\<lambda>e. be_id e = j) es)"
  by (induction es) auto

lemma find_append: "find P (xs @ ys) = (case find P xs of None \<Rightarrow> find P ys | Some x \<Rightarrow> Some x)"
  by (induction xs) auto

lemma owner_ids: "owner q i = None \<longleftrightarrow> i \<notin> set (bq_ids q)"
  by (auto simp: owner_def find_None_iff bq_ids_def)

lemma owner_Some_ids: "owner q i = Some wt \<Longrightarrow> i \<in> set (bq_ids q)"
  using owner_ids [of q i] by simp

lemma Add_owner:
  assumes "bq_inv q" "bq_Add now i who q = (r, q')"
  shows "\<exists>b. r = Inr b \<and> bq_inv q' \<and> (if b then owner q' j = (if j = i then Some (who, now) else owner q j) else q' = q)"
  using bq_Add_entries [OF assms]
proof (cases "owner q i")
  case None
  then have f: "find (\<lambda>e. be_id e = i) (bq_entries q) = None" by (simp add: owner_def)
  from None bq_Add_entries [OF assms] f show ?thesis
    by (auto simp: owner_def find_append split: option.splits)
next
  case (Some wt)
  then obtain w t where wt: "owner q i = Some (w, t)" by (cases wt) auto
  then obtain e where "find (\<lambda>e. be_id e = i) (bq_entries q) = Some e" by (auto simp: owner_def)
  with wt bq_Add_entries [OF assms] show ?thesis
    by (auto simp: owner_def find_map_owner option.map_comp comp_def split: if_splits)
qed

lemma Remove_owner:
  assumes "bq_inv q" "bq_Remove i who q = (r, q')"
  shows "\<exists>b. r = Inr b \<and> bq_inv q'
    \<and> owner q' j = (if j = i \<and> (\<exists>t. owner q i = Some (who, t)) then None else owner q j)"
proof (cases "owner q i")
  case None
  with bq_Remove_entries [OF assms] show ?thesis by auto
next
  case (Some wt)
  then obtain w t where wt: "owner q i = Some (w, t)" by (cases wt) auto
  show ?thesis
  proof (cases "w = who")
    case True
    with wt bq_Remove_entries [OF assms] show ?thesis by (auto simp: owner_def find_filter_ne)
  next
    case False
    with wt bq_Remove_entries [OF assms] show ?thesis by auto
  qed
qed

lemma Add_unowned:
  assumes "unowned q" "bq_Add now i '''' q = (r, q')"
  shows "(\<exists>b. r = Inr b) \<and> unowned q' \<and> bq_ids q' = (if i \<in> set (bq_ids q) then bq_ids q else bq_ids q @ [i])"
proof (cases "owner q i")
  case None
  with assms bq_Add_entries [of q now i "''''" r q'] show ?thesis
    by (auto simp: unowned_def bq_ids_def owner_ids)
next
  case (Some wt)
  then obtain w t where wt: "owner q i = Some (w, t)" by (cases wt) auto
  with assms bq_Add_entries [of q now i "''''" r q'] owner_Some_ids [OF wt] show ?thesis
    by (auto simp: unowned_def bq_ids_def split: if_splits)
qed

lemma Remove_unowned:
  assumes "unowned q" "bq_Remove i '''' q = (r, q')"
  shows "(\<exists>b. r = Inr b) \<and> unowned q' \<and> bq_ids q' = filter (\<lambda>j. j \<noteq> i) (bq_ids q)"
proof (cases "owner q i")
  case None
  with assms bq_Remove_entries [of q i "''''" r q'] show ?thesis
    by (auto simp: unowned_def owner_ids intro!: filter_True [symmetric])
next
  case (Some wt)
  then obtain e where e: "find (\<lambda>e. be_id e = i) (bq_entries q) = Some e" "wt = (be_who e, be_when e)" by (auto simp: owner_def)
  then have "be_who e = ''''" using assms(1) by (auto simp: unowned_def find_Some_iff)
  with e Some assms bq_Remove_entries [of q i "''''" r q'] show ?thesis
    by (auto simp: unowned_def bq_ids_def filter_map comp_def)
qed

lemma Peek_ids: "bq_Peek q = (case bq_ids q of [] \<Rightarrow> None | i # _ \<Rightarrow> Some i)"
  by (cases "bq_entries q") (simp_all add: bq_Peek_entries bq_ids_def)

lemma Len_ids: "bq_Len q = length (bq_ids q)"
  by (simp add: bq_Len_entries bq_ids_def)

lemma Exists_ids: "bq_inv q \<Longrightarrow> bq_Exists i q \<longleftrightarrow> i \<in> set (bq_ids q)"
  using owner_ids [of q i] by (simp add: bq_Exists_owner)

lemma distinct_ids: "bq_inv q \<Longrightarrow> distinct (bq_ids q)"
  by (simp add: bq_inv_parts(4) bq_ids_def)

lemma new_queue: "unowned NewBlockQueue" "bq_ids NewBlockQueue = []" "bq_inv NewBlockQueue" "owner NewBlockQueue i = None"
  by (simp_all add: unowned_def bq_new bq_ids_def owner_def)

section \<open>The invariant of a connection\<close>

abbreviation globalQueue :: "'f peer \<Rightarrow> block_queue" where "globalQueue p \<equiv> n_inflight (pr_node p)"

definition dl_inv :: "'f peer \<Rightarrow> bool" where
  "dl_inv p \<longleftrightarrow> unowned (localDownloadQueue p) \<and> unowned (localInflightQueue p) \<and> bq_inv (globalQueue p)
     \<and> length (bq_ids (localDownloadQueue p)) \<le> downloadQueueMax \<and> length (bq_ids (localInflightQueue p)) \<le> inflightQueueMax
     \<and> (\<forall>i \<in> set (bq_ids (localInflightQueue p)). GetBlockMessage i \<in> set (pr_sent p))
     \<and> length (ignoreBlocks p) \<le> maxBlocksPerInv + 1 \<and> (pr_closed p \<or> length (ignoreBlocks p) \<le> maxBlocksPerInv)"

abbreviation inflight :: "'f peer \<Rightarrow> block_id set" where "inflight p \<equiv> set (bq_ids (localInflightQueue p))"

text \<open>
  A step that keeps it. It takes blocks only for the connection itself, and a block it gives up is no longer in flight
  for the connection's address.
\<close>

definition moves :: "'f peer \<Rightarrow> 'f peer \<Rightarrow> bool" where
  "moves p p' \<longleftrightarrow> pr_addr p' = pr_addr p \<and> (dl_inv p \<longrightarrow> dl_inv p'
     \<and> (\<forall>i a t. owner (globalQueue p') i = Some (a, t) \<longrightarrow>
          owner (globalQueue p) i = Some (a, t) \<or> a = pr_addr p \<and> i \<in> inflight p')
     \<and> (\<forall>i t. i \<in> inflight p \<longrightarrow> i \<notin> inflight p' \<longrightarrow> owner (globalQueue p') i \<noteq> Some (pr_addr p, t)))"

lemma moves_refl [simp]: "moves p p"
  by (simp add: moves_def)

lemma moves_trans: "moves p q \<Longrightarrow> moves q r \<Longrightarrow> moves p r"
  unfolding moves_def by (metis (no_types))

lemma moves_inv: "moves p p' \<Longrightarrow> dl_inv p \<Longrightarrow> dl_inv p'"
  by (simp add: moves_def)

text \<open>A step that touches none of this.\<close>

definition idle :: "'f peer \<Rightarrow> 'f peer \<Rightarrow> bool" where
  "idle p p' \<longleftrightarrow> pr_addr p' = pr_addr p \<and> localDownloadQueue p' = localDownloadQueue p \<and> localInflightQueue p' = localInflightQueue p
     \<and> globalQueue p' = globalQueue p \<and> ignoreBlocks p' = ignoreBlocks p \<and> (pr_closed p \<longrightarrow> pr_closed p')
     \<and> set (pr_sent p) \<subseteq> set (pr_sent p')"

lemma idle_moves: "idle p p' \<Longrightarrow> moves p p'"
  by (auto simp: idle_def moves_def dl_inv_def)

text \<open>A step that also leaves the processor alone.\<close>

definition still :: "'f peer \<Rightarrow> 'f peer \<Rightarrow> bool" where
  "still p p' \<longleftrightarrow> idle p p' \<and> pr_processor p' = pr_processor p"

lemma still_refl [simp]: "still p p"
  by (simp add: still_def idle_def)

lemma still_trans: "still p q \<Longrightarrow> still q r \<Longrightarrow> still p r"
  by (auto simp: still_def idle_def)

lemmas still_defs = still_def idle_def send_def closeConn_def

lemma still_bindS:
  assumes "bindS m f = (r, p')" "\<And>r q. m = (r, q) \<Longrightarrow> still p q" "\<And>x q r p'. m = (Inr x, q) \<Longrightarrow> f x q = (r, p') \<Longrightarrow> still q p'"
  shows "still p p'"
  using assms by (cases m; cases "fst m") (auto intro: still_trans)

lemma still_logged: "logged m = (r, p') \<Longrightarrow> (\<And>r q. m = (r, q) \<Longrightarrow> still p q) \<Longrightarrow> still p p'"
  by (auto simp: logged_def split: prod.splits sum.splits)

lemma still_onPeerStore: "onPeerStore f p = (r, p') \<Longrightarrow> still p p'"
  by (auto simp: onPeerStore_def still_defs split: prod.splits)

lemma still_getBlock: "getBlock i p = (r, p') \<Longrightarrow> still p p'"
  by (auto simp: getBlock_def continueInv_def Let_def still_defs split: sum.splits option.splits prod.splits if_splits)

lemma still_getBlockHeader: "getBlockHeader i p = (r, p') \<Longrightarrow> still p p'"
  by (auto simp: getBlockHeader_def still_defs split: sum.splits option.splits)

lemma still_byHeight:
  assumes "byHeight h m f p = (r, p')" "\<And>i r p'. f i p = (r, p') \<Longrightarrow> still p p'"
  shows "still p p'"
  using assms by (auto simp: byHeight_def split: sum.splits option.splits) (auto simp: still_defs)

lemma still_balances:
  "onGetBalance k p = (r, p') \<Longrightarrow> still p p'"
  "onGetBalances ks p = (r, p') \<Longrightarrow> still p p'"
  unfolding onGetBalance_def onGetBalances_def
  by (auto simp: Let_def still_defs split: sum.splits prod.splits if_splits)

lemma still_history: "onGetPublicKeyTransactions k s e x n p = (r, p') \<Longrightarrow> still p p'"
  unfolding onGetPublicKeyTransactions_def Let_def
  by (auto simp: still_defs split: sum.splits prod.splits if_splits)

lemma still_lookups:
  "onGetTransaction t p = (r, p') \<Longrightarrow> still p p'"
  "onGetTipHeader p = (r, p') \<Longrightarrow> still p p'"
  unfolding onGetTransaction_def onGetTipHeader_def
  by (auto simp: still_defs split: sum.splits option.splits prod.splits)

lemma still_filters:
  "onFilterLoad cf t b p = (r, p') \<Longrightarrow> still p p'"
  "onFilterAdd cf ks p = (r, p') \<Longrightarrow> still p p'"
  "onGetFilterTransactionQueue cf p = (r, p') \<Longrightarrow> still p p'"
  "onGetPeerAddresses now p = (r, p') \<Longrightarrow> still p p'"
  "still p (onPeerAddresses now as p)"
  "still p (onTxNotice cf newTx p)"
  by (auto simp: onFilterLoad_def onFilterAdd_def onGetFilterTransactionQueue_def onGetPeerAddresses_def onPeerAddresses_def
      onTxNotice_def Let_def still_defs split: sum.splits option.splits prod.splits if_splits)

lemma still_work:
  "createNewWorkBlock cr ch i h p = (r, p') \<Longrightarrow> still p p'"
  "workResult n x p = (r, p') \<Longrightarrow> still p p'"
  "updateReadLimit now p = (r, p') \<Longrightarrow> still p p'"
  by (auto simp: createNewWorkBlock_def workResult_def updateReadLimit_def Let_def still_defs
      split: sum.splits option.splits prod.splits if_splits)

lemma still_newWork: "logged (createNewWorkBlock cr ch i h p) = (r, p') \<Longrightarrow> still p p'"
  by (erule still_logged) (rule still_work(1))

lemma still_getWork:
  assumes "onGetWork cr ch ks m p = (r, p')"
  shows "still p p'"
proof -
  have w: "still p q" if "logged (createNewWorkBlock cr ch i h (p\<lparr>pr_pubKeys := ks, pr_memo := m\<rparr>)) = (x, q)" for i h x q
    using still_newWork [OF that] by (simp add: still_defs)
  have s: "still p (send a p)" "still p (p\<lparr>pr_pubKeys := ks, pr_memo := m\<rparr>)" for a by (auto simp: still_defs)
  show ?thesis
    using assms s unfolding onGetWork_def Let_def
    by (auto split: sum.splits option.splits if_splits intro: w)
qed

lemma still_updateWork: "updateWork cr ch p = (r, p') \<Longrightarrow> still p p'"
  by (auto simp: updateWork_def dest: still_newWork split: sum.splits option.splits if_splits)

section \<open>The download loop\<close>

lemma onDownload_Remove:
  assumes "unowned (localDownloadQueue p)"
  obtains b q where "onDownload (bq_Remove i '''') p = (Inr b, p\<lparr>localDownloadQueue := q\<rparr>)" "unowned q"
    "bq_ids q = filter (\<lambda>j. j \<noteq> i) (bq_ids (localDownloadQueue p))"
proof -
  obtain r q where q: "bq_Remove i '''' (localDownloadQueue p) = (r, q)" by fastforce
  from Remove_unowned [OF assms q] that show ?thesis by (auto simp: onDownload_def q)
qed

lemma onDownload_Add:
  assumes "unowned (localDownloadQueue p)"
  obtains b q where "onDownload (bq_Add now i '''') p = (Inr b, p\<lparr>localDownloadQueue := q\<rparr>)" "unowned q"
    "bq_ids q = (if i \<in> set (bq_ids (localDownloadQueue p)) then bq_ids (localDownloadQueue p) else bq_ids (localDownloadQueue p) @ [i])"
proof -
  obtain r q where q: "bq_Add now i '''' (localDownloadQueue p) = (r, q)" by fastforce
  from Add_unowned [OF assms q] that show ?thesis by (auto simp: onDownload_def q)
qed

lemma onInflight_Add:
  assumes "unowned (localInflightQueue p)"
  obtains b q where "onInflight (bq_Add now i '''') p = (Inr b, p\<lparr>localInflightQueue := q\<rparr>)" "unowned q"
    "bq_ids q = (if i \<in> set (bq_ids (localInflightQueue p)) then bq_ids (localInflightQueue p) else bq_ids (localInflightQueue p) @ [i])"
proof -
  obtain r q where q: "bq_Add now i '''' (localInflightQueue p) = (r, q)" by fastforce
  from Add_unowned [OF assms q] that show ?thesis by (auto simp: onInflight_def q)
qed

lemma onInflight_Remove:
  assumes "unowned (localInflightQueue p)"
  obtains b q where "onInflight (bq_Remove i '''') p = (Inr b, p\<lparr>localInflightQueue := q\<rparr>)" "unowned q"
    "bq_ids q = filter (\<lambda>j. j \<noteq> i) (bq_ids (localInflightQueue p))"
proof -
  obtain r q where q: "bq_Remove i '''' (localInflightQueue p) = (r, q)" by fastforce
  from Remove_unowned [OF assms q] that show ?thesis by (auto simp: onInflight_def q)
qed

definition setGlobal :: "block_queue \<Rightarrow> 'f peer \<Rightarrow> 'f peer" where
  "setGlobal q p = p\<lparr>pr_node := (pr_node p)\<lparr>n_inflight := q\<rparr>\<rparr>"

lemma onGlobal_Add:
  assumes "bq_inv (globalQueue p)"
  obtains b q where "onGlobal (bq_Add now i a) p = (Inr b, setGlobal q p)" "bq_inv q"
    "\<And>j. owner q j = (if b \<and> j = i then Some (a, now) else owner (globalQueue p) j)"
proof -
  obtain r q where q: "bq_Add now i a (globalQueue p) = (r, q)" by fastforce
  from Add_owner [OF assms q] obtain b where b: "r = Inr b" "bq_inv q" "\<not> b \<Longrightarrow> q = globalQueue p"
    by (metis (full_types))
  have "owner q j = (if b \<and> j = i then Some (a, now) else owner (globalQueue p) j)" for j
    using Add_owner [OF assms q, of j] b by (cases b) auto
  with b q that show ?thesis by (simp add: onGlobal_def setGlobal_def)
qed

lemma onGlobal_Remove:
  assumes "bq_inv (globalQueue p)"
  obtains b q where "onGlobal (bq_Remove i a) p = (Inr b, setGlobal q p)" "bq_inv q"
    "\<And>j. owner q j = (if j = i \<and> (\<exists>t. owner (globalQueue p) i = Some (a, t)) then None else owner (globalQueue p) j)"
proof -
  obtain r q where q: "bq_Remove i a (globalQueue p) = (r, q)" by fastforce
  note R = Remove_owner [OF assms q]
  obtain b where "r = Inr b" "bq_inv q" using R by blast
  with q R that show ?thesis by (simp add: onGlobal_def setGlobal_def)
qed

lemma setGlobal_simps [simp]:
  "globalQueue (setGlobal q p) = q" "localDownloadQueue (setGlobal q p) = localDownloadQueue p"
  "localInflightQueue (setGlobal q p) = localInflightQueue p" "pr_addr (setGlobal q p) = pr_addr p"
  "pr_processor (setGlobal q p) = pr_processor p" "ignoreBlocks (setGlobal q p) = ignoreBlocks p"
  "pr_closed (setGlobal q p) = pr_closed p" "pr_sent (setGlobal q p) = pr_sent p"
  by (simp_all add: setGlobal_def)

text \<open>Taking the first waiting block, with whether it goes into flight.\<close>

lemma downloadNext_ok:
  assumes inv: "dl_inv p" and st: "downloadNext now p = (r, p')"
  shows "moves p p' \<and> pr_processor p' = pr_processor p \<and> pr_closed p' = pr_closed p \<and> pr_ibd p' = pr_ibd p
    \<and> (r = Inr True \<longrightarrow> length (bq_ids (localDownloadQueue p')) < length (bq_ids (localDownloadQueue p)))"
proof -
  have d: "unowned (localDownloadQueue p)" "unowned (localInflightQueue p)" "bq_inv (globalQueue p)"
    using inv by (simp_all add: dl_inv_def)
  show ?thesis
  proof (cases "bq_Len (localInflightQueue p) \<ge> inflightQueueMax \<or> bq_ids (localDownloadQueue p) = []")
    case True
    with st show ?thesis by (auto simp: downloadNext_def Peek_ids split: if_splits)
  next
    case False
    then obtain i rest where ids: "bq_ids (localDownloadQueue p) = i # rest" and
      room: "length (bq_ids (localInflightQueue p)) < inflightQueueMax" by (auto simp: Len_ids neq_Nil_conv)
    have peek: "bq_Peek (localDownloadQueue p) = Some i" by (simp add: Peek_ids ids)
    have shorter: "length (filter (\<lambda>j. j \<noteq> i) (bq_ids (localDownloadQueue p))) < length (bq_ids (localDownloadQueue p))"
      by (simp add: ids le_imp_less_Suc)
    show ?thesis
    proof (cases "GetBranchType (pr_ledger p) i")
      case (Inl e)
      with st False peek show ?thesis by (auto simp: downloadNext_def)
    next
      case (Inr bt)
      show ?thesis
      proof (cases "bt = UNKNOWN")
        case known: False
        obtain b q where q: "onDownload (bq_Remove i '''') p = (Inr b, p\<lparr>localDownloadQueue := q\<rparr>)" "unowned q"
          "bq_ids q = filter (\<lambda>j. j \<noteq> i) (bq_ids (localDownloadQueue p))" by (rule onDownload_Remove [OF d(1)])
        with st False peek Inr known have p': "r = Inr True" "p' = p\<lparr>localDownloadQueue := q\<rparr>" by (auto simp: downloadNext_def)
        with q shorter inv show ?thesis by (auto simp: moves_def dl_inv_def)
      next
        case unknown: True
        obtain b g where g: "onGlobal (bq_Add now i (pr_addr p)) p = (Inr b, setGlobal g p)" "bq_inv g"
          "\<And>j. owner g j = (if b \<and> j = i then Some (pr_addr p, now) else owner (globalQueue p) j)"
          by (rule onGlobal_Add [OF d(3)]) blast
        show ?thesis
        proof (cases b)
          case busy: False
          with st False peek Inr unknown g have "r = Inr False" "p' = setGlobal g p" by (auto simp: downloadNext_def)
          with busy g inv show ?thesis by (auto simp: moves_def dl_inv_def) (auto simp: setGlobal_def)
        next
          case b: True
          let ?p = "setGlobal g p"
          obtain c q where q: "onDownload (bq_Remove i '''') ?p = (Inr c, ?p\<lparr>localDownloadQueue := q\<rparr>)" "unowned q"
            "bq_ids q = filter (\<lambda>j. j \<noteq> i) (bq_ids (localDownloadQueue p))"
            by (rule onDownload_Remove [where p = ?p and i = i]) (use d(1) in \<open>simp_all\<close>)
          let ?q = "?p\<lparr>localDownloadQueue := q\<rparr>"
          obtain e f where f: "onInflight (bq_Add now i '''') ?q = (Inr e, ?q\<lparr>localInflightQueue := f\<rparr>)" "unowned f"
            "bq_ids f = (if i \<in> set (bq_ids (localInflightQueue p)) then bq_ids (localInflightQueue p) else bq_ids (localInflightQueue p) @ [i])"
            by (rule onInflight_Add [where p = ?q and now = now and i = i]) (use d(2) in \<open>simp_all\<close>)
          have p': "r = Inr True" "p' = send (GetBlockMessage i) (?q\<lparr>localInflightQueue := f\<rparr>)"
            using st False peek Inr unknown g(1) b q(1) f(1) by (auto simp: downloadNext_def)
          have "length (bq_ids f) \<le> inflightQueueMax" "set (bq_ids f) = insert i (set (bq_ids (localInflightQueue p)))"
            using room by (auto simp: f(3))
          then have "dl_inv p'"
            using inv b g(2,3) q(2) f(2) shorter unfolding p'(2) dl_inv_def send_def
            by (auto simp: q(3) split: if_splits)
          moreover have "owner (globalQueue p) j = Some (a, t) \<or> a = pr_addr p \<and> j \<in> inflight p'"
            if "owner (globalQueue p') j = Some (a, t)" for a j t
            using that g(3) [of j] unfolding p'(2) by (auto simp: send_def f(3) split: if_splits)
          moreover have "inflight p \<subseteq> inflight p'" unfolding p'(2) by (auto simp: send_def f(3))
          ultimately show ?thesis
            using p' shorter q(3) by (auto simp: moves_def send_def) (auto simp: setGlobal_def)
        qed
      qed
    qed
  qed
qed

lemma processDownloadQueue_ok:
  assumes "dl_inv p"
  shows "\<exists>r p'. processDownloadQueue now p = Some (r, p') \<and> moves p p' \<and> pr_processor p' = pr_processor p
    \<and> pr_closed p' = pr_closed p \<and> pr_ibd p' = pr_ibd p"
  using assms
proof (induction "length (bq_ids (localDownloadQueue p))" arbitrary: p rule: less_induct)
  case less
  obtain r q where q: "downloadNext now p = (r, q)" by fastforce
  note n = downloadNext_ok [OF less.prems q]
  show ?case
  proof (cases r)
    case (Inl e)
    with q n show ?thesis by (subst processDownloadQueue.simps) auto
  next
    case (Inr b)
    show ?thesis
    proof (cases b)
      case False
      with q n Inr show ?thesis by (subst processDownloadQueue.simps) auto
    next
      case True
      then have "length (bq_ids (localDownloadQueue q)) < length (bq_ids (localDownloadQueue p))" "dl_inv q"
        using n Inr less.prems moves_inv by auto
      from less.hyps [OF this] obtain s p' where "processDownloadQueue now q = Some (s, p')" "moves q p'"
        "pr_processor p' = pr_processor q" "pr_closed p' = pr_closed q" "pr_ibd p' = pr_ibd q" by blast
      moreover have "processDownloadQueue now p = processDownloadQueue now q"
        by (subst processDownloadQueue.simps) (simp add: q Inr True)
      ultimately show ?thesis using n by (auto intro: moves_trans)
    qed
  qed
qed

section \<open>What the processor is given\<close>

text \<open>Turns of the processor with transactions and blocks under the identifiers their contents have.\<close>

inductive fed :: "crypto \<Rightarrow> processor \<Rightarrow> processor \<Rightarrow> bool" for cr p where
  none: "fed cr p p"
| tx: "fed cr p q \<Longrightarrow> run_turn cr now (TxToProcess (tx_ID cr t) t source) q = Some (r, q') \<Longrightarrow> fed cr p q'"
| block: "fed cr p q \<Longrightarrow> run_turn cr now (BlockToProcess (block_ID cr b) b source) q = Some (r, q') \<Longrightarrow> fed cr p q'"

lemma fed_trans: "fed cr q r \<Longrightarrow> fed cr p q \<Longrightarrow> fed cr p r"
  by (induction rule: fed.induct) (auto intro: fed.intros)

definition noZeroID :: "crypto \<Rightarrow> bool" where
  "noZeroID cr \<longleftrightarrow> (\<forall>h. header_ID cr h \<noteq> 0)"

lemma block_turn:
  assumes "noZeroID cr" "pinv cr gid prune chain p"
  shows "\<exists>r p' chain'. run_turn cr now (BlockToProcess (block_ID cr b) b source) p = Some (r, p') \<and> pinv cr gid prune chain' p'"
proof -
  have "block_ID cr b \<noteq> 0" using assms(1) by (simp add: noZeroID_def block_ID_def)
  from processBlock_pinv [OF assms(2) refl this, of now source] assms(2) show ?thesis
    by (auto simp: run_turn_def split: if_splits)
qed

lemma fed_pinv:
  assumes "fed cr p q" "noZeroID cr" "pinv cr gid prune chain p"
  shows "\<exists>chain'. pinv cr gid prune chain' q"
  using assms(1)
proof (induction rule: fed.induct)
  case none
  then show ?case using assms(3) by blast
next
  case (tx q now t source r q')
  then show ?case using processTransaction_cases(1) by (fastforce simp: run_turn_def)
next
  case (block q now b source r q')
  then obtain chain' where "pinv cr gid prune chain' q" by blast
  from block_turn [OF assms(2) this, of now b source] block.hyps(2) show ?case by auto
qed

definition steps :: "crypto \<Rightarrow> 'f peer \<Rightarrow> 'f peer \<Rightarrow> bool" where
  "steps cr p p' \<longleftrightarrow> moves p p' \<and> fed cr (pr_processor p) (pr_processor p')"

lemma steps_refl [simp]: "steps cr p p"
  by (simp add: steps_def fed.none)

lemma steps_trans: "steps cr p q \<Longrightarrow> steps cr q r \<Longrightarrow> steps cr p r"
  by (auto simp: steps_def intro: moves_trans fed_trans)

lemma still_steps: "still p p' \<Longrightarrow> steps cr p p'"
  by (simp add: still_def steps_def idle_moves fed.none)

lemma send_steps: "steps cr p q \<Longrightarrow> steps cr p (send m q)"
  by (erule steps_trans, rule still_steps) (auto simp: still_defs)

lemma closeConn_steps: "steps cr p q \<Longrightarrow> steps cr p (closeConn q)"
  by (erule steps_trans, rule still_steps) (simp add: still_defs)

lemma moves_steps: "moves p p' \<Longrightarrow> pr_processor p' = pr_processor p \<Longrightarrow> steps cr p p'"
  by (simp add: steps_def fed.none)

text \<open>A connection of a node that has a chain.\<close>

definition ready :: "crypto \<Rightarrow> block_id \<Rightarrow> bool \<Rightarrow> 'f peer \<Rightarrow> bool" where
  "ready cr gid prune p \<longleftrightarrow> dl_inv p \<and> (\<exists>chain. pinv cr gid prune chain (pr_processor p))"

lemma steps_ready:
  assumes "steps cr p p'" "noZeroID cr" "ready cr gid prune p"
  shows "ready cr gid prune p'"
proof -
  obtain chain where "pinv cr gid prune chain (pr_processor p)" using assms(3) by (auto simp: ready_def)
  with fed_pinv assms(1,2) have "\<exists>chain'. pinv cr gid prune chain' (pr_processor p')" by (auto simp: steps_def)
  with assms(1,3) show ?thesis by (auto simp: ready_def steps_def intro: moves_inv)
qed

section \<open>Handlers that move blocks\<close>

lemma release_ok:
  assumes inv: "dl_inv p"
  obtains p' where "release i p = (Inr (), p')" "moves p p'" "pr_processor p' = pr_processor p" "pr_closed p' = pr_closed p"
    "bq_ids (localInflightQueue p') = filter (\<lambda>j. j \<noteq> i) (bq_ids (localInflightQueue p))" "ignoreBlocks p' = ignoreBlocks p"
    "pr_outbound p' = pr_outbound p"
proof -
  have d: "unowned (localInflightQueue p)" "bq_inv (globalQueue p)" using inv by (simp_all add: dl_inv_def)
  obtain b q where q: "onInflight (bq_Remove i '''') p = (Inr b, p\<lparr>localInflightQueue := q\<rparr>)" "unowned q"
    "bq_ids q = filter (\<lambda>j. j \<noteq> i) (bq_ids (localInflightQueue p))" by (rule onInflight_Remove [OF d(1)])
  let ?p = "p\<lparr>localInflightQueue := q\<rparr>"
  obtain c g where g: "onGlobal (bq_Remove i (pr_addr p)) ?p = (Inr c, setGlobal g ?p)" "bq_inv g"
    and o: "\<And>j. owner g j = (if j = i \<and> (\<exists>t. owner (globalQueue ?p) i = Some (pr_addr p, t)) then None else owner (globalQueue ?p) j)"
    by (rule onGlobal_Remove [where p = ?p and i = i and a = "pr_addr p"]) (simp add: d(2), blast)
  let ?q = "setGlobal g ?p"
  have r: "release i p = (Inr (), ?q)" using q(1) g(1) by (simp add: release_def)
  have len: "length (bq_ids q) \<le> inflightQueueMax"
    unfolding q(3) by (rule le_trans [OF length_filter_le]) (use inv in \<open>simp add: dl_inv_def\<close>)
  have "dl_inv ?q"
    using inv q(2) g(2) len unfolding dl_inv_def by (auto simp: q(3) o split: if_splits)
  then have "moves p ?q" using o by (auto simp: moves_def q(3) split: if_splits)
  with r that [of ?q] q(3) show ?thesis by (simp add: setGlobal_def)
qed

lemma locatorLoop_total:
  assumes "0 \<le> height" "1 \<le> step" "height + step \<le> 2 ^ 63"
  shows "\<exists>r. locatorLoop l g i height step ids = Some r"
  using assms
proof (induction "nat height" arbitrary: i height step ids rule: less_induct)
  case less
  show ?case
  proof (cases i)
    case None
    then show ?thesis by (subst locatorLoop.simps) simp
  next
    case (Some j)
    let ?d = "height - step"
    have d: "i64 ?d = ?d" using less.prems by (intro i64_id) (simp add: int64_def)
    have "\<exists>r. locatorLoop l g j' ?d (if 10 < length (ids @ [j]) then i64 (step * 2) else step) (ids @ [j]) = Some r"
      if pos: "0 < ?d" for j'
    proof (rule less.hyps)
      have s: "i64 (step * 2) = step * 2" using less.prems pos by (intro i64_id) (simp add: int64_def)
      show "nat ?d < nat height" using less.prems pos by linarith
      show "0 \<le> ?d" using pos by simp
      show "1 \<le> (if 10 < length (ids @ [j]) then i64 (step * 2) else step)" using less.prems by (simp add: s)
      show "?d + (if 10 < length (ids @ [j]) then i64 (step * 2) else step) \<le> 2 ^ 63" using less.prems by (simp add: s)
    qed
    then show ?thesis
      using Some d by (subst locatorLoop.simps) (auto simp: Let_def split: sum.splits)
  qed
qed

lemma still_sendFindCommonAncestor: "sendFindCommonAncestor i p = Some (r, p') \<Longrightarrow> still p p'"
  by (auto simp: sendFindCommonAncestor_def still_defs split: sum.splits option.splits)

lemma sendFindCommonAncestor_total:
  assumes p: "pinv cr gid prune chain (pr_processor p)" and i: "\<And>j. i = Some j \<Longrightarrow> j \<in> known (pr_ledger p)"
  shows "\<exists>r p'. sendFindCommonAncestor i p = Some (r, p')"
proof -
  have c: "pcore cr gid prune chain (pr_processor p)" using p by (simp add: pinv_def)
  have h: "0 \<le> Height (Header (last bl)) \<and> Height (Header (last bl)) \<le> MAX_NUMBER"
    if "branch cr gid (pr_blockStore p) j bl" for j bl
    using branch_block_ok [OF that, of "length bl - 1"] branch_ne [OF that] by (auto simp: block_ok_def block_shape_def last_conv_nth)
  have "0 \<le> height \<and> height \<le> MAX_NUMBER" if "locatorStart i p = Inr (s, height)" for s height
  proof (cases i)
    case None
    obtain w where t: "GetChainTip (pr_ledger p) = Inr (Some (block_ID cr (last chain), int (length chain) - 1))" by (rule pcore_tip [OF c])
    have "int (length chain) - 1 \<le> MAX_NUMBER" "1 \<le> length chain"
      using h [OF pcore_parts(6) [OF c]] branch_top [OF pcore_parts(6) [OF c]] pcore_parts(5) [OF c] by (auto simp: Suc_le_eq)
    with that None t show ?thesis by (auto simp: locatorStart_def)
  next
    case (Some j)
    from pcore_parts(8) [OF c i [OF Some]] obtain bl where bl: "branch cr gid (pr_blockStore p) j bl" by blast
    from branch_last [OF bl] obtain w where "bs_headers (pr_blockStore p) j = Some (Header (last bl), w)" by (auto simp: holds_def)
    with that Some h [OF bl] show ?thesis by (auto simp: locatorStart_def bs_GetBlockHeader_def split: if_splits)
  qed
  then have "\<exists>r. locatorLoop (pr_ledger p) (pr_genesisID p) s height 1 [] = Some r" if "locatorStart i p = Inr (s, height)" for s height
    using that by (intro locatorLoop_total) fastforce+
  then show ?thesis
    by (fastforce simp: sendFindCommonAncestor_def split: sum.splits option.splits)
qed

lemma still_onFindCommonAncestor: "onFindCommonAncestor i p = (r, p') \<Longrightarrow> still p p'"
  by (auto simp: onFindCommonAncestor_def still_defs split: sum.splits option.splits if_splits)

lemma still_findCommonAncestors: "findCommonAncestors ids p = (r, p') \<Longrightarrow> still p p'"
proof (induction ids arbitrary: p)
  case (Cons i ids)
  then show ?case
    by (auto dest: still_onFindCommonAncestor intro: still_trans split: prod.splits sum.splits if_splits)
qed simp

lemma pdq_steps:
  assumes "dl_inv p"
  obtains r p' where "processDownloadQueue now p = Some (r, p')" "steps cr p p'"
proof -
  obtain r p' where "processDownloadQueue now p = Some (r, p')" "moves p p'" "pr_processor p' = pr_processor p"
    using processDownloadQueue_ok [OF assms] by blast
  with that moves_steps show ?thesis by blast
qed

lemma release_steps:
  assumes "dl_inv p"
  obtains p' where "release i p = (Inr (), p')" "steps cr p p'" "dl_inv p'" "pr_processor p' = pr_processor p"
proof -
  obtain p' where "release i p = (Inr (), p')" "moves p p'" "pr_processor p' = pr_processor p" by (rule release_ok [OF assms])
  with that [of p'] moves_steps moves_inv assms show ?thesis by blast
qed

lemma onInvBlock_ok:
  assumes r: "ready cr gid prune p"
  shows "\<exists>r p'. onInvBlock now i index len p = Some (r, p') \<and> moves p p' \<and> pr_processor p' = pr_processor p"
proof -
  obtain chain where inv: "dl_inv p" and c: "pinv cr gid prune chain (pr_processor p)" using r by (auto simp: ready_def)
  have d: "unowned (localDownloadQueue p)" "bq_inv (localDownloadQueue p)" using inv by (auto simp: dl_inv_def unowned_def)
  show ?thesis
  proof (cases "len > maxBlocksPerInv \<or> i \<in> set (ignoreBlocks p) \<or> bq_Exists i (localDownloadQueue p) \<or> bq_Exists i (localInflightQueue p)")
    case True
    then show ?thesis by (auto simp: onInvBlock_def)
  next
    case new: False
    obtain t where t: "GetBranchType (pr_ledger p) i = Inr t"
      using branch_type_known(3) [of cr gid prune chain "pr_processor p"] c by (auto simp: pinv_def)
    show ?thesis
    proof (cases "t = UNKNOWN")
      case False
      then have "i \<in> known (pr_ledger p)"
        using branch_type_known(1) [of cr gid prune chain "pr_processor p" i] c t by (auto simp: pinv_def)
      then obtain r p' where s: "sendFindCommonAncestor (Some i) p = Some (r, p')"
        using sendFindCommonAncestor_total [OF c, of "Some i"] by auto
      then have "moves p p' \<and> pr_processor p' = pr_processor p"
        using still_sendFindCommonAncestor [OF s] idle_moves [of p p'] by (simp add: still_def)
      with s new t False show ?thesis by (auto simp: onInvBlock_def)
    next
      case True
      show ?thesis
      proof (cases "bq_Len (localDownloadQueue p) \<ge> downloadQueueMax")
        case full: True
        with new t True show ?thesis by (simp add: onInvBlock_def)
      next
        case False
        obtain b q where q: "onDownload (bq_Add now i '''') p = (Inr b, p\<lparr>localDownloadQueue := q\<rparr>)" "unowned q"
          "bq_ids q = (if i \<in> set (bq_ids (localDownloadQueue p)) then bq_ids (localDownloadQueue p) else bq_ids (localDownloadQueue p) @ [i])"
          by (rule onDownload_Add [OF d(1)])
        let ?q = "p\<lparr>localDownloadQueue := q\<rparr>"
        have "length (bq_ids q) \<le> downloadQueueMax" using False by (auto simp: q(3) Len_ids)
        then have m: "dl_inv ?q" "moves p ?q" using inv q(2) by (auto simp: dl_inv_def moves_def)
        obtain r p' where "processDownloadQueue now ?q = Some (r, p')" "moves ?q p'" "pr_processor p' = pr_processor ?q"
          using processDownloadQueue_ok [OF m(1)] by blast
        with new t True False q(1) m(2) show ?thesis
          by (auto simp: onInvBlock_def bindO_def intro: moves_trans)
      qed
    qed
  qed
qed

lemma invBlocks_ok:
  assumes "ready cr gid prune p"
  shows "\<exists>r p'. invBlocks now index len ids p = Some (r, p') \<and> moves p p' \<and> pr_processor p' = pr_processor p"
  using assms
proof (induction ids arbitrary: index p)
  case (Cons i ids)
  obtain r q where q: "onInvBlock now i index len p = Some (r, q)" "moves p q" "pr_processor q = pr_processor p"
    using onInvBlock_ok [OF Cons.prems] by blast
  with Cons.prems have "ready cr gid prune q" by (auto simp: ready_def intro: moves_inv)
  from Cons.IH [OF this, of "index + 1"] q show ?case
    by (cases r) (auto simp: bindO_def intro: moves_trans)
qed auto

lemma ProcessBlock_ok:
  assumes "noZeroID cr" "pinv cr gid prune chain proc"
  shows "\<exists>r proc'. ProcessBlock cr now (header_ID cr h) h txs source proc = Some (r, proc') \<and> fed cr proc proc'"
proof (cases "those txs")
  case None
  then show ?thesis by (auto simp: ProcessBlock_def fed.none split: sum.splits)
next
  case (Some ts)
  let ?b = "\<lparr>Header = h, Transactions = ts\<rparr>"
  obtain r p' where r: "run_turn cr now (BlockToProcess (block_ID cr ?b) ?b source) proc = Some (r, p')"
    using block_turn [OF assms] by blast
  with fed.block [OF fed.none r] Some show ?thesis by (simp add: ProcessBlock_def block_ID_def)
qed

lemma setProcessor_steps:
  "fed cr (pr_processor p) proc \<Longrightarrow> steps cr p (setProcessor proc p)" "fed cr (pr_processor p) proc \<Longrightarrow> steps cr p (closeConn (setProcessor proc p))"
  by (auto simp: steps_def setProcessor_def closeConn_def idle_def intro!: idle_moves)

lemma orphanBlock_ok:
  assumes "ready cr gid prune p"
  shows "\<exists>r p'. orphanBlock now i p = Some (r, p') \<and> steps cr p p'"
proof -
  obtain chain where inv: "dl_inv p" and c: "pinv cr gid prune chain (pr_processor p)" using assms by (auto simp: ready_def)
  obtain q where q: "release i p = (Inr (), q)" "steps cr p q" "dl_inv q" "pr_processor q = pr_processor p" by (rule release_steps [OF inv])
  obtain r s where s: "sendFindCommonAncestor None q = Some (r, s)"
    using sendFindCommonAncestor_total [of cr gid prune chain q None] c q(4) by auto
  note st = still_sendFindCommonAncestor [OF s]
  have ds: "dl_inv s" using moves_inv [OF idle_moves q(3)] st by (simp add: still_def)
  have ps: "steps cr p s" using steps_trans [OF q(2) still_steps [OF st]] .
  obtain u p' where p': "processDownloadQueue now s = Some (u, p')" "steps cr s p'" by (rule pdq_steps [OF ds])
  from steps_trans [OF ps p'(2)] ps q(1) s p'(1) show ?thesis
    by (cases r; cases u) (auto simp: orphanBlock_def bindO_def)
qed

lemma ignore_moves:
  assumes "\<not> pr_closed p" "q = p\<lparr>ignoreBlocks := List.insert i (ignoreBlocks p)\<rparr>"
  shows "moves p (if length (ignoreBlocks q) > maxBlocksPerInv then closeConn q else q)"
proof -
  have "length (List.insert i (ignoreBlocks p)) \<le> length (ignoreBlocks p) + 1" by (simp add: List.insert_def)
  with assms show ?thesis by (auto simp: moves_def dl_inv_def closeConn_def)
qed

lemma onBlock_ok:
  assumes nz: "noZeroID cr" and r: "ready cr gid prune p" and nc: "\<not> pr_closed p"
  shows "\<exists>r p'. onBlock cr now header txs p = Some (r, p') \<and> steps cr p p'"
proof -
  obtain chain where inv: "dl_inv p" and c: "pinv cr gid prune chain (pr_processor p)" using r by (auto simp: ready_def)
  let ?i = "header_ID cr header"
  obtain q where q: "release ?i p = (Inr (), q)" "moves p q" "pr_processor q = pr_processor p" "pr_closed q = pr_closed p"
    by (rule release_ok [OF inv])
  have qs: "steps cr p q" using moves_steps q by blast
  show ?thesis
  proof (cases "bq_Peek (localInflightQueue p) \<noteq> Some ?i")
    case True
    have "steps cr p (closeConn p)" by (rule still_steps) (simp add: still_defs)
    with True show ?thesis by (simp add: onBlock_def)
  next
    case asked: False
    show ?thesis
    proof (cases "\<not> pr_ibd p \<and> CheckpointsEnabled \<and> Height header < LatestCheckpointHeight")
      case True
      let ?q = "q\<lparr>ignoreBlocks := List.insert ?i (ignoreBlocks q)\<rparr>"
      let ?p' = "if length (ignoreBlocks ?q) > maxBlocksPerInv then closeConn ?q else ?q"
      have "moves q ?p'" by (rule ignore_moves) (use nc q(4) in simp_all)
      then have "steps cr q ?p'" by (rule moves_steps) (simp add: closeConn_def)
      with steps_trans [OF qs this] asked True q(1) show ?thesis by (auto simp: onBlock_def bindO_def Let_def)
    next
      case high: False
      have sp: "bs_GetBlockHeader (pr_blockStore p) (Previous header) = Inr (bs_headers (pr_blockStore p) (Previous header))"
        using c by (simp add: pinv_def pcore_def healthy_def no_faults_def bs_GetBlockHeader_def)
      show ?thesis
      proof (cases "bs_headers (pr_blockStore p) (Previous header)")
        case None
        from orphanBlock_ok [OF r] show ?thesis
          using asked high sp None by (auto simp: onBlock_def)
      next
        case (Some hw)
        obtain x proc where x: "ProcessBlock cr (now div 10 ^ 9) ?i header txs (pr_addr p) (pr_processor p) = Some (x, proc)"
          "fed cr (pr_processor p) proc" using ProcessBlock_ok [OF nz c] by blast
        let ?s = "setProcessor proc p"
        have s: "steps cr p ?s" using setProcessor_steps(1) [OF x(2)] .
        then have ds: "dl_inv ?s" using moves_inv [OF _ inv] by (simp add: steps_def)
        obtain t where t: "release ?i ?s = (Inr (), t)" "steps cr ?s t" "dl_inv t" by (rule release_steps [OF ds])
        obtain u p' where u: "processDownloadQueue now t = Some (u, p')" "steps cr t p'" by (rule pdq_steps [OF t(3)])
        have sp': "steps cr p p'" using steps_trans [OF steps_trans [OF s t(2)] u(2)] .
        have b: "onBlock cr now header txs p = (case x of Inl e \<Rightarrow> Some (Inl e, closeConn ?s)
            | Inr _ \<Rightarrow> bindO (Some (release ?i ?s)) (\<lambda>_ p. bindO (processDownloadQueue now p) (\<lambda>_ p. Some (Inr True, p))))"
          using asked high Some x(1) sp by (auto simp: onBlock_def split: sum.splits)
        show ?thesis
          using sp' setProcessor_steps(2) [OF x(2)] t(1) u(1) unfolding b
          by (cases x; cases u) (auto simp: bindO_def)
      qed
    qed
  qed
qed

section \<open>Every event of a connection\<close>

lemma goOn_steps:
  assumes "\<exists>r p'. m = Some (r, p') \<and> steps cr p p'"
  shows "\<exists>r p'. goOn m = Some (r, p') \<and> steps cr p p'"
proof -
  obtain r p' where "m = Some (r, p')" "steps cr p p'" using assms by blast
  then show ?thesis by (cases r) (simp_all add: goOn_def)
qed

lemma goOn_still:
  assumes "\<And>r p'. m = (r, p') \<Longrightarrow> still p p'"
  shows "\<exists>r p'. goOn (Some m) = Some (r, p') \<and> steps cr p p'"
proof (rule goOn_steps)
  obtain r p' where "m = (r, p')" by fastforce
  with assms still_steps show "\<exists>r p'. Some m = Some (r, p') \<and> steps cr p p'" by blast
qed

lemma onPushTransaction_ok: "onPushTransaction cr tx p = (r, p') \<Longrightarrow> steps cr p p'"
proof -
  assume o: "onPushTransaction cr tx p = (r, p')"
  obtain s proc where s: "processTransaction cr (tx_ID cr tx) tx (pr_addr p) (pr_processor p) = (s, proc)" by fastforce
  then have f: "fed cr (pr_processor p) proc"
    using fed.tx [OF fed.none, of cr 0 tx "pr_addr p" "pr_processor p" s proc] by (simp add: run_turn_def)
  have t: "steps cr p (setProcessor proc p)" "steps cr p (send m (setProcessor proc p))" "steps cr p (send m p)" for m
    using setProcessor_steps(1) [OF f] by (simp_all add: send_steps)
  from o s t show "steps cr p p'" by (auto simp: onPushTransaction_def Let_def split: if_splits sum.splits)
qed

lemma onSubmitWork_ok:
  assumes "noZeroID cr" "ready cr gid prune p"
  shows "\<exists>r p'. onSubmitWork cr now n header p = Some (r, p') \<and> steps cr p p'"
proof -
  obtain chain where c: "pinv cr gid prune chain (pr_processor p)" using assms(2) by (auto simp: ready_def)
  have w: "\<exists>r p'. Some (workResult n x q) = Some (r, p') \<and> steps cr p p'" if "steps cr p q" for x q
  proof -
    obtain r p' where "workResult n x q = (r, p')" by fastforce
    with still_work(2) [OF this] steps_trans [OF that still_steps] show ?thesis by blast
  qed
  show ?thesis
  proof (cases "n = 0 \<or> n \<noteq> pr_workID p \<or> pr_workBlock p = None")
    case True
    then show ?thesis using w [OF steps_refl] by (auto simp: onSubmitWork_def Let_def)
  next
    case False
    then obtain b where b: "pr_workBlock p = Some b" by blast
    let ?p = "p\<lparr>pr_workBlock := Some (b\<lparr>Header := header\<rparr>)\<rparr>"
    obtain x proc where x: "ProcessBlock cr now (header_ID cr header) header (map Some (Transactions b)) (pr_addr p) (pr_processor p) = Some (x, proc)"
      "fed cr (pr_processor p) proc" using ProcessBlock_ok [OF assms(1) c] by blast
    have "steps cr p ?p" by (rule still_steps) (simp add: still_defs)
    moreover have "steps cr ?p (setProcessor proc ?p)" by (rule setProcessor_steps(1)) (simp add: x(2))
    ultimately have "steps cr p (setProcessor proc ?p)" by (rule steps_trans)
    from w [OF this, of x] False b x(1) show ?thesis by (simp add: onSubmitWork_def Let_def)
  qed
qed

lemma onRequest_ok:
  assumes nz: "noZeroID cr" and r: "ready cr gid prune p" and nc: "\<not> pr_closed p"
  shows "\<exists>r p'. onRequest cr cf now req p = Some (r, p') \<and> steps cr p p'"
proof (cases req)
  case (InvBlock ids)
  have "\<exists>r p'. invBlocks now 0 (length ids) ids p = Some (r, p') \<and> steps cr p p'"
    using invBlocks_ok [OF r] moves_steps by blast
  from goOn_steps [OF this] InvBlock show ?thesis by (simp add: onRequest_def)
next
  case (BlockReceived b)
  show ?thesis
  proof (cases "\<exists>h txs. b = Some (Some h, txs)")
    case True
    then obtain h txs where b: "b = Some (Some h, txs)" by blast
    obtain x q where q: "onBlock cr now h txs p = Some (x, q)" "steps cr p q" using onBlock_ok [OF nz r nc] by blast
    have "steps cr q (q\<lparr>pr_lastNewBlock := now\<rparr>)" by (rule still_steps) (simp add: still_defs)
    with steps_trans [OF q(2) this] q BlockReceived b show ?thesis
      by (cases x) (auto simp: onRequest_def goOn_def)
  next
    case False
    with BlockReceived show ?thesis by (auto simp: onRequest_def split: option.splits)
  qed
next
  case (PushTransaction tx)
  show ?thesis
  proof (cases tx)
    case None
    with PushTransaction show ?thesis by (simp add: onRequest_def)
  next
    case (Some t)
    have "\<exists>r p'. Some (onPushTransaction cr t p) = Some (r, p') \<and> steps cr p p'"
      using onPushTransaction_ok [of cr t p] by (cases "onPushTransaction cr t p") blast
    from goOn_steps [OF this] PushTransaction Some show ?thesis by (simp add: onRequest_def)
  qed
next
  case (GetBlock i)
  with goOn_still [OF still_getBlock] show ?thesis by (simp add: onRequest_def)
next
  case (GetBlockByHeight h)
  with goOn_still [OF still_byHeight [OF _ still_getBlock]] show ?thesis by (simp add: onRequest_def onGetBlockByHeight_def)
next
  case (FindCommonAncestor ids)
  with goOn_still [OF still_findCommonAncestors] show ?thesis by (simp add: onRequest_def)
next
  case (GetBlockHeader i)
  with goOn_still [OF still_getBlockHeader] show ?thesis by (simp add: onRequest_def)
next
  case (GetBlockHeaderByHeight h)
  with goOn_still [OF still_byHeight [OF _ still_getBlockHeader]] show ?thesis by (simp add: onRequest_def onGetBlockHeaderByHeight_def)
next
  case (GetBalance k)
  with goOn_still [OF still_balances(1)] show ?thesis by (simp add: onRequest_def)
next
  case (GetBalances ks)
  with goOn_still [OF still_balances(2)] show ?thesis by (simp add: onRequest_def)
next
  case (GetPublicKeyTransactions k s e x n)
  with goOn_still [OF still_history] show ?thesis by (simp add: onRequest_def)
next
  case (GetTransaction i)
  with goOn_still [OF still_lookups(1)] show ?thesis by (simp add: onRequest_def)
next
  case GetTipHeader
  with goOn_still [OF still_lookups(2)] show ?thesis by (simp add: onRequest_def)
next
  case (FilterLoad t b)
  with goOn_still [OF still_filters(1)] show ?thesis by (simp add: onRequest_def)
next
  case (FilterAdd ks)
  with goOn_still [OF still_filters(2)] show ?thesis by (simp add: onRequest_def)
next
  case GetFilterTransactionQueue
  with goOn_still [OF still_filters(3)] show ?thesis by (simp add: onRequest_def)
next
  case GetPeerAddresses
  with goOn_still [OF still_filters(4)] show ?thesis by (simp add: onRequest_def)
next
  case (PeerAddresses as)
  with still_steps [OF still_filters(5)] show ?thesis by (simp add: onRequest_def)
next
  case (SubmitWork n h)
  show ?thesis
  proof (cases h)
    case (Some header)
    have "steps cr p (p\<lparr>pr_submitWork := pr_submitWork p @ [(n, header)]\<rparr>)" by (rule still_steps) (simp add: still_defs)
    with SubmitWork Some show ?thesis by (simp add: onRequest_def)
  qed (simp add: SubmitWork onRequest_def)
next
  case (GetWork ks m)
  have "steps cr p (p\<lparr>pr_getWork := pr_getWork p @ [(ks, m)]\<rparr>)" by (rule still_steps) (simp add: still_defs)
  with GetWork show ?thesis by (simp add: onRequest_def)
next
  case GetTransactionRelayPolicy
  have "steps cr p (send m p)" for m by (rule send_steps) simp
  with GetTransactionRelayPolicy show ?thesis by (simp add: onRequest_def)
qed (simp_all add: onRequest_def)

lemma readMessage_ok:
  assumes nz: "noZeroID cr" and r: "ready cr gid prune p"
  shows "\<exists>r p'. readMessage cr cf w now text p = Some (r, p') \<and> steps cr p p'"
proof (cases "pr_closed p \<or> pr_readLimit p > 0 \<and> int (length text) > pr_readLimit p \<or> \<not> utf8_valid text")
  case True
  then show ?thesis using closeConn_steps [OF steps_refl] by (auto simp: readMessage_def)
next
  case False
  then have nc: "\<not> pr_closed p" by simp
  show ?thesis
  proof (cases "w_frame w text")
    case (Inl e)
    with False show ?thesis using closeConn_steps [OF steps_refl] by (auto simp: readMessage_def)
  next
    case (Inr f)
    obtain ty body where f: "f = (ty, body)" by fastforce
    show ?thesis
    proof (cases "parseRequest w ty body")
      case Inl': (Inl e)
      with Inr f False show ?thesis using closeConn_steps [OF steps_refl] by (auto simp: readMessage_def)
    next
      case (Inr req)
      obtain x q where q: "onRequest cr cf now req p = Some (x, q)" "steps cr p q" using onRequest_ok [OF nz r nc] by blast
      have "\<exists>r p'. bindO (onRequest cr cf now req p) (\<lambda>ok p. Some (Inr (), if ok then p else closeConn p)) = Some (r, p') \<and> steps cr p p'"
        using q closeConn_steps [OF q(2)] by (cases x) (auto simp: bindO_def)
      then show ?thesis
        using Inr \<open>w_frame w text = Inr f\<close> f False closeConn_steps [OF steps_refl] by (auto simp: readMessage_def)
    qed
  qed
qed

lemma onPong_ok:
  assumes r: "ready cr gid prune p"
  shows "\<exists>r p'. onPong now p = Some (r, p') \<and> steps cr p p'"
proof (cases "pr_closed p \<or> pr_ibd p")
  case True
  have s: "steps cr p (p\<lparr>pr_ibd := b\<rparr>)" for b by (rule still_steps) (simp add: still_defs)
  from True s closeConn_steps [OF s] closeConn_steps [OF steps_refl] show ?thesis
    by (auto simp: onPong_def Let_def split: sum.splits)
next
  case False
  obtain x q where q: "processDownloadQueue now p = Some (x, q)" "steps cr p q"
    using pdq_steps [of p now cr thesis] r by (auto simp: ready_def)
  with closeConn_steps [OF q(2)] False show ?thesis by (cases x) (auto simp: onPong_def)
qed

lemma onConnected_ok:
  assumes r: "ready cr gid prune p"
  shows "\<exists>r p'. onConnected p = Some (r, p') \<and> steps cr p p'"
proof -
  obtain chain where c: "pinv cr gid prune chain (pr_processor p)" using r by (auto simp: ready_def)
  obtain x q where q: "sendFindCommonAncestor None p = Some (x, q)" using sendFindCommonAncestor_total [OF c, of None] by auto
  have s: "still p q" by (rule still_sendFindCommonAncestor [OF q])
  have "steps cr p (send m q)" "steps cr p (send m (closeConn q))" for m
    using still_steps [OF s] by (simp_all add: send_steps closeConn_steps)
  with q show ?thesis by (cases x) (auto simp: onConnected_def)
qed

lemma onTipNotice_ok: "onTipNotice cr cf now ch tip p = (r, p') \<Longrightarrow> still p p'"
proof -
  assume o: "onTipNotice cr cf now ch tip p = (r, p')"
  show ?thesis
    using o unfolding onTipNotice_def
  proof (rule still_bindS)
    show "still p q" if "updateReadLimit now p = (x, q)" for x q using still_work(3) [OF that] .
  next
    fix x q r p'
    assume "bindS (if tc_Connect tip \<and> \<not> tc_More tip
              then logged (createNewWorkBlock cr ch (tc_BlockID tip) (Some (Header (tc_Block tip))) q) else (Inr (), q)) (\<lambda>_ p.
         if tc_Source tip = pr_addr p then (Inr (), p)
         else let p = (if tc_Connect tip then send (InvBlockMessage [tc_BlockID tip]) p else p)
              in (Inr (), case createFilterBlock cf (tc_BlockID tip) (tc_Block tip) p of
                     None \<Rightarrow> p
                   | Some fb \<Rightarrow> send (if tc_Connect tip then FilterBlockMessage fb else FilterBlockUndoMessage fb) p)) = (r, p')"
    then show "still q p'"
    proof (rule still_bindS)
      show "still q q'" if "(if tc_Connect tip \<and> \<not> tc_More tip
              then logged (createNewWorkBlock cr ch (tc_BlockID tip) (Some (Header (tc_Block tip))) q) else (Inr (), q)) = (y, q')" for y q'
        using that still_newWork by (auto split: if_splits)
    next
      fix y q' r p'
      assume "(if tc_Source tip = pr_addr q' then (Inr (), q')
         else let p = (if tc_Connect tip then send (InvBlockMessage [tc_BlockID tip]) q' else q')
              in (Inr (), case createFilterBlock cf (tc_BlockID tip) (tc_Block tip) p of
                     None \<Rightarrow> p
                   | Some fb \<Rightarrow> send (if tc_Connect tip then FilterBlockMessage fb else FilterBlockUndoMessage fb) p)) = (r, p')"
      then show "still q' p'" by (auto simp: Let_def still_defs split: if_splits option.splits)
    qed
  qed
qed

lemma dropInflight_ok:
  assumes "dl_inv p"
  shows "\<exists>p'. dropInflight p = Some (Inr (), p') \<and> moves p p' \<and> pr_processor p' = pr_processor p \<and> bq_ids (localInflightQueue p') = []"
  using assms
proof (induction "length (bq_ids (localInflightQueue p))" arbitrary: p rule: less_induct)
  case less
  show ?case
  proof (cases "bq_ids (localInflightQueue p)")
    case Nil
    then show ?thesis by (subst dropInflight.simps) (simp add: Peek_ids)
  next
    case (Cons i rest)
    obtain q where q: "release i p = (Inr (), q)" "moves p q" "pr_processor q = pr_processor p"
      "bq_ids (localInflightQueue q) = filter (\<lambda>j. j \<noteq> i) (bq_ids (localInflightQueue p))" by (rule release_ok [OF less.prems])
    have "length (bq_ids (localInflightQueue q)) < length (bq_ids (localInflightQueue p))" "dl_inv q"
      using q(2,4) less.prems by (auto simp: Cons moves_def le_imp_less_Suc)
    from less.hyps [OF this] obtain p' where "dropInflight q = Some (Inr (), p')" "moves q p'" "pr_processor p' = pr_processor q"
      "bq_ids (localInflightQueue p') = []" by blast
    moreover have "dropInflight p = dropInflight q" by (subst dropInflight.simps) (simp add: Peek_ids Cons q(1))
    ultimately show ?thesis using q(2,3) by (auto intro: moves_trans)
  qed
qed

lemma disconnect_ok:
  assumes "dl_inv p"
  shows "\<exists>r p'. disconnect p = Some (r, p') \<and> steps cr p p' \<and> bq_ids (localInflightQueue p') = []"
proof -
  have m: "moves p (closeConn p)" by (rule idle_moves) (simp add: idle_def closeConn_def)
  from moves_inv [OF this assms] have "dl_inv (closeConn p)" .
  from dropInflight_ok [OF this] obtain q where q: "dropInflight (closeConn p) = Some (Inr (), q)" "moves (closeConn p) q"
    "pr_processor q = pr_processor (closeConn p)" "bq_ids (localInflightQueue q) = []" by blast
  have s: "steps cr p q" by (rule moves_steps [OF moves_trans [OF m q(2)]]) (simp add: q(3) closeConn_def)
  obtain r p' where l: "logged (onPeerStore (OnDisconnect (str (pr_addr q))) q) = (r, p')" by fastforce
  have t: "still q p'" using l by (rule still_logged) (rule still_onPeerStore)
  then have "bq_ids (localInflightQueue p') = []" using q(4) by (simp add: still_def idle_def)
  with steps_trans [OF s still_steps [OF t]] s q l show ?thesis
    by (auto simp: disconnect_def bindO_def)
qed

lemma peer_turn_ok:
  assumes nz: "noZeroID cr" and r: "ready cr gid prune p"
  shows "\<exists>r p'. peer_turn cr cf w c now ev p = Some (r, p') \<and> steps cr p p'"
proof -
  have st: "\<exists>r p'. Some m = Some (r, p') \<and> steps cr p p'" if "\<And>r p'. m = (r, p') \<Longrightarrow> still p p'" for m
    using that still_steps by (cases m) blast
  have sf: "steps cr p (p\<lparr>pr_getWork := x\<rparr>)" "steps cr p (p\<lparr>pr_submitWork := y\<rparr>)" for x y
    by (rule still_steps, simp add: still_defs)+
  show ?thesis
  proof (cases ev)
    case (TextMessage msg)
    with readMessage_ok [OF nz r] show ?thesis by (simp add: peer_turn_def)
  next
    case Pong
    with onPong_ok [OF r] show ?thesis by (simp add: peer_turn_def)
  next
    case (TipChanged tip ch)
    with st [OF onTipNotice_ok] show ?thesis by (simp add: peer_turn_def)
  next
    case (NewTxArrived tx)
    with still_steps [OF still_filters(6)] show ?thesis by (simp add: peer_turn_def)
  next
    case Connected
    with onConnected_ok [OF r] show ?thesis by (simp add: peer_turn_def)
  next
    case (TakeGetWork ch)
    show ?thesis
    proof (cases "pr_getWork p")
      case (Cons km rest)
      obtain ks m where km: "km = (ks, m)" by fastforce
      obtain x q where q: "onGetWork cr ch ks m (p\<lparr>pr_getWork := rest\<rparr>) = (x, q)" by fastforce
      with steps_trans [OF sf(1) still_steps [OF still_getWork [OF q]]] TakeGetWork Cons km show ?thesis by (simp add: peer_turn_def)
    qed (simp add: TakeGetWork peer_turn_def)
  next
    case TakeSubmitWork
    show ?thesis
    proof (cases "pr_submitWork p")
      case (Cons nh rest)
      obtain n h where nh: "nh = (n, h)" by fastforce
      let ?q = "p\<lparr>pr_submitWork := rest\<rparr>"
      from onSubmitWork_ok [OF nz steps_ready [OF sf(2) nz r]] obtain x q where
        q: "onSubmitWork cr (now div 10 ^ 9) n h ?q = Some (x, q)" "steps cr ?q q" by blast
      with steps_trans [OF sf(2) q(2)] TakeSubmitWork Cons nh show ?thesis by (simp add: peer_turn_def)
    qed (simp add: TakeSubmitWork peer_turn_def)
  next
    case PeerStoreRefresh
    let ?m = "onPeerStore (OnConnectSuccess c (now div 10 ^ 9) (str (pr_addr p))) p"
    obtain x q where q: "logged ?m = (x, q)" by fastforce
    have "still p q" using q by (rule still_logged) (rule still_onPeerStore)
    with still_steps q PeerStoreRefresh show ?thesis by (auto simp: peer_turn_def)
  next
    case AskAddresses
    with send_steps [OF steps_refl] show ?thesis by (simp add: peer_turn_def)
  next
    case (UpdateWorkCheck ch)
    with st [OF still_updateWork] show ?thesis by (simp add: peer_turn_def)
  next
    case Disconnected
    with disconnect_ok [of p cr] r show ?thesis by (auto simp: peer_turn_def ready_def)
  qed
qed

section \<open>Any number of connections\<close>

text \<open>
  The connections of a node, numbered, and what they share. A connection is accepted or dialled; its events, and the
  node's own work, which gives the processor blocks of the miner and stores addresses, interleave in any order. When a
  connection ends it is gone.
\<close>

inductive network :: "crypto \<Rightarrow> 'f cuckoo \<Rightarrow> wire \<Rightarrow> info_codec \<Rightarrow> block_id \<Rightarrow> node \<Rightarrow> node \<Rightarrow> (nat \<rightharpoonup> 'f peer) \<Rightarrow> bool"
  for cr cf w c gid n0 where
  start: "network cr cf w c gid n0 n0 Map.empty"
| accept: "network cr cf w c gid n0 n conns \<Longrightarrow> conns k = None \<Longrightarrow> NewPeer now a gid n = (Inr (), p) \<Longrightarrow>
    network cr cf w c gid n0 n (conns(k \<mapsto> startReader t p))"
| dial: "network cr cf w c gid n0 n conns \<Longrightarrow> conns k = None \<Longrightarrow> NewPeer now a gid n = (Inr (), p) \<Longrightarrow>
    Connect c t Dialled addr p = (code, Inr (), p') \<Longrightarrow> network cr cf w c gid n0 (pr_node p') (conns(k \<mapsto> startReader t p'))"
| event: "network cr cf w c gid n0 n conns \<Longrightarrow> conns k = Some p \<Longrightarrow> ev \<noteq> Disconnected \<Longrightarrow>
    peer_turn cr cf w c now ev (p\<lparr>pr_node := n\<rparr>) = Some (r, p') \<Longrightarrow> network cr cf w c gid n0 (pr_node p') (conns(k \<mapsto> p'))"
| ended: "network cr cf w c gid n0 n conns \<Longrightarrow> conns k = Some p \<Longrightarrow>
    peer_turn cr cf w c now Disconnected (p\<lparr>pr_node := n\<rparr>) = Some (r, p') \<Longrightarrow> network cr cf w c gid n0 (pr_node p') (conns(k := None))"
| local: "network cr cf w c gid n0 n conns \<Longrightarrow> fed cr (n_processor n) (n_processor n') \<Longrightarrow> n_inflight n' = n_inflight n \<Longrightarrow>
    network cr cf w c gid n0 n' conns"

definition nw_inv :: "crypto \<Rightarrow> block_id \<Rightarrow> bool \<Rightarrow> node \<Rightarrow> (nat \<rightharpoonup> 'f peer) \<Rightarrow> bool" where
  "nw_inv cr gid prune n conns \<longleftrightarrow> (\<exists>chain. pinv cr gid prune chain (n_processor n)) \<and> bq_inv (n_inflight n)
     \<and> (\<forall>k p. conns k = Some p \<longrightarrow> dl_inv (p\<lparr>pr_node := n\<rparr>))
     \<and> (\<forall>i a t. owner (n_inflight n) i = Some (a, t) \<longrightarrow> (\<exists>k p. conns k = Some p \<and> pr_addr p = a \<and> i \<in> inflight p))"

lemma nw_inv_parts:
  assumes "nw_inv cr gid prune n conns"
  shows "\<exists>chain. pinv cr gid prune chain (n_processor n)" "bq_inv (n_inflight n)"
    "conns k = Some p \<Longrightarrow> dl_inv (p\<lparr>pr_node := n\<rparr>)"
    "owner (n_inflight n) i = Some (a, t) \<Longrightarrow> \<exists>k p. conns k = Some p \<and> pr_addr p = a \<and> i \<in> inflight p"
  using assms unfolding nw_inv_def by blast+

lemma NewPeer_ok:
  assumes "NewPeer now a gid n = (r, p)"
  shows "pr_node p = n \<and> pr_addr p = a \<and> localDownloadQueue p = NewBlockQueue \<and> localInflightQueue p = NewBlockQueue
    \<and> ignoreBlocks p = [] \<and> pr_sent p = []"
  using assms by (auto simp: NewPeer_def updateReadLimit_def split: sum.splits if_splits)

lemma startReader_still: "still p (startReader t p)" "pr_node (startReader t p) = pr_node p"
  by (auto simp: startReader_def still_defs split: sum.splits)

lemma Connect_still:
  assumes "Connect c t d addr p = (code, r, p')"
  shows "still p p'"
proof -
  have l: "still q q'" if "logged (onPeerStore f q) = (x, q')" for f :: "peer_storage \<Rightarrow> unit result \<times> peer_storage" and q q' x
    using that by (rule still_logged) (rule still_onPeerStore)
  obtain x q where q: "onPeerStore (OnConnectAttempt c (t div 10 ^ 9) addr) p = (x, q)" by fastforce
  note s = still_onPeerStore [OF q]
  show ?thesis
  proof (cases x)
    case (Inl e)
    with assms q s show ?thesis by (simp add: Connect_def)
  next
    case x: (Inr u)
    show ?thesis
    proof (cases d)
      case Dialled
      let ?q = "q\<lparr>pr_outbound := True\<rparr>"
      from assms q x Dialled have "onPeerStore (OnConnectSuccess c (t div 10 ^ 9) addr) ?q = (r, p')" by (simp add: Connect_def)
      from still_onPeerStore [OF this] have "still q p'" by (simp add: still_defs)
      with s show ?thesis by (rule still_trans)
    next
      case (DialRefused k)
      have "still q p'"
      proof (cases "k = StatusTooManyRequests")
        case True
        with assms q x DialRefused have m: "bindS (logged (onPeerStore (OnConnectSuccess c (t div 10 ^ 9) addr) q)) (\<lambda>_ p.
            bindS (logged (onPeerStore (OnDisconnect addr) p)) (\<lambda>_ p. (Inl (Err ''bad handshake''), p))) = (r, p')" by (simp add: Connect_def)
        have b: "still y p'" if "bindS (logged (onPeerStore (OnDisconnect addr) y)) (\<lambda>_ p. (Inl (Err ''bad handshake'') :: unit result, p)) = (r', p')" for y r' p'
          using that by (rule still_bindS) (auto dest: l)
        from m show ?thesis by (rule still_bindS) (auto dest: l b)
      next
        case False
        with assms q x DialRefused have "bindS (logged (onPeerStore (OnConnectFailure c t addr) q)) (\<lambda>_ p. (Inl (Err ''dial failed''), p)) = (r, p')"
          by (simp add: Connect_def)
        then show ?thesis by (rule still_bindS) (auto dest: l)
      qed
      with s show ?thesis by (rule still_trans)
    qed
  qed
qed

lemma dl_inv_node: "dl_inv (p\<lparr>pr_node := n\<rparr>) \<Longrightarrow> bq_inv (n_inflight n') \<Longrightarrow> dl_inv (p\<lparr>pr_node := n'\<rparr>)"
  by (simp add: dl_inv_def)

text \<open>One connection moves; the others keep what they have.\<close>

lemma nw_event:
  assumes inv: "nw_inv cr gid prune n conns" and nz: "noZeroID cr" and k: "conns k = Some p" and s: "steps cr (p\<lparr>pr_node := n\<rparr>) p'"
  shows "nw_inv cr gid prune (pr_node p') (conns(k \<mapsto> p'))"
proof -
  note d = nw_inv_parts [OF inv]
  have f: "fed cr (n_processor n) (pr_processor p')" and m: "pr_addr p' = pr_addr p" "dl_inv p'"
    "\<And>i a t. owner (globalQueue p') i = Some (a, t) \<Longrightarrow> owner (n_inflight n) i = Some (a, t) \<or> a = pr_addr p \<and> i \<in> inflight p'"
    "\<And>i t. i \<in> inflight p \<Longrightarrow> i \<notin> inflight p' \<Longrightarrow> owner (globalQueue p') i \<noteq> Some (pr_addr p, t)"
    using s d(3) [OF k] by (auto simp: steps_def moves_def)
  have g: "bq_inv (globalQueue p')" using m(2) by (simp add: dl_inv_def)
  show ?thesis
    unfolding nw_inv_def
  proof (intro conjI allI impI)
    show "\<exists>chain. pinv cr gid prune chain (pr_processor p')" using fed_pinv [OF f nz] d(1) by blast
    show "bq_inv (globalQueue p')" by (rule g)
    show "dl_inv (q\<lparr>pr_node := pr_node p'\<rparr>)" if "(conns(k \<mapsto> p')) j = Some q" for j q
      using that m(2) dl_inv_node [OF d(3) g] by (cases "j = k") auto
    show "\<exists>j q. (conns(k \<mapsto> p')) j = Some q \<and> pr_addr q = a \<and> i \<in> inflight q" if o: "owner (globalQueue p') i = Some (a, t)" for i a t
    proof (cases "a = pr_addr p \<and> i \<in> inflight p'")
      case True
      with m(1) show ?thesis by (intro exI [of _ k] exI [of _ p']) simp
    next
      case False
      with m(3) [OF o] have "owner (n_inflight n) i = Some (a, t)" by blast
      with d(4) obtain j q where q: "conns j = Some q" "pr_addr q = a" "i \<in> inflight q" by blast
      show ?thesis
      proof (cases "j = k")
        case True
        with q k have "q = p" by simp
        with q m(4) [of i] False o show ?thesis by blast
      qed (use q in auto)
    qed
  qed
qed

lemma nw_connect:
  assumes inv: "nw_inv cr gid prune n conns" and k: "conns k = None" and n: "NewPeer now a gid n = (r, p)"
    and s: "still p p'"
  shows "nw_inv cr gid prune (pr_node p') (conns(k \<mapsto> p'))"
proof -
  note new = NewPeer_ok [OF n] and d = nw_inv_parts [OF inv]
  have g: "globalQueue p' = n_inflight n" "pr_processor p' = n_processor n" using s new by (auto simp: still_def idle_def)
  have "dl_inv p" using new d(2) by (simp add: dl_inv_def new_queue)
  then have p': "dl_inv p'" using moves_inv [OF idle_moves] s by (auto simp: still_def)
  show ?thesis
    unfolding nw_inv_def
  proof (intro conjI allI impI)
    show "\<exists>chain. pinv cr gid prune chain (pr_processor p')" using d(1) g(2) by simp
    show b: "bq_inv (globalQueue p')" using d(2) g(1) by simp
    show "dl_inv (q\<lparr>pr_node := pr_node p'\<rparr>)" if "(conns(k \<mapsto> p')) j = Some q" for j q
      using that p' dl_inv_node [OF d(3) b] by (cases "j = k") auto
    show "\<exists>j q. (conns(k \<mapsto> p')) j = Some q \<and> pr_addr q = a \<and> i \<in> inflight q" if "owner (globalQueue p') i = Some (a, t)" for i a t
    proof -
      have "owner (n_inflight n) i = Some (a, t)" using that g(1) by simp
      from d(4) [OF this] obtain j q where "conns j = Some q" "pr_addr q = a" "i \<in> inflight q" by blast
      with k show ?thesis by (intro exI [of _ j] exI [of _ q]) auto
    qed
  qed
qed

lemma network_inv:
  assumes "network cr cf w c gid n0 n conns" "noZeroID cr" "\<exists>chain. pinv cr gid prune chain (n_processor n0)"
    "n_inflight n0 = NewBlockQueue"
  shows "nw_inv cr gid prune n conns"
  using assms(1)
proof (induction rule: network.induct)
  case start
  then show ?case using assms by (simp add: nw_inv_def new_queue)
next
  case (accept n conns k now a p t)
  have n: "pr_node p = n" using NewPeer_ok [OF accept.hyps(3)] by blast
  from nw_connect [OF accept.IH accept.hyps(2,3) startReader_still(1), of t] show ?case
    unfolding startReader_still(2) n .
next
  case (dial n conns k now a p t addr code p')
  from nw_connect [OF dial.IH dial.hyps(2,3) still_trans [OF Connect_still [OF dial.hyps(4)] startReader_still(1)]] show ?case
    unfolding startReader_still(2) .
next
  case (event n conns k p ev now r p')
  have "ready cr gid prune (p\<lparr>pr_node := n\<rparr>)" using event.IH event.hyps(2) by (auto simp: ready_def nw_inv_def)
  from peer_turn_ok [OF assms(2) this, of cf w c now ev] event.hyps(4) have "steps cr (p\<lparr>pr_node := n\<rparr>) p'" by simp
  from nw_event [OF event.IH assms(2) event.hyps(2) this] show ?case .
next
  case (ended n conns k p now r p')
  from disconnect_ok [OF nw_inv_parts(3) [OF ended.IH ended.hyps(2)], of cr] ended.hyps(3)
  have s: "steps cr (p\<lparr>pr_node := n\<rparr>) p'" and e: "bq_ids (localInflightQueue p') = []"
    by (auto simp: peer_turn_def)
  note v = nw_inv_parts [OF nw_event [OF ended.IH assms(2) ended.hyps(2) s]]
  show ?case
    unfolding nw_inv_def
  proof (intro conjI allI impI)
    show "dl_inv (q\<lparr>pr_node := pr_node p'\<rparr>)" if "(conns(k := None)) j = Some q" for j q
      using that v(3) [of j q] by (cases "j = k") auto
    show "\<exists>j q. (conns(k := None)) j = Some q \<and> pr_addr q = a \<and> i \<in> inflight q" if o: "owner (globalQueue p') i = Some (a, t)" for i a t
    proof -
      obtain j q where q: "(conns(k \<mapsto> p')) j = Some q" "pr_addr q = a" "i \<in> inflight q" using v(4) [OF o] by blast
      then have "j \<noteq> k" using e by auto
      with q show ?thesis by (intro exI [of _ j] exI [of _ q]) auto
    qed
  qed (rule v(1,2))+
next
  case (local n conns n')
  note d = nw_inv_parts [OF local.IH]
  have "\<exists>chain. pinv cr gid prune chain (n_processor n')" using fed_pinv [OF local.hyps(2) assms(2)] d(1) by blast
  moreover have "dl_inv (q\<lparr>pr_node := n'\<rparr>)" if "conns j = Some q" for j q
    using dl_inv_node [OF d(3) [OF that]] d(2) local.hyps(3) by simp
  ultimately show ?case using d(2,4) local.hyps(3) by (simp add: nw_inv_def)
qed

end
