(* ===== verification/Peer_Manager.thy ===== *)
theory Peer_Manager
  imports Peer_Download
begin

text \<open>
  \<^verbatim>\<open>src/peer_manager.go\<close>: the sets of inbound and outbound connections, dialling peers of the storage, and the handler of
  inbound requests. Addresses are byte strings. The functions of Go's \<^verbatim>\<open>net\<close> and \<^verbatim>\<open>strconv\<close> that take addresses apart are
  modelled here; name resolution, dialling, the external address, the clock and random numbers are arguments.

  A peer object is the number of its connection. The handler of an inbound request runs in a goroutine of its own and
  takes the lock of the inbound set twice, to check the limit of the host and to enter the peer; these are two events,
  between which other requests may come.
\<close>

section \<open>Addresses\<close>

fun indexByte :: "byte \<Rightarrow> bytes \<Rightarrow> nat option" where
  "indexByte b [] = None"
| "indexByte b (x # xs) = (if x = b then Some 0 else map_option Suc (indexByte b xs))"

definition lastIndexByte :: "byte \<Rightarrow> bytes \<Rightarrow> nat option" where
  "lastIndexByte b xs = map_option (\<lambda>i. length xs - 1 - i) (indexByte b (rev xs))"

definition SplitHostPort :: "bytes \<Rightarrow> (bytes \<times> bytes) result" where
  "SplitHostPort hostport =
     (case lastIndexByte 58 hostport of
        None \<Rightarrow> Inl (Err ''missing port in address'')
      | Some i \<Rightarrow>
          if hd hostport = 91
          then (case indexByte 93 hostport of
                  None \<Rightarrow> Inl (Err ''missing ']' in address'')
                | Some e \<Rightarrow>
                    if e + 1 = length hostport then Inl (Err ''missing port in address'')
                    else if e + 1 \<noteq> i
                    then Inl (Err (if hostport ! (e + 1) = 58 then ''too many colons in address'' else ''missing port in address''))
                    else if indexByte 91 (drop 1 hostport) \<noteq> None then Inl (Err ''unexpected '[' in address'')
                    else if indexByte 93 (drop (e + 1) hostport) \<noteq> None then Inl (Err ''unexpected ']' in address'')
                    else Inr (drop 1 (take e hostport), drop (i + 1) hostport))
          else if indexByte 58 (take i hostport) \<noteq> None then Inl (Err ''too many colons in address'')
          else if indexByte 91 hostport \<noteq> None then Inl (Err ''unexpected '[' in address'')
          else if indexByte 93 hostport \<noteq> None then Inl (Err ''unexpected ']' in address'')
          else Inr (take i hostport, drop (i + 1) hostport))"

text \<open>The host where the error is ignored.\<close>

definition hostOf :: "bytes \<Rightarrow> bytes" where
  "hostOf addr = (case SplitHostPort addr of Inl _ \<Rightarrow> [] | Inr (host, _) \<Rightarrow> host)"

definition isDigit :: "byte \<Rightarrow> bool" where
  "isDigit b \<longleftrightarrow> 48 \<le> b \<and> b \<le> 57"

definition parsePort :: "bytes \<Rightarrow> int result" where
  "parsePort s = (if s = [] \<or> \<not> list_all isDigit s then Inl (Err ''invalid syntax'')
     else if undigits s \<ge> 2 ^ 16 then Inl (Err ''value out of range'') else Inr (int (undigits s)))"

text \<open>Addresses of the Internet protocol: four bytes, or sixteen. A version 4 address may also be given in sixteen.\<close>

definition To4 :: "bytes \<Rightarrow> bytes option" where
  "To4 ip = (if length ip = 4 then Some ip
     else if length ip = 16 \<and> take 12 ip = replicate 10 0 @ [255, 255] then Some (drop 12 ip) else None)"

fun joinWith :: "byte \<Rightarrow> bytes list \<Rightarrow> bytes" where
  "joinWith sep [] = []"
| "joinWith sep [x] = x"
| "joinWith sep (x # y # xs) = x @ [sep] @ joinWith sep (y # xs)"

fun hexGroups :: "bytes \<Rightarrow> nat list" where
  "hexGroups (a # b # r) = (unat a * 256 + unat b) # hexGroups r"
| "hexGroups _ = []"

fun hexDigits :: "nat \<Rightarrow> bytes" where
  "hexDigits n = (if n < 16 then [hexdig (of_nat n)] else hexDigits (n div 16) @ [hexdig (of_nat (n mod 16))])"

declare hexDigits.simps [simp del]

definition zeroRun :: "nat list \<Rightarrow> nat \<Rightarrow> nat" where
  "zeroRun gs i = length (takeWhile (\<lambda>g. g = 0) (drop i gs))"

text \<open>The first of the longest runs of two or more zero groups is written as two colons.\<close>

definition longestRun :: "nat list \<Rightarrow> (nat \<times> nat) option" where
  "longestRun gs = (case filter (\<lambda>i. zeroRun gs i \<ge> 2 \<and> (\<forall>j \<in> set [0..<length gs]. zeroRun gs j \<le> zeroRun gs i)) [0..<length gs] of
     [] \<Rightarrow> None | i # _ \<Rightarrow> Some (i, zeroRun gs i))"

definition ip_String :: "bytes \<Rightarrow> bytes" where
  "ip_String ip =
     (if ip = [] then str ''<nil>''
      else case To4 ip of
        Some v4 \<Rightarrow> joinWith 46 (map (\<lambda>b. digits (unat b)) v4)
      | None \<Rightarrow>
          if length ip \<noteq> 16 then 63 # hex_encode ip
          else let gs = hexGroups ip
               in case longestRun gs of
                    None \<Rightarrow> joinWith 58 (map hexDigits gs)
                  | Some (i, n) \<Rightarrow> joinWith 58 (map hexDigits (take i gs)) @ [58, 58] @ joinWith 58 (map hexDigits (drop (i + n) gs)))"

text \<open>The local networks, each with the number of its leading bits.\<close>

definition privateIPBlocks :: "(bytes \<times> nat) list" where
  "privateIPBlocks = [([127, 0, 0, 0], 8), ([10, 0, 0, 0], 8), ([172, 16, 0, 0], 12), ([192, 168, 0, 0], 16),
     (replicate 15 0 @ [1], 128), ([254, 128] @ replicate 14 0, 10), ([252] @ replicate 15 0, 7)]"

fun sameBits :: "nat \<Rightarrow> bytes \<Rightarrow> bytes \<Rightarrow> bool" where
  "sameBits n (a # as) (b # bs) \<longleftrightarrow> (if n \<ge> 8 then a = b \<and> sameBits (n - 8) as bs else drop_bit (8 - n) a = drop_bit (8 - n) b)"
| "sameBits n _ _ \<longleftrightarrow> True"

definition ip_Contains :: "bytes \<times> nat \<Rightarrow> bytes \<Rightarrow> bool" where
  "ip_Contains block ip =
     (let ip = (case To4 ip of Some v4 \<Rightarrow> v4 | None \<Rightarrow> ip)
      in length ip = length (fst block) \<and> sameBits (snd block) (fst block) ip)"

definition isLocal :: "bytes \<Rightarrow> bool" where
  "isLocal ip \<longleftrightarrow> (\<exists>block \<in> set privateIPBlocks. ip_Contains block ip)"

section \<open>The manager\<close>

datatype on_close = FromOutbound bytes | FromInbound bytes

record 'f peer_manager =
  pm_node :: node
  pm_genesisID :: block_id
  myIP :: bytes
  pm_peer :: bytes
  pm_port :: int
  inboundLimit :: int
  pm_accept :: bool
  accepting :: bool
  dnsseed :: bool
  banMap :: "bytes list"
  inPeers :: "(bytes \<times> nat) list"
  inPeerCountByHost :: "bytes \<rightharpoonup> int"
  outPeers :: "(bytes \<times> nat) list"
  peerNonce :: bytes
  pm_open :: bool
  pm_next :: nat
  pm_conns :: "nat \<rightharpoonup> 'f peer"
  pm_handlers :: "nat \<rightharpoonup> on_close"
  pm_upgrading :: "string list"

definition NewPeerManager :: "block_id \<Rightarrow> node \<Rightarrow> bytes \<Rightarrow> bytes \<Rightarrow> int \<Rightarrow> int \<Rightarrow> bool \<Rightarrow> bool \<Rightarrow> bytes list \<Rightarrow> int \<Rightarrow> 'f peer_manager" where
  "NewPeerManager genesisID n myExternalIP peer port limit accept seed bans random =
     \<lparr>pm_node = n\<lparr>n_inflight := NewBlockQueue, n_addrs := []\<rparr>, pm_genesisID = genesisID, myIP = myExternalIP, pm_peer = peer,
      pm_port = port, inboundLimit = limit, pm_accept = accept, accepting = False, dnsseed = seed, banMap = bans, inPeers = [],
      inPeerCountByHost = Map.empty, outPeers = [], peerNonce = itoa (random mod 2 ^ 31), pm_open = False,
      pm_next = 0, pm_conns = Map.empty, pm_handlers = Map.empty, pm_upgrading = []\<rparr>"

definition inboundPeerCount :: "'f peer_manager \<Rightarrow> nat" where
  "inboundPeerCount pm = length (inPeers pm)"

definition outboundPeerCount :: "'f peer_manager \<Rightarrow> nat" where
  "outboundPeerCount pm = length (outPeers pm)"

definition addToOutboundSet :: "bytes \<Rightarrow> nat \<Rightarrow> 'f peer_manager \<Rightarrow> bool \<times> 'f peer_manager" where
  "addToOutboundSet addr peer pm =
     (if length (outPeers pm) = MAX_OUTBOUND_PEER_CONNECTIONS then (False, pm)
      else if addr \<in> fst ` set (outPeers pm) then (False, pm)
      else (True, pm\<lparr>outPeers := outPeers pm @ [(addr, peer)]\<rparr>))"

definition addToInboundSet :: "bytes \<Rightarrow> nat \<Rightarrow> 'f peer_manager \<Rightarrow> bool \<times> 'f peer_manager" where
  "addToInboundSet addr peer pm =
     (case SplitHostPort addr of
        Inl e \<Rightarrow> (False, pm)
      | Inr (host, _) \<Rightarrow>
          if int (length (inPeers pm)) = inboundLimit pm then (False, pm)
          else if addr \<in> fst ` set (inPeers pm) then (False, pm)
          else (True, pm\<lparr>inPeerCountByHost := (inPeerCountByHost pm)(host \<mapsto>
                 (case inPeerCountByHost pm host of None \<Rightarrow> 1 | Some hostCount \<Rightarrow> i64 (hostCount + 1))),
               inPeers := inPeers pm @ [(addr, peer)]\<rparr>))"

definition checkHostConnectionLimit :: "(bytes \<Rightarrow> bytes list result) \<Rightarrow> bytes \<Rightarrow> 'f peer_manager \<Rightarrow> bool" where
  "checkHostConnectionLimit lookup addr pm =
     (case SplitHostPort addr of
        Inl e \<Rightarrow> False
      | Inr (host, _) \<Rightarrow>
          (case lookup host of
             Inr (ip # _) \<Rightarrow> isLocal ip \<or> (case inPeerCountByHost pm host of None \<Rightarrow> True
               | Some hostCount \<Rightarrow> hostCount < int MAX_INBOUND_PEER_CONNECTIONS_FROM_SAME_HOST)
           | _ \<Rightarrow> False))"

definition existsInOutboundSet :: "bytes \<Rightarrow> 'f peer_manager \<Rightarrow> bool" where
  "existsInOutboundSet addr pm \<longleftrightarrow> addr \<in> fst ` set (outPeers pm)"

definition removeFromOutboundSet :: "bytes \<Rightarrow> 'f peer_manager \<Rightarrow> 'f peer_manager" where
  "removeFromOutboundSet addr pm = pm\<lparr>outPeers := filter (\<lambda>(a, _). a \<noteq> addr) (outPeers pm)\<rparr>"

definition removeFromInboundSet :: "bytes \<Rightarrow> 'f peer_manager \<Rightarrow> 'f peer_manager" where
  "removeFromInboundSet addr pm =
     (let host = hostOf addr; pm = pm\<lparr>inPeers := filter (\<lambda>(a, _). a \<noteq> addr) (inPeers pm)\<rparr>
      in case inPeerCountByHost pm host of
           None \<Rightarrow> pm
         | Some hostCount \<Rightarrow> pm\<lparr>inPeerCountByHost := (inPeerCountByHost pm)(host := if i64 (hostCount - 1) = 0 then None else Some (i64 (hostCount - 1)))\<rparr>)"

definition parsePeerAddress :: "(bytes \<Rightarrow> bytes list result) \<Rightarrow> bytes \<Rightarrow> 'f peer_manager \<Rightarrow> (bytes \<times> bytes) result" where
  "parsePeerAddress lookup addr pm =
     (case SplitHostPort addr of
        Inl e \<Rightarrow> Inl (Err ''Malformed peer address'')
      | Inr (host, port) \<Rightarrow>
          (case parsePort port of
             Inl e \<Rightarrow> Inl (Err ''Invalid port in peer address'')
           | Inr portInt \<Rightarrow>
               (case lookup host of
                  Inl e \<Rightarrow> Inl (Err ''Unable to resolve IP address'')
                | Inr [] \<Rightarrow> Inl (Err ''No IP address found for peer address'')
                | Inr (ip # _) \<Rightarrow>
                    if myIP pm = ip_String ip \<and> pm_port pm = portInt then Inl (Err ''Peer address is ours'')
                    else if isLocal ip then Inl (Err ''IP is in local address space'')
                    else Inr (ip_String ip, port))))"

section \<open>Connections\<close>

definition runHandler :: "on_close option \<Rightarrow> 'f peer_manager \<Rightarrow> 'f peer_manager" where
  "runHandler h pm = (case h of None \<Rightarrow> pm | Some (FromOutbound addr) \<Rightarrow> removeFromOutboundSet addr pm
     | Some (FromInbound addr) \<Rightarrow> removeFromInboundSet addr pm)"

text \<open>The end of a connection: what the peer does, then its close handler.\<close>

definition endPeer :: "nat \<Rightarrow> 'f peer_manager \<Rightarrow> (unit result \<times> 'f peer_manager) option" where
  "endPeer k pm =
     (case pm_conns pm k of
        None \<Rightarrow> Some (Inr (), pm)
      | Some p \<Rightarrow>
          map_option (\<lambda>(r, p). (r, runHandler (pm_handlers pm k)
              (pm\<lparr>pm_node := pr_node p, pm_conns := (pm_conns pm)(k := None), pm_handlers := (pm_handlers pm)(k := None)\<rparr>)))
            (disconnect (p\<lparr>pr_node := pm_node pm\<rparr>)))"

text \<open>What is met on dialling: the clock, the outcome, the remote address of the connection, and whether the manager was being shut down.\<close>

record attempts =
  at_query :: "nat \<Rightarrow> int"
  at_time :: "bytes \<Rightarrow> int"
  at_dial :: "bytes \<Rightarrow> dial"
  at_remote :: "bytes \<Rightarrow> string"
  at_cancelled :: "bytes \<Rightarrow> bool"

definition connect :: "info_codec \<Rightarrow> attempts \<Rightarrow> bytes \<Rightarrow> 'f peer_manager \<Rightarrow> (int \<times> unit result) \<times> 'f peer_manager" where
  "connect c at addr pm =
     (let k = pm_next pm
      in case NewPeer (at_time at addr div 10 ^ 9) (at_remote at addr) (pm_genesisID pm) (pm_node pm) of
           (Inl e, _) \<Rightarrow> ((0, Inl e), pm)
         | (Inr _, peer) \<Rightarrow>
             (case addToOutboundSet addr k (pm\<lparr>pm_next := k + 1\<rparr>) of
                (False, pm) \<Rightarrow> ((0, Inl (Err ''Too many peer connections'')), pm)
              | (True, pm) \<Rightarrow>
                  (case Connect c (at_time at addr) (at_dial at addr) addr peer of
                     (statusCode, Inl e, peer) \<Rightarrow>
                       ((statusCode, Inl e), removeFromOutboundSet addr (pm\<lparr>pm_node := pr_node peer\<rparr>))
                   | (statusCode, Inr _, peer) \<Rightarrow>
                       ((statusCode, Inr ()), pm\<lparr>pm_node := pr_node peer,
                          pm_conns := (pm_conns pm)(k \<mapsto> startReader (at_time at addr) peer),
                          pm_handlers := (pm_handlers pm)(k \<mapsto> FromOutbound addr)\<rparr>))))"

definition onStore :: "(peer_storage \<Rightarrow> 'a result \<times> peer_storage) \<Rightarrow> 'f peer_manager \<Rightarrow> 'a result \<times> 'f peer_manager" where
  "onStore f pm = (case f (n_peerStore (pm_node pm)) of (r, s) \<Rightarrow> (r, pm\<lparr>pm_node := (pm_node pm)\<lparr>n_peerStore := s\<rparr>\<rparr>))"

text \<open>One round of dialling. \<open>None\<close> ends it because an address came twice; otherwise the result is the addresses tried so far.\<close>

fun connectAddrs :: "info_codec \<Rightarrow> attempts \<Rightarrow> bytes list \<Rightarrow> bytes list \<Rightarrow> 'f peer_manager \<Rightarrow> bytes list option result \<times> 'f peer_manager" where
  "connectAddrs c at [] tried pm = (Inr (Some tried), pm)"
| "connectAddrs c at (addr # addrs) tried pm =
     (if addr \<in> set tried then (Inr None, pm)
      else if hostOf addr \<in> set (banMap pm)
      then bindS (logged (onStore (ps_Delete c addr) pm)) (\<lambda>_. connectAddrs c at addrs (addr # tried))
      else (case connect c at addr pm of
              ((_, Inl e), pm) \<Rightarrow>
                if isPanic e then (Inl e, pm)
                else if at_cancelled at addr then (Inl (Err ''context canceled''), pm)
                else connectAddrs c at addrs (addr # tried) pm
            | ((_, Inr _), pm) \<Rightarrow> connectAddrs c at addrs (addr # tried) pm))"

partial_function (option) connectLoop ::
  "info_codec \<Rightarrow> attempts \<Rightarrow> int \<Rightarrow> nat \<Rightarrow> bytes list \<Rightarrow> 'f peer_manager \<Rightarrow> (unit result \<times> 'f peer_manager) option" where
  "connectLoop c at want n tried pm =
     (if want - int (outboundPeerCount pm) \<le> 0 then Some (Inr (), pm)
      else (case ps_Get c (at_query at n) (want - int (outboundPeerCount pm)) (n_peerStore (pm_node pm)) of
              Inl e \<Rightarrow> Some (Inl e, pm)
            | Inr [] \<Rightarrow> Some (Inr (), pm)
            | Inr (addr # addrs) \<Rightarrow>
                (case connectAddrs c at (addr # addrs) tried pm of
                   (Inl e, pm) \<Rightarrow> Some (Inl e, pm)
                 | (Inr None, pm) \<Rightarrow> Some (Inr (), pm)
                 | (Inr (Some tried), pm) \<Rightarrow> connectLoop c at want (Suc n) tried pm)))"

definition connectToPeers :: "info_codec \<Rightarrow> attempts \<Rightarrow> int \<Rightarrow> 'f peer_manager \<Rightarrow> (unit result \<times> 'f peer_manager) option" where
  "connectToPeers c at now pm =
     (if pm_peer pm \<noteq> []
      then if outboundPeerCount pm \<noteq> 0 then Some (Inr (), pm)
           else (case connect c at (pm_peer pm) pm of ((_, r), pm) \<Rightarrow> Some (r, pm))
      else (case IsInitialBlockDownload (p_ledger (n_processor (pm_node pm))) (p_blockStore (n_processor (pm_node pm))) now of
              Inl e \<Rightarrow> Some (Inl e, pm)
            | Inr (ibd, _) \<Rightarrow> connectLoop c at (if ibd then 1 else int MAX_OUTBOUND_PEER_CONNECTIONS) 0 [] pm))"

definition StatusLoopDetected :: int where "StatusLoopDetected = 508"

text \<open>Looking whether a connection to ourselves is possible; one that is made is shut down.\<close>

definition checkOpen :: "info_codec \<Rightarrow> attempts \<Rightarrow> int \<Rightarrow> int \<Rightarrow> 'f peer_manager \<Rightarrow> (unit result \<times> 'f peer_manager) option" where
  "checkOpen c at now random pm =
     (let myAddr = myIP pm @ [58] @ itoa (pm_port pm); k = pm_next pm
      in case onStore (ps_Store c now random myAddr) pm of
           (Inl e, pm) \<Rightarrow> Some (if isPanic e then Inl e else Inr (), pm)
         | (Inr _, pm) \<Rightarrow>
             (case connect c at myAddr pm of
                ((statusCode, r), pm) \<Rightarrow>
                  let pm = (if statusCode = StatusLoopDetected then pm\<lparr>pm_open := True\<rparr> else pm)
                  in case r of Inl e \<Rightarrow> Some (if isPanic e then Inl e else Inr (), pm) | Inr _ \<Rightarrow> endPeer k pm))"

definition listenForPeers :: "info_codec \<Rightarrow> attempts \<Rightarrow> int \<Rightarrow> int \<Rightarrow> 'f peer_manager \<Rightarrow> (unit result \<times> 'f peer_manager) option" where
  "listenForPeers c at now random pm =
     (if \<not> pm_accept pm \<or> accepting pm then Some (Inr (), pm)
      else (case IsInitialBlockDownload (p_ledger (n_processor (pm_node pm))) (p_blockStore (n_processor (pm_node pm))) now of
              Inl e \<Rightarrow> Some (Inl (Panic ''log.Fatal''), pm)
            | Inr (ibd, _) \<Rightarrow>
                if ibd then Some (Inr (), pm)
                else let pm = pm\<lparr>accepting := True\<rparr>
                     in if pm_open pm then Some (Inr (), pm) else checkOpen c at now random pm))"

section \<open>Inbound requests\<close>

record request_header =
  rq_RemoteAddr :: string
  rq_Nonce :: bytes
  rq_Address :: bytes

datatype reply = Rejected int | Upgrade

text \<open>A request up to its upgrade. The storage of addresses does not fail with a panic; its errors are logged.\<close>

definition acceptCheck ::
  "(bytes \<Rightarrow> bytes list result) \<Rightarrow> info_codec \<Rightarrow> int \<Rightarrow> int \<Rightarrow> request_header \<Rightarrow> 'f peer_manager \<Rightarrow> reply \<times> 'f peer_manager" where
  "acceptCheck lookup c now random r pm =
     (let remote = str (rq_RemoteAddr r); upgrade = (\<lambda>pm. (Upgrade, pm\<lparr>pm_upgrading := pm_upgrading pm @ [rq_RemoteAddr r]\<rparr>))
      in if \<not> accepting pm then (Rejected 0, pm)
         else if hostOf remote \<in> set (banMap pm) then (Rejected 403, pm)
         else if \<not> checkHostConnectionLimit lookup remote pm then (Rejected 503, pm)
         else if rq_Nonce r = peerNonce pm then (Rejected StatusLoopDetected, pm)
         else if rq_Address r = [] then upgrade pm
         else (case parsePeerAddress lookup (rq_Address r) pm of
                 Inl e \<Rightarrow> upgrade pm
               | Inr (host, port) \<Rightarrow>
                   if existsInOutboundSet (host @ [58] @ port) pm then (Rejected StatusTooManyRequests, pm)
                   else upgrade (snd (onStore (ps_Store c now random (host @ [58] @ port)) pm))))"

text \<open>A request after its upgrade.\<close>

definition acceptPeer :: "int \<Rightarrow> string \<Rightarrow> 'f peer_manager \<Rightarrow> unit result \<times> 'f peer_manager" where
  "acceptPeer nowNano remote pm =
     (let k = pm_next pm; pm = pm\<lparr>pm_upgrading := remove1 remote (pm_upgrading pm)\<rparr>
      in case NewPeer (nowNano div 10 ^ 9) remote (pm_genesisID pm) (pm_node pm) of
           (Inl e, _) \<Rightarrow> (Inl e, pm)
         | (Inr _, peer) \<Rightarrow>
             (case addToInboundSet (str remote) k (pm\<lparr>pm_next := k + 1\<rparr>) of
                (False, pm) \<Rightarrow> (Inr (), pm)
              | (True, pm) \<Rightarrow>
                  (Inr (), pm\<lparr>pm_conns := (pm_conns pm)(k \<mapsto> startReader nowNano peer),
                     pm_handlers := (pm_handlers pm)(k \<mapsto> FromInbound (str remote))\<rparr>)))"

section \<open>The main loop\<close>

text \<open>What the manager does before its loop, with what it finds out about its own address and the addresses of the seeds.\<close>

definition startManager ::
  "info_codec \<Rightarrow> attempts \<Rightarrow> int \<Rightarrow> int \<Rightarrow> bytes result \<Rightarrow> bool \<Rightarrow> bytes list \<Rightarrow> 'f peer_manager \<Rightarrow> (unit result \<times> 'f peer_manager) option" where
  "startManager c at now random externalIP localMatch seeds pm =
     (let pm = (case externalIP of Inl e \<Rightarrow> pm
                | Inr ip \<Rightarrow> pm\<lparr>pm_open := (if myIP pm \<noteq> [] then ip = myIP pm else localMatch), myIP := ip\<rparr>);
          pm = (if pm_peer pm \<noteq> [] then snd (onStore (ps_Store c now random (pm_peer pm)) pm)
                else pm\<lparr>pm_node := (pm_node pm)\<lparr>n_addrs := n_addrs (pm_node pm) @ seeds\<rparr>\<rparr>)
      in bindO (listenForPeers c at now random pm) (\<lambda>_ pm.
           map_option (\<lambda>(r, pm). (case r of Inl e \<Rightarrow> if isPanic e then Inl e else Inr () | Inr _ \<Rightarrow> Inr (), pm))
             (connectToPeers c at now pm)))"

definition onAddr ::
  "(bytes \<Rightarrow> bytes list result) \<Rightarrow> info_codec \<Rightarrow> attempts \<Rightarrow> int \<Rightarrow> int \<Rightarrow> bytes \<Rightarrow> 'f peer_manager \<Rightarrow> (unit result \<times> 'f peer_manager) option" where
  "onAddr lookup c at now random addr pm =
     (case parsePeerAddress lookup addr pm of
        Inl e \<Rightarrow> Some (Inr (), pm)
      | Inr (host, port) \<Rightarrow>
          if host \<in> set (banMap pm) then Some (Inr (), pm)
          else (case onStore (ps_Store c now random (host @ [58] @ port)) pm of
                  (Inl e, pm) \<Rightarrow> Some (if isPanic e then Inl e else Inr (), pm)
                | (Inr False, pm) \<Rightarrow> Some (Inr (), pm)
                | (Inr True, pm) \<Rightarrow>
                    map_option (\<lambda>(r, pm). (case r of Inl e \<Rightarrow> if isPanic e then Inl e else Inr () | Inr _ \<Rightarrow> Inr (), pm))
                      (connectToPeers c at now pm)))"

definition dropRandomPeer :: "nat \<Rightarrow> 'f peer_manager \<Rightarrow> (unit result \<times> 'f peer_manager) option" where
  "dropRandomPeer index pm =
     (if outPeers pm = [] then Some (Inr (), pm) else endPeer (snd (outPeers pm ! (index mod length (outPeers pm)))) pm)"

definition onTicker :: "info_codec \<Rightarrow> attempts \<Rightarrow> int \<Rightarrow> int \<Rightarrow> bool \<Rightarrow> nat \<Rightarrow> 'f peer_manager \<Rightarrow> (unit result \<times> 'f peer_manager) option" where
  "onTicker c at now random coin index pm =
     bindO (listenForPeers c at now random pm) (\<lambda>_ pm.
       bindO (if dnsseed pm \<and> coin then dropRandomPeer index pm else Some (Inr (), pm)) (\<lambda>_ pm.
         map_option (\<lambda>(r, pm). (case r of Inl e \<Rightarrow> if isPanic e then Inl e else Inr () | Inr _ \<Rightarrow> Inr (), pm))
           (connectToPeers c at now pm)))"

fun endPeers :: "nat list \<Rightarrow> 'f peer_manager \<Rightarrow> (unit result \<times> 'f peer_manager) option" where
  "endPeers [] pm = Some (Inr (), pm)"
| "endPeers (k # ks) pm = bindO (endPeer k pm) (\<lambda>_. endPeers ks)"

definition ShutdownManager :: "'f peer_manager \<Rightarrow> (unit result \<times> 'f peer_manager) option" where
  "ShutdownManager pm = endPeers (map snd (outPeers pm) @ map snd (inPeers pm)) pm"

text \<open>
  The events of a node: those of the manager, those of its connections, and blocks and transactions given to the
  processor by the node itself.
\<close>

datatype manager_event =
    AddrReceived attempts int int
  | AddrDiscovered bytes attempts int int
  | Ticker attempts int int bool nat
  | RequestReceived request_header int int
  | Upgraded string int
  | UpgradeFailed string
  | PeerEvent nat int peer_event
  | PeerEnded nat
  | LocalEvent int event

definition manager_turn ::
  "crypto \<Rightarrow> 'f cuckoo \<Rightarrow> wire \<Rightarrow> info_codec \<Rightarrow> (bytes \<Rightarrow> bytes list result) \<Rightarrow> manager_event \<Rightarrow> 'f peer_manager \<Rightarrow> (unit result \<times> 'f peer_manager) option" where
  "manager_turn cr cf w c lookup ev pm =
     (case ev of
        AddrReceived at now random \<Rightarrow>
          (case n_addrs (pm_node pm) of
             [] \<Rightarrow> Some (Inr (), pm)
           | addr # addrs \<Rightarrow> onAddr lookup c at now random addr (pm\<lparr>pm_node := (pm_node pm)\<lparr>n_addrs := addrs\<rparr>\<rparr>))
      | AddrDiscovered addr at now random \<Rightarrow> onAddr lookup c at now random addr pm
      | Ticker at now random coin index \<Rightarrow> onTicker c at now random coin index pm
      | RequestReceived r now random \<Rightarrow> Some (Inr (), snd (acceptCheck lookup c now random r pm))
      | Upgraded remote nowNano \<Rightarrow>
          if remote \<in> set (pm_upgrading pm) then Some (acceptPeer nowNano remote pm) else Some (Inr (), pm)
      | UpgradeFailed remote \<Rightarrow> Some (Inr (), pm\<lparr>pm_upgrading := remove1 remote (pm_upgrading pm)\<rparr>)
      | PeerEvent k now pe \<Rightarrow>
          (case pm_conns pm k of
             None \<Rightarrow> Some (Inr (), pm)
           | Some p \<Rightarrow>
               if pe = Disconnected then endPeer k pm
               else map_option (\<lambda>(r, p). (r, pm\<lparr>pm_node := pr_node p, pm_conns := (pm_conns pm)(k \<mapsto> p)\<rparr>))
                      (peer_turn cr cf w c now pe (p\<lparr>pr_node := pm_node pm\<rparr>)))
      | PeerEnded k \<Rightarrow> endPeer k pm
      | LocalEvent now pe \<Rightarrow>
          map_option (\<lambda>(r, proc). (case r of Inl e \<Rightarrow> if isPanic e then Inl e else Inr () | Inr _ \<Rightarrow> Inr (),
                                   pm\<lparr>pm_node := (pm_node pm)\<lparr>n_processor := proc\<rparr>\<rparr>))
            (run_turn cr now pe (n_processor (pm_node pm))))"

end
