(* ===== verification/Peer_Sync.thy ===== *)
theory Peer_Sync
  imports Peer_Download
begin

text \<open>
  How two nodes find where their chains part. The identifiers a node sends are those of the blocks of its chain at the
  heights of \<open>locatorHeights\<close>; the other node answers with the blocks that follow the first of them it has on its own
  chain.
\<close>

section \<open>Heights and identifiers of a chain\<close>

lemma height_id:
  assumes "pcore cr gid prune chain p" "int64 (int h)"
  shows "GetBlockIDForHeight (p_ledger p) (int h) = Inr (if h < length chain then Some (block_ID cr (chain ! h)) else None)"
  using reach_rels(4) [OF pcore_parts(4) [OF assms(1)]] healthy_parts(4) [OF pcore_parts(1) [OF assms(1)]] assms(2)
  by (auto simp: GetBlockIDForHeight_Inr height_rel_def)

lemma branch_not_genesis:
  assumes "branch cr gid bs i bl" "k < length bl"
  shows "block_ID cr (bl ! k) = gid \<longleftrightarrow> k = 0"
proof
  assume "block_ID cr (bl ! k) = gid"
  with branch_prefix [OF assms] branch_unique [OF _ branch_first [OF assms(1)]] have "take (Suc k) bl = [bl ! 0]" by metis
  then have "length (take (Suc k) bl) = 1" by simp
  with assms(2) show "k = 0" by simp
next
  assume "k = 0"
  with branch_first [OF assms(1)] branch_last show "block_ID cr (bl ! k) = gid" by fastforce
qed

lemma branch_ids_distinct:
  assumes "branch cr gid bs i bl" "j < length bl" "k < length bl" "block_ID cr (bl ! j) = block_ID cr (bl ! k)"
  shows "j = k"
proof -
  have "take (Suc j) bl = take (Suc k) bl"
    using branch_unique [OF branch_prefix [OF assms(1,2)]] branch_prefix [OF assms(1,3)] assms(4) by simp
  then have "length (take (Suc j) bl) = length (take (Suc k) bl)" by simp
  with assms(2,3) show ?thesis by simp
qed

section \<open>The locator\<close>

function locatorHeights :: "nat \<Rightarrow> nat \<Rightarrow> nat \<Rightarrow> nat list" where
  "locatorHeights h s n =
     (if h = 0 \<or> s = 0 then [] else h # (if h \<le> s then [] else locatorHeights (h - s) (if n \<ge> 10 then 2 * s else s) (Suc n)))"
  by auto
termination by (relation "measure (\<lambda>(h, s, n). h)") auto

declare locatorHeights.simps [simp del]

lemma locatorHeights_bound: "k \<in> set (locatorHeights h s n) \<Longrightarrow> 0 < k \<and> k \<le> h"
proof (induction h s n rule: locatorHeights.induct)
  case (1 h s n)
  show ?case
  proof (cases "h = 0 \<or> s = 0 \<or> h \<le> s")
    case True
    with "1.prems" show ?thesis by (subst (asm) locatorHeights.simps) (auto split: if_splits)
  next
    case False
    with "1.prems" have "k = h \<or> k \<in> set (locatorHeights (h - s) (if n \<ge> 10 then 2 * s else s) (Suc n))"
      by (subst (asm) locatorHeights.simps) auto
    with "1.IH" False show ?thesis by fastforce
  qed
qed

text \<open>Above a height that is \<open>d\<close> below the tip there is no gap of more than \<open>d\<close>.\<close>

lemma locator_gap:
  assumes "1 \<le> s" "h \<le> tip" "s = 1 \<or> s \<le> tip - h" "n \<le> tip - h" "f \<le> h"
  shows "\<exists>e \<in> insert 0 (set (locatorHeights h s n)). e \<le> f \<and> 2 * f \<le> e + tip"
  using assms
proof (induction h s n rule: locatorHeights.induct)
  case (1 h s n)
  let ?s = "if n \<ge> 10 then 2 * s else s"
  have mem: "0 < h \<Longrightarrow> h \<in> set (locatorHeights h s n)" using "1.prems"(1) by (subst locatorHeights.simps) simp
  show ?case
  proof (cases "f = h")
    case True
    with mem "1.prems"(2) show ?thesis by (cases "h = 0") auto
  next
    case False
    with "1.prems"(5) have f: "f < h" by simp
    show ?thesis
    proof (cases "h \<le> s")
      case True
      with f "1.prems"(1-3) have "2 * f \<le> tip" by auto
      then show ?thesis by auto
    next
      case hs: False
      have sub: "set (locatorHeights (h - s) ?s (Suc n)) \<subseteq> set (locatorHeights h s n)"
        using hs "1.prems"(1) by (subst (2) locatorHeights.simps) auto
      show ?thesis
      proof (cases "f \<le> h - s")
        case True
        have "\<exists>e \<in> insert 0 (set (locatorHeights (h - s) ?s (Suc n))). e \<le> f \<and> 2 * f \<le> e + tip"
          by (rule "1.IH") (use "1.prems" hs True in auto)
        with sub show ?thesis by blast
      next
        case gap: False
        have "h - s \<in> set (locatorHeights (h - s) ?s (Suc n))" using hs "1.prems"(1) by (subst locatorHeights.simps) simp
        moreover have "h - s \<le> f" "2 * f \<le> (h - s) + tip" using gap f "1.prems"(1-3) hs by auto
        ultimately show ?thesis using sub by blast
      qed
    qed
  qed
qed

lemma locatorLoop_chain:
  assumes c: "pcore cr gid prune chain p" and h: "h < length chain" "1 \<le> s" "int h + int s < 2 ^ 62"
  shows "locatorLoop (p_ledger p) gid (Some (block_ID cr (chain ! h))) (int h) (int s) ids
    = Some (Inr (ids @ map (\<lambda>k. block_ID cr (chain ! k)) (locatorHeights h s (length ids))))"
  using h
proof (induction h s "length ids" arbitrary: ids rule: locatorHeights.induct)
  case (1 h s)
  note b = branch_not_genesis [OF pcore_parts(6) [OF c] "1.prems"(1)]
  let ?ids = "ids @ [block_ID cr (chain ! h)]" and ?s = "if length ids \<ge> 10 then 2 * s else s"
  have d: "i64 (int h - int s) = int h - int s" "i64 (int s * 2) = int s * 2"
    by (rule i64_id, use "1.prems" in \<open>simp add: int64_def\<close>)+
  show ?case
  proof (cases "h = 0")
    case True
    with b show ?thesis by (subst locatorLoop.simps) (simp add: locatorHeights.simps)
  next
    case pos: False
    show ?thesis
    proof (cases "h \<le> s")
      case True
      with b pos d "1.prems"(2) show ?thesis by (subst locatorLoop.simps) (simp add: Let_def locatorHeights.simps [of h])
    next
      case False
      have g: "GetBlockIDForHeight (p_ledger p) (int h - int s) = Inr (Some (block_ID cr (chain ! (h - s))))"
        using height_id [OF c, of "h - s"] False "1.prems" by (simp add: of_nat_diff int64_def)
      have "locatorLoop (p_ledger p) gid (Some (block_ID cr (chain ! (h - s)))) (int (h - s)) (int ?s) ?ids
        = Some (Inr (?ids @ map (\<lambda>k. block_ID cr (chain ! k)) (locatorHeights (h - s) ?s (length ?ids))))"
        using "1.hyps" [of ?ids] "1.prems" False pos by auto
      with b pos False d g "1.prems"(2) show ?thesis
        by (subst locatorLoop.simps, cases "10 \<le> length ids") (simp_all add: Let_def locatorHeights.simps [of h] of_nat_diff mult.commute)
    qed
  qed
qed

section \<open>The answer\<close>

lemma invLoop_chain:
  assumes c: "pcore cr gid prune chain p" and "int h + int room < 2 ^ 62"
  shows "invLoop (p_ledger p) (int h) room = Inr (map (block_ID cr) (take room (drop h chain)))"
  using assms(2)
proof (induction room arbitrary: h)
  case (Suc room)
  have i: "i64 (int h + 1) = int (Suc h)" using i64_id [of "int (Suc h)"] Suc.prems by (simp add: int64_def add.commute)
  have g: "GetBlockIDForHeight (p_ledger p) (int h) = Inr (if h < length chain then Some (block_ID cr (chain ! h)) else None)"
    by (rule height_id [OF c]) (use Suc.prems in \<open>simp add: int64_def\<close>)
  have IH: "invLoop (p_ledger p) (int (Suc h)) room = Inr (map (block_ID cr) (take room (drop (Suc h) chain)))"
    by (rule Suc.IH) (use Suc.prems in simp)
  show ?case
  proof (cases "h < length chain")
    case True
    then show ?thesis using g IH by (simp add: i Cons_nth_drop_Suc [symmetric] result_simps del: of_nat_Suc)
  qed (simp add: g result_simps)
qed simp

definition answer :: "crypto \<Rightarrow> block list \<Rightarrow> nat \<Rightarrow> message list" where
  "answer cr chain k = (if Suc k < length chain
     then [InvBlockMessage (map (block_ID cr) (take maxBlocksPerInv (drop (Suc k) chain)))] else [])"

lemma onFindCommonAncestor_off:
  assumes c: "pcore cr gid prune chain (pr_processor p)" and i: "i \<notin> ids_of cr chain"
  shows "onFindCommonAncestor i p = (Inr False, p)"
proof -
  obtain t where t: "GetBranchType (pr_ledger p) i = Inr t" using branch_type_known(3) [OF c] by blast
  with branch_answer [OF reach_rels(8) [OF pcore_parts(4) [OF c]]] i have "t \<noteq> MAIN" by blast
  with t show ?thesis
    using healthy_parts(3) [OF pcore_parts(1) [OF c]]
    by (auto simp: onFindCommonAncestor_def bs_GetBlockHeader_def split: option.splits)
qed

lemma onFindCommonAncestor_on:
  assumes c: "pcore cr gid prune chain (pr_processor p)" and k: "k < length chain"
  obtains p' where "onFindCommonAncestor (block_ID cr (chain ! k)) p = (Inr True, p')" "pr_sent p' = pr_sent p @ answer cr chain k"
proof -
  let ?i = "block_ID cr (chain ! k)"
  note b = pcore_parts(6) [OF c]
  have h: "bs_GetBlockHeader (pr_blockStore p) ?i = Inr (bs_headers (pr_blockStore p) ?i)"
    using healthy_parts(3) [OF pcore_parts(1) [OF c]] by (simp add: bs_GetBlockHeader_def)
  obtain w where w: "bs_headers (pr_blockStore p) ?i = Some (Header (chain ! k), w)"
    using branch_holds [OF b nth_mem [OF k]] by (auto simp: holds_def)
  obtain t where t: "GetBranchType (pr_ledger p) ?i = Inr t" using branch_type_known(3) [OF c] by blast
  with branch_answer [OF reach_rels(8) [OF pcore_parts(4) [OF c]]] nth_mem [OF k] have m: "t = MAIN" by blast
  have len: "int (length chain) \<le> MAX_NUMBER + 1" using reach_rels(9) [OF pcore_parts(4) [OF c]] .
  then have hk: "i64 (Height (Header (chain ! k)) + 1) = int (Suc k)"
    using i64_id [of "int (Suc k)"] branch_height [OF b k] k by (simp add: int64_def add.commute)
  have inv: "invLoop (pr_ledger p) (int (Suc k)) maxBlocksPerInv = Inr (map (block_ID cr) (take maxBlocksPerInv (drop (Suc k) chain)))"
    by (rule invLoop_chain [OF c]) (use len k in \<open>simp add: maxBlocksPerInv_def\<close>)
  have "maxBlocksPerInv \<noteq> 0" by (simp add: maxBlocksPerInv_def)
  then show ?thesis
    using that h w t m hk inv by (auto simp: onFindCommonAncestor_def answer_def send_def split: if_splits)
qed

lemma findCommonAncestors_chain:
  assumes c: "pcore cr gid prune chain (pr_processor p)" and "i \<in> set ids" "i \<in> ids_of cr chain"
  shows "\<exists>pre j post k p'. ids = pre @ j # post \<and> set pre \<inter> ids_of cr chain = {} \<and> k < length chain \<and> j = block_ID cr (chain ! k)
    \<and> findCommonAncestors ids p = (Inr (), p') \<and> pr_sent p' = pr_sent p @ answer cr chain k"
  using assms(2)
proof (induction ids)
  case (Cons j ids)
  show ?case
  proof (cases "j \<in> ids_of cr chain")
    case True
    then obtain k where k: "k < length chain" "j = block_ID cr (chain ! k)" by (auto simp: in_set_conv_nth)
    from onFindCommonAncestor_on [OF c k(1)] obtain p' where "onFindCommonAncestor j p = (Inr True, p')"
      "pr_sent p' = pr_sent p @ answer cr chain k" unfolding k(2) by blast
    with k show ?thesis by (intro exI [of _ "[]"] exI [of _ j] exI [of _ ids] exI [of _ k] exI [of _ p']) simp
  next
    case False
    then have "i \<in> set ids" using Cons.prems assms(3) by auto
    from Cons.IH [OF this] obtain pre l post k p' where *: "ids = pre @ l # post" "set pre \<inter> ids_of cr chain = {}" "k < length chain"
      "l = block_ID cr (chain ! k)" "findCommonAncestors ids p = (Inr (), p')" "pr_sent p' = pr_sent p @ answer cr chain k" by blast
    with False onFindCommonAncestor_off [OF c False] show ?thesis
      by (intro exI [of _ "j # pre"] exI [of _ l] exI [of _ post] exI [of _ k] exI [of _ p']) simp
  qed
qed simp

lemma sendFindCommonAncestor_chain:
  assumes c: "pcore cr gid prune chain (pr_processor p)" and g: "pr_genesisID p = gid"
  shows "sendFindCommonAncestor None p = Some (Inr (), send (FindCommonAncestorMessage
    (map (\<lambda>k. block_ID cr (chain ! k)) (locatorHeights (length chain - 1) 1 0 @ [0]))) p)"
proof -
  note d = pcore_parts [OF c]
  have n: "length chain - 1 < length chain" "1 \<le> length chain" using d(5) by (simp_all add: Suc_le_eq)
  have len: "int (length chain) \<le> MAX_NUMBER + 1" using reach_rels(9) [OF d(4)] .
  obtain w where t: "GetChainTip (pr_ledger p) = Inr (Some (block_ID cr (last chain), int (length chain) - 1))"
    by (rule pcore_tip [OF c])
  have l: "last chain = chain ! (length chain - 1)" "int (length chain) - 1 = int (length chain - 1)"
    using d(5) n(2) by (simp_all add: last_conv_nth of_nat_diff)
  have "locatorLoop (pr_ledger p) gid (Some (block_ID cr (last chain))) (int (length chain) - 1) 1 []
    = Some (Inr (map (\<lambda>k. block_ID cr (chain ! k)) (locatorHeights (length chain - 1) 1 0)))"
    using locatorLoop_chain [OF c n(1), of 1 "[]"] len unfolding l by simp
  moreover have "block_ID cr (chain ! 0) = gid" using branch_not_genesis [OF d(6), of 0] d(5) by simp
  ultimately show ?thesis using t g by (simp add: sendFindCommonAncestor_def locatorStart_def result_simps)
qed

lemma first_common:
  assumes b: "branch cr gid bs i C1" "branch cr gid bs' j C2"
    and f: "take (Suc f) C1 = take (Suc f) C2" "f < length C1" "f < length C2"
    and e: "e \<le> f" "k < length C1" "e \<le> k" "s < length C2" "block_ID cr (C1 ! k) = block_ID cr (C2 ! s)"
  shows "e \<le> s"
proof (rule ccontr)
  assume "\<not> e \<le> s"
  then have s: "s < e" "s < Suc f" using e(1) by simp_all
  have "C1 ! s = C2 ! s" using f(1) s(2) by (metis nth_take)
  with e(5) branch_ids_distinct [OF b(1), of k s] e(2) s f(2) have "k = s" by auto
  with s e(3) show False by simp
qed

lemma locatorHeights_sorted: "sorted_wrt (>) (locatorHeights h s n)"
proof (induction h s n rule: locatorHeights.induct)
  case (1 h s n)
  then show ?case
    by (subst locatorHeights.simps) (auto dest: locatorHeights_bound)
qed

text \<open>
  C4 (functional). A node that starts to synchronise sends a list of identifiers of its chain, and the node that
  receives it answers with an announcement of the blocks, at most 500, that follow on its own chain after the first
  identifier of the list it has there. The list misses the point where the two chains part by less than the part of
  the asking node's chain above it: if the chains agree up to height \<open>f\<close> and the asking node's tip is \<open>d\<close> higher, the
  announcement starts no earlier than \<open>d\<close> below \<open>f\<close>.
\<close>

theorem sync_from_fork:
  assumes p: "pinv cr gid prune C1 (pr_processor p)" "pr_genesisID p = gid" and q: "pinv cr gid prune' C2 (pr_processor q)"
  shows "\<exists>ids s q'. sendFindCommonAncestor None p = Some (Inr (), send (FindCommonAncestorMessage ids) p)
    \<and> findCommonAncestors ids q = (Inr (), q') \<and> s < length C2 \<and> block_ID cr (C2 ! s) \<in> set ids
    \<and> pr_sent q' = pr_sent q @ (if Suc s < length C2
        then [InvBlockMessage (map (block_ID cr) (take maxBlocksPerInv (drop (Suc s) C2)))] else [])
    \<and> (\<forall>f. f < length C1 \<and> f < length C2 \<and> take (Suc f) C1 = take (Suc f) C2 \<longrightarrow> 2 * f \<le> s + (length C1 - 1))"
proof -
  have c1: "pcore cr gid prune C1 (pr_processor p)" and c2: "pcore cr gid prune' C2 (pr_processor q)"
    using p(1) q by (simp_all add: pinv_def)
  note b1 = pcore_parts(6) [OF c1] and b2 = pcore_parts(6) [OF c2]
  let ?hs = "locatorHeights (length C1 - 1) 1 0 @ [0]" and ?id = "\<lambda>k. block_ID cr (C1 ! k)"
  let ?ids = "map ?id ?hs"
  have n: "length C1 \<noteq> 0" "length C2 \<noteq> 0" using pcore_parts(5) [OF c1] pcore_parts(5) [OF c2] by auto
  have hs: "k < length C1" if "k \<in> set ?hs" for k using that locatorHeights_bound [of k] n by fastforce
  have gid: "?id 0 = gid" "block_ID cr (C2 ! 0) = gid"
    using branch_not_genesis [OF b1, of 0] branch_not_genesis [OF b2, of 0] n by simp_all
  have "gid \<in> set ?ids" "gid \<in> ids_of cr C2" using gid n by (auto intro!: image_eqI [of _ _ "C2 ! 0"])
  from findCommonAncestors_chain [OF c2 this] obtain pre j post s q' where
    s: "?ids = pre @ j # post" "set pre \<inter> ids_of cr C2 = {}" "s < length C2" "j = block_ID cr (C2 ! s)"
      "findCommonAncestors ?ids q = (Inr (), q')" "pr_sent q' = pr_sent q @ answer cr C2 s" by blast
  obtain hpre k hpost where h: "?hs = hpre @ k # hpost" "pre = map ?id hpre" "j = ?id k"
    using s(1) unfolding map_eq_append_conv map_eq_Cons_conv by blast
  have srt: "sorted_wrt (>) ?hs" using locatorHeights_sorted locatorHeights_bound by (fastforce simp: sorted_wrt_append)
  have "2 * f \<le> s + (length C1 - 1)" if f: "f < length C1" "f < length C2" "take (Suc f) C1 = take (Suc f) C2" for f
  proof -
    have "f \<le> length C1 - 1" using f(1) by simp
    then have "\<exists>e \<in> insert 0 (set (locatorHeights (length C1 - 1) 1 0)). e \<le> f \<and> 2 * f \<le> e + (length C1 - 1)"
      by (intro locator_gap) simp_all
    then obtain e where "e \<in> insert 0 (set (locatorHeights (length C1 - 1) 1 0))" and le: "e \<le> f" "2 * f \<le> e + (length C1 - 1)"
      by blast
    then have e: "e \<in> set ?hs" "e \<le> f" "2 * f \<le> e + (length C1 - 1)" by auto
    have "C1 ! e = C2 ! e" using f(3) e(2) by (metis le_imp_less_Suc nth_take)
    then have "?id e \<in> ids_of cr C2" using f(2) e(2) by auto
    then have "e \<notin> set hpre" using s(2) h(2) by auto
    then have "e \<le> k" using e(1) srt unfolding h(1) by (auto simp: sorted_wrt_append)
    moreover have "k < length C1" by (rule hs) (unfold h(1), simp)
    ultimately have "e \<le> s" using first_common [OF b1 b2 f(3,1,2) e(2)] s(3,4) h(3) by auto
    with e(3) show ?thesis by simp
  qed
  moreover have "block_ID cr (C2 ! s) \<in> set ?ids" using s(1,4) by simp
  ultimately show ?thesis
    using sendFindCommonAncestor_chain [OF c1 p(2)] s(3,5,6) unfolding answer_def by blast
qed

definition sample_peer :: "processor \<Rightarrow> unit peer" where
  "sample_peer p = snd (NewPeer 0 ''10.0.0.1:8831'' 371
     \<lparr>n_processor = p, n_inflight = NewBlockQueue, n_peerStore = sample_storage, n_addrs = []\<rparr>)"

lemma NewPeer_genesis: "NewPeer now a gid n = (r, p) \<Longrightarrow> pr_genesisID p = gid \<and> pr_closed p = False"
  by (auto simp: NewPeer_def updateReadLimit_def split: sum.splits if_splits)

lemma sample_peer_node: "pr_processor (sample_peer p) = p" "pr_genesisID (sample_peer p) = 371" "pr_sent (sample_peer p) = []"
proof -
  obtain r q where q: "NewPeer 0 ''10.0.0.1:8831'' 371
     \<lparr>n_processor = p, n_inflight = NewBlockQueue, n_peerStore = sample_storage, n_addrs = []\<rparr> = (r, q :: unit peer)" by fastforce
  from NewPeer_ok [OF q] NewPeer_genesis [OF q] show "pr_processor (sample_peer p) = p" "pr_genesisID (sample_peer p) = 371" "pr_sent (sample_peer p) = []"
    by (simp_all add: sample_peer_def q)
qed

theorem sync_from_fork_witness:
  "\<exists>p ids q'. pinv sample_crypto 371 True [sample_first] p
    \<and> sendFindCommonAncestor None (sample_peer p) = Some (Inr (), send (FindCommonAncestorMessage ids) (sample_peer p))
    \<and> findCommonAncestors ids (sample_peer p) = (Inr (), q') \<and> 371 \<in> set ids \<and> pr_sent q' = []"
proof -
  obtain p where p: "turns sample_crypto 371 True sample_node p" "pinv sample_crypto 371 True [sample_first] p"
    by (rule sample_turn)
  from sync_from_fork [of sample_crypto 371 True "[sample_first]" "sample_peer p" True "[sample_first]" "sample_peer p"]
    p(2) sample_first_id(1) show ?thesis by (auto simp: sample_peer_node)
qed

end
