(* ===== verification/Peer_Props.thy ===== *)
theory Peer_Props
  imports Peer_Sync
begin

text \<open>
  Two ways in which a peer can end the process of a node: a block with a missing transaction, and work submitted for
  a block that could not be made.
\<close>

section \<open>A block with a missing transaction\<close>

lemma Add_new:
  assumes "unowned q" "bq_ids q = []" "bq_Add now i '''' q = (r, q')"
  shows "r = Inr True" "bq_ids q' = [i]" "unowned q'"
proof -
  have "owner q i = None" using assms(2) owner_ids [of q i] by simp
  with bq_Add_entries [of q now i "''''" r q'] assms show "r = Inr True" by (simp add: unowned_def)
  show "bq_ids q' = [i]" "unowned q'" using Add_unowned [OF assms(1,3)] assms(2) by auto
qed

lemma download_one:
  assumes inv: "dl_inv p" and q: "bq_ids (localDownloadQueue p) = [i]" "bq_ids (localInflightQueue p) = []"
    and u: "GetBranchType (pr_ledger p) i = Inr UNKNOWN" "owner (globalQueue p) i = None"
  obtains p' where "processDownloadQueue now p = Some (Inr (), p')" "bq_ids (localInflightQueue p') = [i]"
    "pr_processor p' = pr_processor p" "pr_ibd p' = pr_ibd p"
    "GetBlockMessage i \<in> set (pr_sent p')"
proof -
  have d: "unowned (localDownloadQueue p)" "unowned (localInflightQueue p)" "bq_inv (globalQueue p)"
    using inv by (simp_all add: dl_inv_def)
  have peek: "bq_Peek (localDownloadQueue p) = Some i" "bq_Len (localInflightQueue p) = 0" by (simp_all add: Peek_ids Len_ids q)
  obtain r g where "bq_Add now i (pr_addr p) (globalQueue p) = (r, g)" by fastforce
  with bq_Add_entries [OF d(3) this] u(2) have g: "onGlobal (bq_Add now i (pr_addr p)) p = (Inr True, setGlobal g p)"
    by (simp add: onGlobal_def setGlobal_def)
  let ?p = "setGlobal g p"
  obtain b l where l: "onDownload (bq_Remove i '''') ?p = (Inr b, ?p\<lparr>localDownloadQueue := l\<rparr>)" "unowned l"
    "bq_ids l = filter (\<lambda>j. j \<noteq> i) (bq_ids (localDownloadQueue p))"
    by (rule onDownload_Remove [where p = ?p and i = i]) (use d(1) in simp_all)
  let ?q = "?p\<lparr>localDownloadQueue := l\<rparr>"
  obtain b' f where f: "onInflight (bq_Add now i '''') ?q = (Inr b', ?q\<lparr>localInflightQueue := f\<rparr>)" "unowned f" "bq_ids f = [i]"
    by (rule onInflight_Add [where p = ?q and now = now and i = i]) (use d(2) q(2) in simp_all)
  let ?r = "send (GetBlockMessage i) (?q\<lparr>localInflightQueue := f\<rparr>)"
  have "downloadNext now p = (Inr True, ?r)"
    using peek u(1) g l(1) f(1) by (simp add: downloadNext_def inflightQueueMax_def)
  moreover have "downloadNext now ?r = (Inr False, ?r)"
    by (simp add: downloadNext_def send_def Len_ids Peek_ids f(3) l(3) q(1) inflightQueueMax_def)
  ultimately have "processDownloadQueue now p = Some (Inr (), ?r)"
    by (subst processDownloadQueue.simps, simp, subst processDownloadQueue.simps, simp)
  moreover have "pr_ibd (setGlobal g p) = pr_ibd p" by (simp add: setGlobal_def)
  ultimately show ?thesis using that [of ?r] f(3) by (simp add: send_def)
qed

lemma announce_one:
  assumes inv: "dl_inv p" and q: "bq_ids (localDownloadQueue p) = []" "bq_ids (localInflightQueue p) = []"
    and u: "GetBranchType (pr_ledger p) i = Inr UNKNOWN" "owner (globalQueue p) i = None" "i \<notin> set (ignoreBlocks p)"
  obtains p' where "onRequest cr cf now (InvBlock [i]) p = Some (Inr True, p')" "bq_ids (localInflightQueue p') = [i]"
    "pr_processor p' = pr_processor p" "pr_ibd p' = pr_ibd p"
    "GetBlockMessage i \<in> set (pr_sent p')"
proof -
  have d: "unowned (localDownloadQueue p)" "bq_inv (localDownloadQueue p)" "bq_inv (localInflightQueue p)"
    using inv by (simp_all add: dl_inv_def unowned_def)
  obtain r l where l: "bq_Add now i '''' (localDownloadQueue p) = (r, l)" by fastforce
  note a = Add_new [OF d(1) q(1) l]
  let ?p = "p\<lparr>localDownloadQueue := l\<rparr>"
  have inv': "dl_inv ?p" using inv a(2,3) by (simp add: dl_inv_def downloadQueueMax_def maxBlocksPerInv_def)
  obtain p' where p': "processDownloadQueue now ?p = Some (Inr (), p')" "bq_ids (localInflightQueue p') = [i]"
    "pr_processor p' = pr_processor ?p" "pr_ibd p' = pr_ibd ?p" "GetBlockMessage i \<in> set (pr_sent p')"
    by (rule download_one [OF inv', where i = i and now = now]) (use a(2) q(2) u(1,2) in simp_all)
  have "onInvBlock now i 0 1 p = Some (Inr (), p')"
    using p'(1) q u d l a(1)
    by (simp add: onInvBlock_def Exists_ids Len_ids maxBlocksPerInv_def downloadQueueMax_def onDownload_def bindO_def)
  then have "onRequest cr cf now (InvBlock [i]) p = Some (Inr True, p')"
    by (simp add: onRequest_def goOn_def bindO_def)
  with that p'(2-5) show ?thesis by simp
qed

text \<open>A header that passes every check made before the transactions are looked at. No work is needed: the target is the header's own.\<close>

definition plausible :: "int \<Rightarrow> block_header \<Rightarrow> bool" where
  "plausible now h \<longleftrightarrow> Target h = - 1 \<and> 0 \<le> bh_Time h \<and> bh_Time h \<le> MAX_NUMBER \<and> bh_Time h \<le> i64 (now + MAX_FUTURE_SECONDS)
     \<and> 0 \<le> bh_Nonce h \<and> bh_Nonce h \<le> MAX_NUMBER \<and> 0 \<le> Height h \<and> Height h \<le> MAX_NUMBER
     \<and> Height h \<noteq> LatestCheckpointHeight \<and> TransactionCount h = 1"

lemma checkNilBlock_plausible: "plausible now h \<Longrightarrow> checkNilBlock i h [None] now = Inl nilDereference"
proof -
  assume h: "plausible now h"
  have "uint i \<le> uint (- 1 :: 256 word)" using word_n1_ge [of i] by (simp add: word_le_def)
  with h show "checkNilBlock i h [None] now = Inl nilDereference"
    by (simp add: plausible_def checkNilBlock_def CheckPOW_def GetBigInt_def CheckpointCheck_def Checkpoints_def
        LatestCheckpointHeight_def result_simps)
qed

text \<open>
  C7 (error). Two messages of a peer end the process of a node, at no cost to the peer: the announcement of a block that
  is new to the node, and, when the node has asked for it, a block whose one transaction is \<^verbatim>\<open>null\<close>. The header needs a known
  parent and plausible numbers, and no proof of work. The missing transaction is dereferenced; the reader checks only
  that block and header are present.
\<close>

theorem nil_transaction_crash:
  assumes "ready cr gid prune p" "bq_ids (localDownloadQueue p) = []" "bq_ids (localInflightQueue p) = []"
    "header_ID cr h \<notin> set (ignoreBlocks p)" "GetBranchType (pr_ledger p) (header_ID cr h) = Inr UNKNOWN"
    "owner (globalQueue p) (header_ID cr h) = None" "bs_headers (pr_blockStore p) (Previous h) \<noteq> None"
    "pr_ibd p \<or> LatestCheckpointHeight \<le> Height h" "plausible (now' div 10 ^ 9) h"
  shows "\<exists>p1 p2. onRequest cr cf now (InvBlock [header_ID cr h]) p = Some (Inr True, p1)
    \<and> GetBlockMessage (header_ID cr h) \<in> set (pr_sent p1)
    \<and> onRequest cr cf now' (BlockReceived (Some (Some h, [None]))) p1 = Some (Inl nilDereference, p2)"
proof -
  let ?i = "header_ID cr h"
  obtain chain where inv: "dl_inv p" and c: "pcore cr gid prune chain (pr_processor p)"
    using assms(1) by (auto simp: ready_def pinv_def)
  obtain p1 where p1: "onRequest cr cf now (InvBlock [?i]) p = Some (Inr True, p1)" "bq_ids (localInflightQueue p1) = [?i]"
    "pr_processor p1 = pr_processor p" "pr_ibd p1 = pr_ibd p" "GetBlockMessage ?i \<in> set (pr_sent p1)"
    by (rule announce_one [OF inv assms(2,3,5,6,4), where cr = cr and cf = cf and now = now])
  have "\<not> bs_readFault (pr_blockStore p) j" for j using healthy_parts(3) [OF pcore_parts(1) [OF c]] .
  then have "onBlock cr now' h [None] p1 = Some (Inl nilDereference, closeConn (setProcessor (pr_processor p1) p1))"
    using p1(2-4) assms(5,7,8) checkNilBlock_plausible [OF assms(9)]
    by (auto simp: onBlock_def Let_def Peek_ids bs_GetBlockHeader_def ProcessBlock_def)
  then have "onRequest cr cf now' (BlockReceived (Some (Some h, [None]))) p1
    = Some (Inl nilDereference, closeConn (setProcessor (pr_processor p1) p1))"
    by (simp add: onRequest_def goOn_def isPanic_def)
  with p1(1,5) show ?thesis by blast
qed

definition sample_cuckoo :: "unit cuckoo" where
  "sample_cuckoo = \<lparr>cf_Decode = \<lambda>_. Inr (), cf_New = (), cf_Insert = \<lambda>_ f. (True, f), cf_Lookup = \<lambda>_ _. True\<rparr>"

lemma sample_peer_ready:
  assumes "pinv sample_crypto 371 True chain p"
  shows "ready sample_crypto 371 True (sample_peer p)" "bq_ids (localDownloadQueue (sample_peer p)) = []"
    "bq_ids (localInflightQueue (sample_peer p)) = []" "ignoreBlocks (sample_peer p) = []" "owner (globalQueue (sample_peer p)) i = None"
proof -
  obtain r q where q: "NewPeer 0 ''10.0.0.1:8831'' 371
     \<lparr>n_processor = p, n_inflight = NewBlockQueue, n_peerStore = sample_storage, n_addrs = []\<rparr> = (r, q :: unit peer)" by fastforce
  note n = NewPeer_ok [OF q]
  show "bq_ids (localDownloadQueue (sample_peer p)) = []" "bq_ids (localInflightQueue (sample_peer p)) = []"
    "ignoreBlocks (sample_peer p) = []" "owner (globalQueue (sample_peer p)) i = None"
    using n by (simp_all add: sample_peer_def q new_queue)
  show "ready sample_crypto 371 True (sample_peer p)"
    using n assms by (auto simp: ready_def dl_inv_def sample_peer_def q new_queue)
qed

text \<open>A header above the first block, with a nonce that nobody had to look for.\<close>

definition sample_cheap_header :: block_header where
  "sample_cheap_header = (Header sample_next)\<lparr>Target := - 1, bh_Time := 0, bh_Nonce := 0, Height := 20000, TransactionCount := 1\<rparr>"

theorem nil_transaction_crash_witness:
  "\<exists>p p1 p2. pinv sample_crypto 371 True [sample_first] p
    \<and> onRequest sample_crypto sample_cuckoo 0 (InvBlock [header_ID sample_crypto sample_cheap_header]) (sample_peer p) = Some (Inr True, p1)
    \<and> onRequest sample_crypto sample_cuckoo 0 (BlockReceived (Some (Some sample_cheap_header, [None]))) p1 = Some (Inl nilDereference, p2)"
proof -
  obtain p where p: "pinv sample_crypto 371 True [sample_first] p" "known (p_ledger p) = {371}"
    "p_blockStore p = snd (bs_Store 371 sample_first 0 (p_blockStore sample_node))" by (rule sample_turn)
  let ?i = "header_ID sample_crypto sample_cheap_header"
  have c: "pcore sample_crypto 371 True [sample_first] p" using p(1) by (simp add: pinv_def)
  have n: "length (itoa 20000) = 5" by (simp add: itoa_def digits.simps)
  have i: "?i \<noteq> 371"
    by (simp add: n sample_crypto_def itoa_small sample_cheap_header_def sample_next_def json_key_def json_opt_def str_def
        header_ID_def header_json_def sample_second_def sample_block_def)
  then have u: "GetBranchType (p_ledger p) ?i = Inr UNKNOWN" using branch_type_known(1) [OF c] p(2) by simp
  have prev: "Previous sample_cheap_header = 371" by (simp add: sample_cheap_header_def sample_next_def)
  have h: "bs_headers (p_blockStore p) (Previous sample_cheap_header) \<noteq> None"
    using branch_last [OF pcore_parts(6) [OF c]] sample_first_id(1) by (auto simp: holds_def prev)
  have pl: "plausible (0 div 10 ^ 9) sample_cheap_header"
    by (simp add: plausible_def sample_cheap_header_def LatestCheckpointHeight_def MAX_FUTURE_SECONDS_def i64_small)
  have lc: "pr_ibd (sample_peer p) \<or> LatestCheckpointHeight \<le> Height sample_cheap_header"
    by (simp add: sample_cheap_header_def LatestCheckpointHeight_def)
  note r = sample_peer_ready [OF p(1)]
  have "\<exists>p1 p2. onRequest sample_crypto sample_cuckoo 0 (InvBlock [?i]) (sample_peer p) = Some (Inr True, p1)
    \<and> GetBlockMessage ?i \<in> set (pr_sent p1)
    \<and> onRequest sample_crypto sample_cuckoo 0 (BlockReceived (Some (Some sample_cheap_header, [None]))) p1 = Some (Inl nilDereference, p2)"
    by (rule nil_transaction_crash [OF r(1-3)]) (use r(4,5) u h pl lc in \<open>simp_all add: sample_peer_node\<close>)
  with p(1) show ?thesis by blast
qed

section \<open>Work that could not be made\<close>

text \<open>
  When the next block cannot be made the peer is told so with the identifier of the work, which is set, while there is
  no block. Submitting a header for it dereferences the missing block.
\<close>

lemma failed_work_crash:
  assumes "pr_pubKeys p \<noteq> []" "computeMedianTimestamp h (pr_blockStore p) = Inr m" "\<not> isPanic e" "c_workID ch \<noteq> 0"
    "createNextBlock cr (chance.truncate ch) tipID (Some h) (pr_txQueue p) (pr_blockStore p) (pr_ledger p)
      (pr_pubKeys p ! (c_keyIndex ch mod length (pr_pubKeys p))) (pr_memo p) = Inl e"
  shows "\<exists>p'. createNewWorkBlock cr ch tipID (Some h) p = (Inl e, p')
    \<and> last (pr_sent p') = WorkMessage (c_workID ch) None 0 (Some e)
    \<and> onSubmitWork cr now (c_workID ch) header p' = Some (Inl nilDereference, p')"
  using assms by (simp add: createNewWorkBlock_def onSubmitWork_def Let_def send_def)

end
