(* ===== verification/Peer_Manager_Props.thy ===== *)
theory Peer_Manager_Props
  imports Peer_Manager Peer_Props
begin

text \<open>
  Properties of the peer manager: dialling ends, the sets of connections agree with the connections there are, and a
  node is one of the networks of \<^verbatim>\<open>Peer_Download\<close>.
\<close>

section \<open>Dialling ends\<close>

text \<open>The addresses the index of attempts has entries for. Dialling adds none.\<close>

definition triable :: "peer_storage \<Rightarrow> bytes set" where
  "triable s = {a. \<exists>t. length t = 8 \<and> db_at (ps_db s) (97 # t @ a) \<noteq> None}"

lemma finite_triable: "finite (triable s)"
proof -
  have "triable s \<subseteq> drop 9 ` dom (db_at (ps_db s))" by (force simp: triable_def)
  moreover have "db_at (ps_db s) = map_of (entries (ps_db s))" by (rule ext) (simp add: db_at_def)
  then have "finite (dom (db_at (ps_db s)))" by (simp add: finite_dom_map_of)
  ultimately show ?thesis using finite_surj by blast
qed

lemma decode_key: "decodeLastAttemptTimeKey k = Inr (t, a) \<Longrightarrow> \<exists>b u. k = b # u @ a \<and> length u = 8"
proof -
  assume d: "decodeLastAttemptTimeKey k = Inr (t, a)"
  then obtain b u where k: "k = b # u" by (cases k) (auto simp: decodeLastAttemptTimeKey_def decodeTimeKey_def)
  with d have u: "8 \<le> length u" "a = drop 8 u"
    by (auto simp: decodeLastAttemptTimeKey_def decodeTimeKey_def read_i64_def split: if_splits)
  have "u = take 8 u @ a" "length (take 8 u) = 8" using u by simp_all
  with k show ?thesis by blast
qed

lemma getLoop_triable:
  assumes "getLoop c now n p es addrs = Inr as"
    "\<And>e b u a. e \<in> set es \<Longrightarrow> fst e = b # u @ a \<Longrightarrow> length u = 8 \<Longrightarrow> a \<in> S" "set addrs \<subseteq> S"
  shows "set as \<subseteq> S"
  using assms
proof (induction es arbitrary: addrs)
  case (Cons e es)
  from Cons.prems(1) obtain t a where d: "decodeLastAttemptTimeKey (fst e) = Inr (t, a)"
    by (auto simp: bindE_def split: sum.splits)
  with decode_key [OF d] Cons.prems(2) [of e] have a: "a \<in> S" by fastforce
  have IH: "set as \<subseteq> S" if "getLoop c now n p es addrs' = Inr as" "set addrs' \<subseteq> S" for addrs'
    by (rule Cons.IH [OF that(1) _ that(2)]) (rule Cons.prems(2), auto)
  show ?case
    using Cons.prems(1,3) a d IH [of addrs] IH [of "addrs @ [a]"]
    by (simp add: bindE_def split: if_splits sum.splits option.splits) auto
qed simp

lemma ps_Get_triable:
  assumes "ps_Get c now n s = Inr as"
  shows "set as \<subseteq> triable s"
proof -
  from assms obtain es where es: "db_Range (computeLastAttemptTimeKey 0 []) (computeLastAttemptTimeKey now []) (ps_db s) = Inr es"
    "getLoop c now n s es [] = Inr as" by (auto simp: ps_Get_def bindE_def split: sum.splits)
  have *: "a \<in> triable s" if e: "e \<in> set es" "fst e = b # u @ a" "length u = 8" for e b u a
  proof -
    from e(1) es(1) have m: "e \<in> set (entries (ps_db s))" "97 # be 8 0 \<le> fst e" "fst e < 97 # be 8 now"
      by (auto simp: db_Range_def computeLastAttemptTimeKey_def split: if_splits)
    then have "b = 97" using e(2) by auto
    moreover have "db_at (ps_db s) (fst e) \<noteq> None" using weak_map_of_SomeI [of "fst e" "snd e"] m(1) by (auto simp: db_at_def)
    ultimately show ?thesis using e(2,3) by (auto simp: triable_def)
  qed
  show ?thesis by (rule getLoop_triable [OF es(2)]) (erule *, assumption+, simp)
qed

lemma batch_at_SomeD: "batch_at ops k = Some r \<Longrightarrow> \<exists>x \<in> set ops. op_key x = k \<and> op_val x = r"
  by (induction ops) (auto split: option.splits if_splits)

lemma triable_write:
  assumes w: "ps_Write ops s = (r, s')" and o: "\<And>k v t b. Put k v \<in> set ops \<Longrightarrow> length t = 8 \<Longrightarrow> k = 97 # t @ b \<Longrightarrow> b = a"
  shows "triable s' \<subseteq> insert a (triable s)"
proof -
  obtain db where db: "db_Write ops (ps_db s) = (r, db)" "s' = s\<lparr>ps_db := db\<rparr>" using w by (auto simp: ps_Write_def split: prod.splits)
  show ?thesis
  proof (cases r)
    case (Inl e)
    with db db_Write_Inl have "db = ps_db s" by blast
    with db show ?thesis by auto
  next
    case (Inr u)
    have *: "b = a \<or> b \<in> triable s" if t: "length t = 8" "db_at db (97 # t @ b) \<noteq> None" for t b
    proof (cases "batch_at ops (97 # t @ b)")
      case None
      with t db_Write_Inr(1) [of ops "ps_db s" u db "97 # t @ b"] db(1) Inr show ?thesis by (auto simp: triable_def)
    next
      case (Some v)
      then obtain x where x: "x \<in> set ops" "op_key x = 97 # t @ b" "op_val x = v" using batch_at_SomeD by blast
      obtain y where "v = Some y" using t Some db_Write_Inr(1) [of ops "ps_db s" u db "97 # t @ b"] db(1) Inr by auto
      with x(2,3) have "x = Put (97 # t @ b) y" by (cases x) simp_all
      with x(1) o [of "97 # t @ b" y t b] t(1) show ?thesis by simp
    qed
    show ?thesis
    proof
      fix b
      assume "b \<in> triable s'"
      then obtain t where "length t = 8" "db_at db (97 # t @ b) \<noteq> None" using db(2) by (auto simp: triable_def)
      from * [OF this] show "b \<in> insert a (triable s)" by simp
    qed
  qed
qed

lemma triable_withInfo:
  assumes "withInfo c addr f s = (r, s')" "\<And>info r s'. f info s = (r, s') \<Longrightarrow> triable s' \<subseteq> insert a (triable s)"
  shows "triable s' \<subseteq> insert a (triable s)"
  using assms by (auto simp: withInfo_def split: sum.splits option.splits)

lemma be8_split: "length t = 8 \<Longrightarrow> be 8 x @ a = t @ b \<Longrightarrow> b = a"
  by (simp add: append_eq_append_conv)

lemma triable_delete: "deletePeer addr x y s = (r, s') \<Longrightarrow> triable s' \<subseteq> insert addr (triable s)"
  unfolding deletePeer_def by (erule triable_write) simp

lemma triable_ops:
  "ps_Delete c addr s = (r, s') \<Longrightarrow> triable s' \<subseteq> insert addr (triable s)"
  "OnConnectAttempt c now addr s = (r, s') \<Longrightarrow> triable s' \<subseteq> insert addr (triable s)"
  "OnConnectFailure c now addr s = (r, s') \<Longrightarrow> triable s' \<subseteq> insert addr (triable s)"
  "OnConnectSuccess c now addr s = (r, s') \<Longrightarrow> triable s' \<subseteq> insert addr (triable s)"
  "OnDisconnect addr s = (r, s') \<Longrightarrow> triable s' \<subseteq> insert addr (triable s)"
proof -
  note k = key_defs be8_split
  show "ps_Delete c addr s = (r, s') \<Longrightarrow> triable s' \<subseteq> insert addr (triable s)"
    unfolding ps_Delete_def by (erule triable_withInfo) (rule triable_delete)
  show "OnConnectAttempt c now addr s = (r, s') \<Longrightarrow> triable s' \<subseteq> insert addr (triable s)"
    unfolding OnConnectAttempt_def Let_def
    by (erule triable_withInfo, erule triable_write) (auto simp: key_defs dest: be8_split)
  show "OnConnectFailure c now addr s = (r, s') \<Longrightarrow> triable s' \<subseteq> insert addr (triable s)"
    unfolding OnConnectFailure_def by (erule triable_withInfo) (auto dest: triable_delete split: if_splits)
  show "OnConnectSuccess c now addr s = (r, s') \<Longrightarrow> triable s' \<subseteq> insert addr (triable s)"
  proof -
    have w: "triable s' \<subseteq> insert addr (triable s)" if "ps_Write [Delete k, writeToBatch c i addr, Put (computeLastSuccessTimeKey t addr) [1]] s = (r, s')" for k i t r s'
      using that by (rule triable_write) (auto simp: key_defs)
    have t: "triable (q\<lparr>ps_connected := x\<rparr>) = triable q" for q x by (simp add: triable_def)
    show "OnConnectSuccess c now addr s = (r, s') \<Longrightarrow> triable s' \<subseteq> insert addr (triable s)"
      unfolding OnConnectSuccess_def Let_def
      by (erule triable_withInfo) (auto simp: bindS_def t dest: w split: prod.splits sum.splits)
  qed
  show "OnDisconnect addr s = (r, s') \<Longrightarrow> triable s' \<subseteq> insert addr (triable s)"
    by (auto simp: OnDisconnect_def triable_def)
qed

abbreviation pm_store :: "'f peer_manager \<Rightarrow> peer_storage" where "pm_store pm \<equiv> n_peerStore (pm_node pm)"
abbreviation pr_store :: "'f peer \<Rightarrow> peer_storage" where "pr_store p \<equiv> n_peerStore (pr_node p)"

lemma triable_onPeerStore:
  assumes "onPeerStore f p = (r, p')" "\<And>r s'. f (pr_store p) = (r, s') \<Longrightarrow> triable s' \<subseteq> insert a (triable (pr_store p))"
  shows "triable (pr_store p') \<subseteq> insert a (triable (pr_store p))"
  using assms by (auto simp: onPeerStore_def split: prod.splits)

lemma triable_logged:
  assumes "logged (onPeerStore f p) = (r, p')" "\<And>r s'. f (pr_store p) = (r, s') \<Longrightarrow> triable s' \<subseteq> insert a (triable (pr_store p))"
  shows "triable (pr_store p') \<subseteq> insert a (triable (pr_store p))"
proof -
  obtain x where "onPeerStore f p = (x, p')" using assms(1) by (auto simp: logged_def split: prod.splits sum.splits)
  then show ?thesis using assms(2) by (rule triable_onPeerStore)
qed

lemma triable_Connect:
  assumes "Connect c t d addr p = (code, r, p')"
  shows "triable (pr_store p') \<subseteq> insert addr (triable (pr_store p))"
proof -
  obtain x q where q: "onPeerStore (OnConnectAttempt c (t div 10 ^ 9) addr) p = (x, q)" by fastforce
  have s: "triable (pr_store q) \<subseteq> insert addr (triable (pr_store p))" using q by (rule triable_onPeerStore) (rule triable_ops)
  obtain x1 q1 where q1: "logged (onPeerStore (OnConnectSuccess c (t div 10 ^ 9) addr) q) = (x1, q1)" by fastforce
  have s1: "triable (pr_store q1) \<subseteq> insert addr (triable (pr_store q))" using q1 by (rule triable_logged) (rule triable_ops)
  obtain x2 q2 where q2: "logged (onPeerStore (OnDisconnect addr) q1) = (x2, q2)" by fastforce
  have s2: "triable (pr_store q2) \<subseteq> insert addr (triable (pr_store q1))" using q2 by (rule triable_logged) (rule triable_ops)
  obtain x3 q3 where q3: "logged (onPeerStore (OnConnectFailure c t addr) q) = (x3, q3)" by fastforce
  have s3: "triable (pr_store q3) \<subseteq> insert addr (triable (pr_store q))" using q3 by (rule triable_logged) (rule triable_ops)
  let ?q = "q\<lparr>pr_outbound := True\<rparr>"
  obtain x4 q4 where q4: "onPeerStore (OnConnectSuccess c (t div 10 ^ 9) addr) ?q = (x4, q4)" by fastforce
  have s4: "triable (pr_store q4) \<subseteq> insert addr (triable (pr_store ?q))" using q4 by (rule triable_onPeerStore) (rule triable_ops)
  have "p' \<in> {q, q1, q2, q3, q4}"
    using assms q q1 q2 q3 q4
    by (auto simp: Connect_def bindS_def split: sum.splits dial.splits if_splits)
  with s s1 s2 s3 s4 show ?thesis by auto
qed

text \<open>What a connection attempt does to the manager.\<close>

lemma connect_cases:
  fixes pm :: "'f peer_manager"
  assumes "connect c at addr pm = ((code, r), pm')"
  obtains (refused) e where "r = Inl e" "pm' = pm \<or> pm' = pm\<lparr>pm_next := Suc (pm_next pm)\<rparr>"
  | (failed) p p' e where "NewPeer (at_time at addr div 10 ^ 9) (at_remote at addr) (pm_genesisID pm) (pm_node pm) = (Inr (), p :: 'f peer)"
      "Connect c (at_time at addr) (at_dial at addr) addr p = (code, Inl e, p')" "r = Inl e"
      "pm' = pm\<lparr>pm_next := Suc (pm_next pm), pm_node := pr_node p'\<rparr>"
  | (made) p p' where "NewPeer (at_time at addr div 10 ^ 9) (at_remote at addr) (pm_genesisID pm) (pm_node pm) = (Inr (), p :: 'f peer)"
      "Connect c (at_time at addr) (at_dial at addr) addr p = (code, Inr (), p')" "r = Inr ()"
      "length (outPeers pm) \<noteq> MAX_OUTBOUND_PEER_CONNECTIONS" "addr \<notin> fst ` set (outPeers pm)"
      "pm' = pm\<lparr>pm_next := Suc (pm_next pm), outPeers := outPeers pm @ [(addr, pm_next pm)], pm_node := pr_node p',
         pm_conns := (pm_conns pm)(pm_next pm \<mapsto> startReader (at_time at addr) p'),
         pm_handlers := (pm_handlers pm)(pm_next pm \<mapsto> FromOutbound addr)\<rparr>"
proof -
  obtain x p where p: "NewPeer (at_time at addr div 10 ^ 9) (at_remote at addr) (pm_genesisID pm) (pm_node pm) = (x, p :: 'f peer)" by fastforce
  show ?thesis
  proof (cases x)
    case (Inl e)
    with assms p have "r = Inl e" "pm' = pm" by (simp_all add: connect_def Let_def)
    with refused show ?thesis by blast
  next
    case (Inr u)
    with p have n: "NewPeer (at_time at addr div 10 ^ 9) (at_remote at addr) (pm_genesisID pm) (pm_node pm) = (Inr (), p)" by simp
    show ?thesis
    proof (cases "length (outPeers pm) = MAX_OUTBOUND_PEER_CONNECTIONS \<or> addr \<in> fst ` set (outPeers pm)")
      case True
      with assms n have "r = Inl (Err ''Too many peer connections'')" "pm' = pm\<lparr>pm_next := Suc (pm_next pm)\<rparr>"
        by (auto simp: connect_def Let_def addToOutboundSet_def split: if_splits)
      with refused show ?thesis by blast
    next
      case False
      have f: "filter (\<lambda>(a, _). a \<noteq> addr) (outPeers pm) = outPeers pm" using False by (force intro!: filter_True)
      obtain code' y p' where y: "Connect c (at_time at addr) (at_dial at addr) addr p = (code', y, p')" by (metis prod_cases3)
      show ?thesis
      proof (cases y)
        case (Inl e)
        with assms n False y have "code' = code" "r = Inl e"
          "pm' = removeFromOutboundSet addr (pm\<lparr>pm_next := pm_next pm + 1, outPeers := outPeers pm @ [(addr, pm_next pm)], pm_node := pr_node p'\<rparr>)"
          by (simp_all add: connect_def Let_def addToOutboundSet_def)
        with failed [OF n, of e p'] y Inl f show ?thesis by (simp add: removeFromOutboundSet_def)
      next
        case (Inr v)
        with assms n False y made [OF n, of p'] show ?thesis by (simp add: connect_def Let_def addToOutboundSet_def)
      qed
    qed
  qed
qed

lemma connect_triable:
  assumes "connect c at addr pm = ((code, r), pm')"
  shows "triable (pm_store pm') \<subseteq> insert addr (triable (pm_store pm))"
  using assms
proof (cases rule: connect_cases)
  case (refused e)
  then show ?thesis by auto
next
  case (failed p p' e)
  from triable_Connect [OF failed(2)] NewPeer_ok [OF failed(1)] show ?thesis by (simp add: failed(4))
next
  case (made p p')
  from triable_Connect [OF made(2)] NewPeer_ok [OF made(1)] show ?thesis by (simp add: made(6))
qed

lemma connectAddrs_triable:
  assumes "connectAddrs c at addrs tried pm = (r, pm')" "set addrs \<subseteq> U" "triable (pm_store pm) \<subseteq> U"
  shows "triable (pm_store pm') \<subseteq> U \<and> (\<forall>t. r = Inr (Some t) \<longrightarrow> set t = set addrs \<union> set tried \<and> set addrs \<inter> set tried = {})"
  using assms
proof (induction addrs arbitrary: tried pm)
  case (Cons addr addrs)
  show ?case
  proof (cases "addr \<in> set tried")
    case True
    with Cons.prems show ?thesis by auto
  next
    case new: False
    have go: ?thesis if "connectAddrs c at addrs (addr # tried) q = (r, pm')" "triable (pm_store q) \<subseteq> insert addr (triable (pm_store pm))" for q
      using Cons.IH [OF that(1)] that(2) Cons.prems(2,3) new by auto
    show ?thesis
    proof (cases "hostOf addr \<in> set (banMap pm)")
      case True
      obtain x s where s: "ps_Delete c addr (pm_store pm) = (x, s)" by fastforce
      let ?q = "pm\<lparr>pm_node := (pm_node pm)\<lparr>n_peerStore := s\<rparr>\<rparr>"
      have t: "triable (pm_store ?q) \<subseteq> insert addr (triable (pm_store pm))" using triable_ops(1) [OF s] by simp
      have o: "onStore (ps_Delete c addr) pm = (x, ?q)" by (simp add: onStore_def s)
      show ?thesis
      proof (cases x)
        case (Inl e)
        show ?thesis
        proof (cases "isPanic e")
          case True
          with Cons.prems Inl o t new \<open>hostOf addr \<in> set (banMap pm)\<close> show ?thesis by (auto simp: logged_def bindS_def)
        next
          case False
          with Cons.prems(1) Inl o new \<open>hostOf addr \<in> set (banMap pm)\<close> have "connectAddrs c at addrs (addr # tried) ?q = (r, pm')"
            by (simp add: logged_def bindS_def)
          with go t show ?thesis by blast
        qed
      next
        case (Inr u)
        with Cons.prems(1) o new True have "connectAddrs c at addrs (addr # tried) ?q = (r, pm')"
          by (simp add: logged_def bindS_def)
        with go t show ?thesis by blast
      qed
    next
      case False
      obtain code x q where q: "connect c at addr pm = ((code, x), q)" by (metis surj_pair)
      note t = connect_triable [OF q]
      consider "connectAddrs c at addrs (addr # tried) q = (r, pm')" | e where "r = Inl e" "pm' = q"
        using Cons.prems(1) new False q by (cases x) (auto split: if_splits)
      then show ?thesis
      proof cases
        case 1
        with go t show ?thesis by blast
      next
        case 2
        with t Cons.prems(2,3) show ?thesis by auto
      qed
    qed
  qed
qed auto

lemma connectLoop_total:
  assumes "finite U" "triable (pm_store pm) \<subseteq> U" "Q pm"
    and Q: "\<And>addrs tried pm r pm'. connectAddrs c at addrs tried pm = (r, pm') \<Longrightarrow> Q pm \<Longrightarrow> Q pm'"
  shows "\<exists>r pm'. connectLoop c at want n tried pm = Some (r, pm') \<and> Q pm'"
  using assms(2,3)
proof (induction "card (U - set tried)" arbitrary: n tried pm rule: less_induct)
  case less
  let ?get = "ps_Get c (at_query at n) (want - int (outboundPeerCount pm)) (pm_store pm)"
  show ?case
  proof (cases "want - int (outboundPeerCount pm) \<le> 0 \<or> (\<exists>e. ?get = Inl e) \<or> ?get = Inr []")
    case True
    with less.prems(2) show ?thesis by (subst connectLoop.simps) auto
  next
    case False
    then obtain addr addrs where g: "?get = Inr (addr # addrs)" by (cases ?get; cases "projr ?get") auto
    have sub: "set (addr # addrs) \<subseteq> U" using ps_Get_triable [OF g] less.prems(1) by blast
    obtain r q where q: "connectAddrs c at (addr # addrs) tried pm = (r, q)" by fastforce
    note t = connectAddrs_triable [OF q sub less.prems(1)] and Qq = Q [OF q less.prems(2)]
    have "\<exists>x pm'. connectLoop c at want (Suc n) tried' q = Some (x, pm') \<and> Q pm'" if "r = Inr (Some tried')" for tried'
    proof (rule less.hyps)
      have "set tried' = set (addr # addrs) \<union> set tried" "addr \<notin> set tried" using t that by auto
      then have "U - set tried' \<subset> U - set tried" using sub by auto
      then show "card (U - set tried') < card (U - set tried)" using assms(1) by (simp add: psubset_card_mono)
      show "triable (pm_store q) \<subseteq> U" using t by blast
      show "Q q" by (rule Qq)
    qed
    then show ?thesis
      using False g q Qq by (subst connectLoop.simps) (auto split: sum.splits option.splits)
  qed
qed

lemma connectToPeers_total:
  assumes "Q pm" and Q: "\<And>addrs tried pm r pm'. connectAddrs c at addrs tried pm = (r, pm') \<Longrightarrow> Q pm \<Longrightarrow> Q pm'"
    and C: "\<And>addr pm x pm'. connect c at addr pm = (x, pm') \<Longrightarrow> Q pm \<Longrightarrow> Q pm'"
  shows "\<exists>r pm'. connectToPeers c at now pm = Some (r, pm') \<and> Q pm'"
proof -
  have l: "\<exists>r pm'. connectLoop c at want 0 [] pm = Some (r, pm') \<and> Q pm'" for want
    by (rule connectLoop_total [where Q = Q, OF finite_triable order_refl assms(1)]) (rule Q)
  show ?thesis
    using l assms(1) C by (auto simp: connectToPeers_def split: prod.splits sum.splits)
qed

section \<open>Sets and connections\<close>

definition hostCount :: "bytes \<Rightarrow> 'f peer_manager \<Rightarrow> nat" where
  "hostCount h pm = length (filter (\<lambda>e. hostOf (fst e) = h) (inPeers pm))"

text \<open>
  The sets stay within their limits, the counts of the hosts are right, and an entry belongs to exactly the connection
  whose close handler removes it. No inbound connection is from a banned host.
\<close>

definition pm_inv :: "'f peer_manager \<Rightarrow> bool" where
  "pm_inv pm \<longleftrightarrow> 0 \<le> inboundLimit pm \<and> int64 (inboundLimit pm)
     \<and> distinct (map fst (outPeers pm)) \<and> length (outPeers pm) \<le> MAX_OUTBOUND_PEER_CONNECTIONS
     \<and> distinct (map fst (inPeers pm)) \<and> int (length (inPeers pm)) \<le> inboundLimit pm
     \<and> (\<forall>h. inPeerCountByHost pm h = (if hostCount h pm = 0 then None else Some (int (hostCount h pm))))
     \<and> (\<forall>a k. (a, k) \<in> set (outPeers pm) \<longleftrightarrow> pm_handlers pm k = Some (FromOutbound a))
     \<and> (\<forall>a k. (a, k) \<in> set (inPeers pm) \<longleftrightarrow> pm_handlers pm k = Some (FromInbound a))
     \<and> dom (pm_handlers pm) = dom (pm_conns pm) \<and> (\<forall>k. pm_next pm \<le> k \<longrightarrow> pm_conns pm k = None)
     \<and> (\<forall>e \<in> set (inPeers pm). hostOf (fst e) \<notin> set (banMap pm)) \<and> (\<forall>a \<in> set (pm_upgrading pm). hostOf (str a) \<notin> set (banMap pm))"

lemma pm_inv_parts:
  assumes "pm_inv pm"
  shows "0 \<le> inboundLimit pm" "int64 (inboundLimit pm)" "distinct (map fst (outPeers pm))"
    "length (outPeers pm) \<le> MAX_OUTBOUND_PEER_CONNECTIONS" "distinct (map fst (inPeers pm))" "int (length (inPeers pm)) \<le> inboundLimit pm"
    "inPeerCountByHost pm h = (if hostCount h pm = 0 then None else Some (int (hostCount h pm)))"
    "(a, k) \<in> set (outPeers pm) \<longleftrightarrow> pm_handlers pm k = Some (FromOutbound a)"
    "(a, k) \<in> set (inPeers pm) \<longleftrightarrow> pm_handlers pm k = Some (FromInbound a)"
    "dom (pm_handlers pm) = dom (pm_conns pm)" "pm_next pm \<le> k \<Longrightarrow> pm_conns pm k = None"
    "e \<in> set (inPeers pm) \<Longrightarrow> hostOf (fst e) \<notin> set (banMap pm)" "r \<in> set (pm_upgrading pm) \<Longrightarrow> hostOf (str r) \<notin> set (banMap pm)"
  using assms unfolding pm_inv_def by blast+

lemma pm_invI:
  assumes "0 \<le> inboundLimit pm" "int64 (inboundLimit pm)" "distinct (map fst (outPeers pm))"
    "length (outPeers pm) \<le> MAX_OUTBOUND_PEER_CONNECTIONS" "distinct (map fst (inPeers pm))" "int (length (inPeers pm)) \<le> inboundLimit pm"
    "\<And>h. inPeerCountByHost pm h = (if hostCount h pm = 0 then None else Some (int (hostCount h pm)))"
    "\<And>a k. (a, k) \<in> set (outPeers pm) \<longleftrightarrow> pm_handlers pm k = Some (FromOutbound a)"
    "\<And>a k. (a, k) \<in> set (inPeers pm) \<longleftrightarrow> pm_handlers pm k = Some (FromInbound a)"
    "dom (pm_handlers pm) = dom (pm_conns pm)" "\<And>k. pm_next pm \<le> k \<Longrightarrow> pm_conns pm k = None"
    "\<And>e. e \<in> set (inPeers pm) \<Longrightarrow> hostOf (fst e) \<notin> set (banMap pm)" "\<And>r. r \<in> set (pm_upgrading pm) \<Longrightarrow> hostOf (str r) \<notin> set (banMap pm)"
  shows "pm_inv pm"
  using assms unfolding pm_inv_def by blast

lemma pm_inv_other [simp]:
  "pm_inv (pm\<lparr>pm_node := n\<rparr>) = pm_inv pm" "pm_inv (pm\<lparr>accepting := b\<rparr>) = pm_inv pm" "pm_inv (pm\<lparr>pm_open := b\<rparr>) = pm_inv pm"
  "pm_inv (pm\<lparr>myIP := ip\<rparr>) = pm_inv pm"
  by (simp_all add: pm_inv_def hostCount_def)

lemma pm_inv_next: "pm_inv pm \<Longrightarrow> pm_inv (pm\<lparr>pm_next := Suc (pm_next pm)\<rparr>)"
  by (simp add: pm_inv_def hostCount_def)

lemma pm_inv_conn: "pm_inv pm \<Longrightarrow> pm_conns pm k = Some p \<Longrightarrow> pm_inv (pm\<lparr>pm_conns := (pm_conns pm)(k \<mapsto> p')\<rparr>)"
  unfolding pm_inv_def hostCount_def by (simp add: insert_absorb domI) (metis option.distinct(1))

lemma pm_inv_upgrading:
  "pm_inv pm \<Longrightarrow> hostOf (str a) \<notin> set (banMap pm) \<Longrightarrow> pm_inv (pm\<lparr>pm_upgrading := pm_upgrading pm @ [a]\<rparr>)"
  "pm_inv pm \<Longrightarrow> pm_inv (pm\<lparr>pm_upgrading := remove1 a (pm_upgrading pm)\<rparr>)"
  by (use set_remove1_subset in \<open>fastforce simp: pm_inv_def hostCount_def\<close>)+

lemma onStore_inv: "onStore f pm = (r, pm') \<Longrightarrow> pm_inv pm' = pm_inv pm"
  by (auto simp: onStore_def split: prod.splits)

lemma no_handler: "pm_inv pm \<Longrightarrow> pm_handlers pm (pm_next pm) = None" "pm_inv pm \<Longrightarrow> (a, pm_next pm) \<notin> set (outPeers pm)"
    "pm_inv pm \<Longrightarrow> (a, pm_next pm) \<notin> set (inPeers pm)"
proof -
  assume p: "pm_inv pm"
  have "pm_next pm \<notin> dom (pm_handlers pm)" using pm_inv_parts(10) [OF p] pm_inv_parts(11) [OF p, of "pm_next pm"] by auto
  then show n: "pm_handlers pm (pm_next pm) = None" by blast
  then show "(a, pm_next pm) \<notin> set (outPeers pm)" "(a, pm_next pm) \<notin> set (inPeers pm)"
    using pm_inv_parts(8,9) [OF p] by auto
qed

lemma pm_inv_outbound:
  assumes p: "pm_inv pm" and a: "length (outPeers pm) \<noteq> MAX_OUTBOUND_PEER_CONNECTIONS" "addr \<notin> fst ` set (outPeers pm)"
  shows "pm_inv (pm\<lparr>pm_next := Suc (pm_next pm), outPeers := outPeers pm @ [(addr, pm_next pm)], pm_node := n,
    pm_conns := (pm_conns pm)(pm_next pm \<mapsto> q), pm_handlers := (pm_handlers pm)(pm_next pm \<mapsto> FromOutbound addr)\<rparr>)"
proof -
  note d = pm_inv_parts [OF p] and nh = no_handler [OF p]
  have "length (outPeers pm) < MAX_OUTBOUND_PEER_CONNECTIONS" using d(4) a(1) by linarith
  with d nh a(2) show ?thesis
    unfolding pm_inv_def hostCount_def by auto
qed

lemma pm_inv_inbound:
  assumes p: "pm_inv pm" and s: "addToInboundSet addr (pm_next pm) (pm\<lparr>pm_next := Suc (pm_next pm)\<rparr>) = (True, pm')"
    and b: "hostOf addr \<notin> set (banMap pm)"
  shows "pm_inv (pm'\<lparr>pm_conns := (pm_conns pm')(pm_next pm \<mapsto> q), pm_handlers := (pm_handlers pm')(pm_next pm \<mapsto> FromInbound addr)\<rparr>)"
proof -
  note d = pm_inv_parts [OF p] and nh = no_handler [OF p]
  obtain host port where h: "SplitHostPort addr = Inr (host, port)" using s by (auto simp: addToInboundSet_def split: sum.splits)
  then have ho: "hostOf addr = host" by (simp add: hostOf_def)
  have a: "int (length (inPeers pm)) \<noteq> inboundLimit pm" "addr \<notin> fst ` set (inPeers pm)"
    and pm': "pm' = pm\<lparr>pm_next := Suc (pm_next pm), inPeerCountByHost := (inPeerCountByHost pm)(host \<mapsto>
       (case inPeerCountByHost pm host of None \<Rightarrow> 1 | Some n \<Rightarrow> i64 (n + 1))), inPeers := inPeers pm @ [(addr, pm_next pm)]\<rparr>"
    using s h by (auto simp: addToInboundSet_def split: if_splits)
  have lim: "int (length (inPeers pm)) < inboundLimit pm" using d(6) a(1) by linarith
  have "hostCount host pm \<le> length (inPeers pm)" by (simp add: hostCount_def)
  then have "i64 (int (hostCount host pm) + 1) = int (hostCount host pm) + 1"
    by (intro i64_id) (use lim d(2) in \<open>simp add: int64_def\<close>)
  then have c: "(case inPeerCountByHost pm host of None \<Rightarrow> 1 | Some n \<Rightarrow> i64 (n + 1)) = int (hostCount host pm) + 1"
    by (simp add: d(7))
  let ?pm = "pm'\<lparr>pm_conns := (pm_conns pm')(pm_next pm \<mapsto> q), pm_handlers := (pm_handlers pm')(pm_next pm \<mapsto> FromInbound addr)\<rparr>"
  have hc: "hostCount x ?pm = hostCount x pm + (if x = host then 1 else 0)" for x by (auto simp: hostCount_def pm' ho)
  have "inPeerCountByHost ?pm x = (if hostCount x ?pm = 0 then None else Some (int (hostCount x ?pm)))" for x
    unfolding hc using d(7) [of x] c by (simp add: pm')
  with d nh a(2) lim b show ?thesis
    unfolding pm_inv_def pm' by auto
qed

lemma filter_key:
  assumes "distinct (map fst es)" "(addr, k) \<in> set es"
  shows "length (filter (\<lambda>e. hostOf (fst e) = h) (filter (\<lambda>(a, _). a \<noteq> addr) es)) + (if hostOf addr = h then 1 else 0)
    = length (filter (\<lambda>e. hostOf (fst e) = h) es)"
  using assms
proof (induction es)
  case (Cons e es)
  show ?case
  proof (cases "fst e = addr")
    case True
    with Cons.prems(1) have "addr \<notin> fst ` set es" by simp
    then have "filter (\<lambda>(a, _). a \<noteq> addr) es = es" by (force intro!: filter_True)
    with True show ?thesis by (cases e) auto
  next
    case False
    with Cons show ?thesis by (cases e) auto
  qed
qed simp

lemma in_filter_key: "(a, k) \<in> set (filter (\<lambda>(a, _). a \<noteq> addr) es) \<longleftrightarrow> (a, k) \<in> set es \<and> a \<noteq> addr"
  by auto

lemma distinct_filter_key: "distinct (map fst es) \<Longrightarrow> distinct (map fst (filter P es))"
  by (rule distinct_map_filter)

lemma key_unique: "distinct (map fst es) \<Longrightarrow> (a, k) \<in> set es \<Longrightarrow> (a, j) \<in> set es \<Longrightarrow> j = k"
  by (metis eq_key_imp_eq_value)

text \<open>The end of a connection.\<close>

lemma pm_inv_end:
  assumes p: "pm_inv pm" and k: "pm_conns pm k = Some q"
  shows "pm_inv (runHandler (pm_handlers pm k)
    (pm\<lparr>pm_node := n, pm_conns := (pm_conns pm)(k := None), pm_handlers := (pm_handlers pm)(k := None)\<rparr>))"
proof -
  note d = pm_inv_parts [OF p]
  have "k \<in> dom (pm_handlers pm)" using d(10) k by auto
  then obtain h where h: "pm_handlers pm k = Some h" by blast
  let ?H = "(pm_handlers pm)(k := None)" and ?C = "(pm_conns pm)(k := None)"
  have dom: "dom ?H = dom ?C" using d(10) by auto
  have fresh: "?C j = None" if "pm_next pm \<le> j" for j using d(11) [OF that] by simp
  show ?thesis
  proof (cases h)
    case (FromOutbound addr)
    let ?es = "filter (\<lambda>(a, _). a \<noteq> addr) (outPeers pm)"
    let ?pm = "pm\<lparr>pm_node := n, pm_conns := ?C, pm_handlers := ?H, outPeers := ?es\<rparr>"
    have m: "(addr, k) \<in> set (outPeers pm)" using d(8) h FromOutbound by simp
    have o: "(a, j) \<in> set ?es \<longleftrightarrow> ?H j = Some (FromOutbound a)" for a j
    proof (cases "j = k")
      case True
      with d(8) [of a k] h FromOutbound show ?thesis by auto
    next
      case False
      with d(8) [of a j] key_unique [OF d(3) m, of j] show ?thesis by (auto simp: in_filter_key)
    qed
    have i: "(a, j) \<in> set (inPeers pm) \<longleftrightarrow> ?H j = Some (FromInbound a)" for a j
      using d(9) [of a j] h FromOutbound by auto
    have l: "length ?es \<le> MAX_OUTBOUND_PEER_CONNECTIONS"
      using d(4) length_filter_le [of "\<lambda>(a, _). a \<noteq> addr" "outPeers pm"] by linarith
    have "pm_inv ?pm"
    proof (rule pm_invI)
      show "inPeerCountByHost ?pm x = (if hostCount x ?pm = 0 then None else Some (int (hostCount x ?pm)))" for x
        using d(7) [of x] by (simp add: hostCount_def)
      show "(a, j) \<in> set (outPeers ?pm) \<longleftrightarrow> pm_handlers ?pm j = Some (FromOutbound a)" for a j using o by simp
      show "(a, j) \<in> set (inPeers ?pm) \<longleftrightarrow> pm_handlers ?pm j = Some (FromInbound a)" for a j using i by simp
      show "distinct (map fst (outPeers ?pm))" using distinct_filter_key [OF d(3)] by simp
    qed (use d(1,2,5,6,12,13) l dom fresh in simp_all)
    then show ?thesis by (simp add: runHandler_def h FromOutbound removeFromOutboundSet_def)
  next
    case (FromInbound addr)
    let ?es = "filter (\<lambda>(a, _). a \<noteq> addr) (inPeers pm)" and ?h = "hostOf addr"
    have m: "(addr, k) \<in> set (inPeers pm)" using d(9) h FromInbound by simp
    note fk = filter_key [OF d(5) m]
    have pos: "hostCount ?h pm \<noteq> 0" using fk [of ?h] unfolding hostCount_def by (simp only: if_True refl)
    have "hostCount ?h pm \<le> length (inPeers pm)" by (simp add: hostCount_def)
    then have i64: "i64 (int (hostCount ?h pm) - 1) = int (hostCount ?h pm) - 1"
      by (intro i64_id) (use d(2,6) pos in \<open>simp add: int64_def\<close>)
    let ?M = "(inPeerCountByHost pm)(?h := if int (hostCount ?h pm) - 1 = 0 then None else Some (int (hostCount ?h pm) - 1))"
    let ?pm = "pm\<lparr>pm_node := n, pm_conns := ?C, pm_handlers := ?H, inPeers := ?es, inPeerCountByHost := ?M\<rparr>"
    have hc: "hostCount x ?pm = hostCount x pm - (if ?h = x then 1 else 0)" for x
      using fk [of x] unfolding hostCount_def by (simp del: filter_filter)
    have i: "(a, j) \<in> set ?es \<longleftrightarrow> ?H j = Some (FromInbound a)" for a j
    proof (cases "j = k")
      case True
      with d(9) [of a k] h FromInbound show ?thesis by auto
    next
      case False
      with d(9) [of a j] key_unique [OF d(5) m, of j] show ?thesis by (auto simp: in_filter_key)
    qed
    have o: "(a, j) \<in> set (outPeers pm) \<longleftrightarrow> ?H j = Some (FromOutbound a)" for a j
      using d(8) [of a j] h FromInbound by auto
    have "pm_inv ?pm"
    proof (rule pm_invI)
      show "inPeerCountByHost ?pm x = (if hostCount x ?pm = 0 then None else Some (int (hostCount x ?pm)))" for x
        unfolding hc using d(7) [of x] pos by (cases "?h = x") (simp_all add: of_nat_diff Suc_le_eq)
      show "(a, j) \<in> set (outPeers ?pm) \<longleftrightarrow> pm_handlers ?pm j = Some (FromOutbound a)" for a j using o by simp
      show "(a, j) \<in> set (inPeers ?pm) \<longleftrightarrow> pm_handlers ?pm j = Some (FromInbound a)" for a j using i by simp
      show "distinct (map fst (inPeers ?pm))" using distinct_filter_key [OF d(5)] by simp
      show "int (length (inPeers ?pm)) \<le> inboundLimit ?pm"
        by (simp, rule order_trans [OF _ d(6)], simp)
      show "hostOf (fst e) \<notin> set (banMap ?pm)" if "e \<in> set (inPeers ?pm)" for e using that d(12) [of e] by simp
    qed (use d(1-4,13) dom fresh in simp_all)
    moreover have "runHandler (pm_handlers pm k) (pm\<lparr>pm_node := n, pm_conns := ?C, pm_handlers := ?H\<rparr>) = ?pm"
      using d(7) [of ?h] pos i64 by (simp add: runHandler_def h FromInbound removeFromInboundSet_def Let_def)
    ultimately show ?thesis by simp
  qed
qed

section \<open>A node is a network\<close>

definition node_ok :: "crypto \<Rightarrow> 'f cuckoo \<Rightarrow> wire \<Rightarrow> info_codec \<Rightarrow> block_id \<Rightarrow> node \<Rightarrow> 'f peer_manager \<Rightarrow> bool" where
  "node_ok cr cf w c gid n0 pm \<longleftrightarrow> pm_inv pm \<and> pm_genesisID pm = gid \<and> network cr cf w c gid n0 (pm_node pm) (pm_conns pm)"

text \<open>The node the network started from has a chain, and nothing in flight.\<close>

definition chained :: "crypto \<Rightarrow> block_id \<Rightarrow> bool \<Rightarrow> node \<Rightarrow> bool" where
  "chained cr gid prune n0 \<longleftrightarrow> noZeroID cr \<and> (\<exists>chain. pinv cr gid prune chain (n_processor n0)) \<and> n_inflight n0 = NewBlockQueue"

lemma node_ok_nw: "node_ok cr cf w c gid n0 pm \<Longrightarrow> chained cr gid prune n0 \<Longrightarrow> nw_inv cr gid prune (pm_node pm) (pm_conns pm)"
  unfolding node_ok_def chained_def using network_inv by blast

lemma node_ok_node:
  assumes "node_ok cr cf w c gid n0 pm" "n_processor n = n_processor (pm_node pm)" "n_inflight n = n_inflight (pm_node pm)"
  shows "node_ok cr cf w c gid n0 (pm\<lparr>pm_node := n\<rparr>)"
proof -
  have "network cr cf w c gid n0 (pm_node pm) (pm_conns pm)" using assms(1) by (simp add: node_ok_def)
  from network.local [OF this, of n] assms show ?thesis by (simp add: node_ok_def fed.none)
qed

lemma node_ok_flags [simp]:
  "node_ok cr cf w c gid n0 (pm\<lparr>accepting := b\<rparr>) = node_ok cr cf w c gid n0 pm"
  "node_ok cr cf w c gid n0 (pm\<lparr>pm_open := b\<rparr>) = node_ok cr cf w c gid n0 pm"
  "node_ok cr cf w c gid n0 (pm\<lparr>myIP := ip\<rparr>) = node_ok cr cf w c gid n0 pm"
  by (simp_all add: node_ok_def)

lemma onStore_ok: "onStore f pm = (r, pm') \<Longrightarrow> node_ok cr cf w c gid n0 pm \<Longrightarrow> node_ok cr cf w c gid n0 pm'"
  by (auto simp: onStore_def intro: node_ok_node split: prod.splits)

lemma Connect_Inr: "Connect c t d addr p = (code, Inr u, p') \<Longrightarrow> d = Dialled"
  by (cases d) (auto simp: Connect_def bindS_def split: prod.splits sum.splits if_splits)

lemma connect_ok:
  fixes pm :: "'f peer_manager"
  assumes "connect c at addr pm = (x, pm')" and ok: "node_ok cr cf w c gid n0 pm"
  shows "node_ok cr cf w c gid n0 pm'"
proof -
  have inv: "pm_inv pm" and g: "pm_genesisID pm = gid" and nw: "network cr cf w c gid n0 (pm_node pm) (pm_conns pm)"
    using ok by (simp_all add: node_ok_def)
  obtain code r where x: "x = (code, r)" by fastforce
  from assms(1) [unfolded x] show ?thesis
  proof (cases rule: connect_cases)
    case (refused e)
    with ok pm_inv_next [OF inv] show ?thesis by (auto simp: node_ok_def)
  next
    case (failed p p' e)
    have "n_processor (pr_node p') = n_processor (pm_node pm)" "n_inflight (pr_node p') = n_inflight (pm_node pm)"
      using Connect_still [OF failed(2)] NewPeer_ok [OF failed(1)] by (auto simp: still_def idle_def)
    from node_ok_node [OF ok this] have "node_ok cr cf w c gid n0 (pm\<lparr>pm_node := pr_node p'\<rparr>)" .
    with pm_inv_next [OF inv] failed(4) show ?thesis by (auto simp: node_ok_def)
  next
    case (made p p')
    note c = made(2) [unfolded Connect_Inr [OF made(2)]]
    have "pm_conns pm (pm_next pm) = None" by (rule pm_inv_parts(11) [OF inv order_refl])
    from network.dial [OF nw this made(1) [unfolded g] c] pm_inv_outbound [OF inv made(4,5)] made(6) g show ?thesis
      by (simp add: node_ok_def)
  qed
qed

lemma connectAddrs_ok:
  "connectAddrs c at addrs tried pm = (r, pm') \<Longrightarrow> node_ok cr cf w c gid n0 pm \<Longrightarrow> node_ok cr cf w c gid n0 pm'"
proof (induction addrs arbitrary: tried pm)
  case (Cons addr addrs)
  note IH = Cons.IH [OF _ _]
  obtain x q where q: "onStore (ps_Delete c addr) pm = (x, q)" by fastforce
  obtain code y u where u: "connect c at addr pm = ((code, y), u)" by (metis surj_pair)
  have ok: "node_ok cr cf w c gid n0 q" "node_ok cr cf w c gid n0 u"
    using onStore_ok [OF q Cons.prems(2)] connect_ok [OF u Cons.prems(2)] .
  consider "pm' = pm" | "pm' = q" | "pm' = u" | "connectAddrs c at addrs (addr # tried) q = (r, pm')" | "connectAddrs c at addrs (addr # tried) u = (r, pm')"
    using Cons.prems(1) q u by (auto simp: logged_def bindS_def split: if_splits sum.splits)
  then show ?case using ok Cons.prems(2) Cons.IH by cases auto
qed simp

lemma connectToPeers_ok:
  assumes "node_ok cr cf w c gid n0 pm"
  shows "\<exists>r pm'. connectToPeers c at now pm = Some (r, pm') \<and> node_ok cr cf w c gid n0 pm'"
  by (rule connectToPeers_total [where Q = "node_ok cr cf w c gid n0"]) (fact assms connectAddrs_ok connect_ok)+

lemma endPeer_ok:
  assumes ok: "node_ok cr cf w c gid n0 pm" and ch: "chained cr gid prune n0"
  shows "\<exists>r pm'. endPeer k pm = Some (r, pm') \<and> node_ok cr cf w c gid n0 pm'"
proof (cases "pm_conns pm k")
  case None
  with ok show ?thesis by (simp add: endPeer_def)
next
  case (Some p)
  have inv: "pm_inv pm" and g: "pm_genesisID pm = gid" and nw: "network cr cf w c gid n0 (pm_node pm) (pm_conns pm)"
    using ok by (simp_all add: node_ok_def)
  obtain r p' where d: "disconnect (p\<lparr>pr_node := pm_node pm\<rparr>) = Some (r, p')"
    using disconnect_ok [OF nw_inv_parts(3) [OF node_ok_nw [OF ok ch] Some]] by blast
  then have "peer_turn cr cf w c 0 Disconnected (p\<lparr>pr_node := pm_node pm\<rparr>) = Some (r, p')" by (simp add: peer_turn_def)
  note nw' = network.ended [OF nw Some this]
  let ?pm = "pm\<lparr>pm_node := pr_node p', pm_conns := (pm_conns pm)(k := None), pm_handlers := (pm_handlers pm)(k := None)\<rparr>"
  have h: "pm_node (runHandler h q) = pm_node q" "pm_conns (runHandler h q) = pm_conns q" "pm_genesisID (runHandler h q) = pm_genesisID q" for h and q :: "'a peer_manager"
    by (auto simp: runHandler_def removeFromOutboundSet_def removeFromInboundSet_def Let_def split: option.splits on_close.splits)
  from pm_inv_end [OF inv Some] nw' g have "node_ok cr cf w c gid n0 (runHandler (pm_handlers pm k) ?pm)"
    by (simp add: node_ok_def h)
  with Some d show ?thesis by (simp add: endPeer_def)
qed

lemma bindO_ok:
  assumes "\<exists>r s'. m = Some (r, s') \<and> Q s'" "\<And>x s. Q s \<Longrightarrow> \<exists>r s'. f x s = Some (r, s') \<and> Q s'"
  shows "\<exists>r s'. bindO m f = Some (r, s') \<and> Q s'"
proof -
  obtain r s where s: "m = Some (r, s)" "Q s" using assms(1) by blast
  with assms(2) show ?thesis by (cases r) (auto simp: bindO_def)
qed

lemma map_result_ok:
  assumes "\<exists>r s'. m = Some (r, s') \<and> Q s'"
  shows "\<exists>r s'. map_option (\<lambda>(r, s). (f r, s)) m = Some (r, s') \<and> Q s'"
  using assms by auto

lemma checkOpen_ok:
  assumes ok: "node_ok cr cf w c gid n0 pm" and ch: "chained cr gid prune n0"
  shows "\<exists>r pm'. checkOpen c at now random pm = Some (r, pm') \<and> node_ok cr cf w c gid n0 pm'"
proof -
  let ?a = "myIP pm @ 58 # itoa (pm_port pm)"
  obtain x q where q: "onStore (ps_Store c now random ?a) pm = (x, q)" by fastforce
  obtain code y u where u: "connect c at ?a q = ((code, y), u)" by (metis surj_pair)
  have okq: "node_ok cr cf w c gid n0 q" by (rule onStore_ok [OF q ok])
  have "node_ok cr cf w c gid n0 u" by (rule connect_ok [OF u okq])
  then have oku: "node_ok cr cf w c gid n0 (if code = StatusLoopDetected then u\<lparr>pm_open := True\<rparr> else u)" by simp
  show ?thesis
    using endPeer_ok [OF oku ch, of "pm_next pm"] oku okq
    by (cases x; cases y) (simp_all add: checkOpen_def Let_def q u)
qed

lemma listenForPeers_ok:
  assumes ok: "node_ok cr cf w c gid n0 pm" and ch: "chained cr gid prune n0"
  shows "\<exists>r pm'. listenForPeers c at now random pm = Some (r, pm') \<and> node_ok cr cf w c gid n0 pm'"
  using checkOpen_ok [of cr cf w c gid n0 "pm\<lparr>accepting := True\<rparr>" prune at now random] ok ch
  by (auto simp: listenForPeers_def Let_def split: sum.splits)

lemma acceptCheck_ok:
  assumes ok: "node_ok cr cf w c gid n0 pm"
  shows "node_ok cr cf w c gid n0 (snd (acceptCheck lookup c now random r pm))"
proof -
  have up: "node_ok cr cf w c gid n0 (q\<lparr>pm_upgrading := pm_upgrading q @ [rq_RemoteAddr r]\<rparr>)"
    if "node_ok cr cf w c gid n0 q" "hostOf (str (rq_RemoteAddr r)) \<notin> set (banMap q)" for q :: "'a peer_manager"
    using that pm_inv_upgrading(1) by (auto simp: node_ok_def)
  have st: "node_ok cr cf w c gid n0 (snd (onStore f pm))" "banMap (snd (onStore f pm)) = banMap pm" for f :: "peer_storage \<Rightarrow> bool result \<times> peer_storage"
  proof -
    obtain x q where q: "onStore f pm = (x, q)" by fastforce
    from onStore_ok [OF q ok] q show "node_ok cr cf w c gid n0 (snd (onStore f pm))" by simp
    show "banMap (snd (onStore f pm)) = banMap pm" by (simp add: onStore_def split: prod.splits)
  qed
  show ?thesis
    using ok up [OF ok] up [OF st(1)] st(2) by (auto simp: acceptCheck_def Let_def split: sum.splits)
qed

lemma acceptPeer_ok:
  fixes pm :: "'f peer_manager"
  assumes ok: "node_ok cr cf w c gid n0 pm" and u: "remote \<in> set (pm_upgrading pm)" and a: "acceptPeer nowNano remote pm = (r, pm')"
  shows "node_ok cr cf w c gid n0 pm'"
proof -
  let ?pm = "pm\<lparr>pm_upgrading := remove1 remote (pm_upgrading pm)\<rparr>"
  have inv: "pm_inv ?pm" and g: "pm_genesisID pm = gid" and nw: "network cr cf w c gid n0 (pm_node pm) (pm_conns pm)"
    using ok by (simp_all add: node_ok_def pm_inv_upgrading(2))
  have ban: "hostOf (str remote) \<notin> set (banMap pm)" using pm_inv_parts(13) [of pm, OF _ u] ok by (simp add: node_ok_def)
  obtain x p where p: "NewPeer (nowNano div 10 ^ 9) remote gid (pm_node pm) = (x, p :: 'f peer)" by fastforce
  obtain b q where q: "addToInboundSet (str remote) (pm_next ?pm) (?pm\<lparr>pm_next := Suc (pm_next ?pm)\<rparr>) = (b, q)" by fastforce
  have same: "pm_node q = pm_node pm" "pm_conns q = pm_conns pm" "pm_genesisID q = gid"
    using q g by (auto simp: addToInboundSet_def split: sum.splits if_splits)
  have fr: "pm_conns pm (pm_next pm) = None" using pm_inv_parts(11) [OF inv, of "pm_next pm"] by simp
  show ?thesis
  proof (cases x)
    case (Inl e)
    with a p g inv nw show ?thesis by (auto simp: acceptPeer_def Let_def node_ok_def)
  next
    case (Inr v)
    then have n: "NewPeer (nowNano div 10 ^ 9) remote gid (pm_node pm) = (Inr (), p)" using p by simp
    show ?thesis
    proof (cases b)
      case False
      then have "q = ?pm\<lparr>pm_next := Suc (pm_next ?pm)\<rparr>" using q by (auto simp: addToInboundSet_def split: sum.splits if_splits)
      with a n q g False have "pm' = ?pm\<lparr>pm_next := Suc (pm_next ?pm)\<rparr>" by (simp add: acceptPeer_def Let_def)
      with pm_inv_next [OF inv] g nw show ?thesis by (simp add: node_ok_def)
    next
      case True
      with a n q g have pm': "pm' = q\<lparr>pm_conns := (pm_conns q)(pm_next pm \<mapsto> startReader nowNano p),
          pm_handlers := (pm_handlers q)(pm_next pm \<mapsto> FromInbound (str remote))\<rparr>" by (simp add: acceptPeer_def Let_def)
      have q': "addToInboundSet (str remote) (pm_next ?pm) (?pm\<lparr>pm_next := Suc (pm_next ?pm)\<rparr>) = (True, q)" using q True by simp
      have i: "pm_inv pm'" using pm_inv_inbound [OF inv q', of "startReader nowNano p"] ban unfolding pm' by simp
      from network.accept [OF nw fr n, of nowNano] i same show ?thesis unfolding node_ok_def pm' by simp
    qed
  qed
qed

lemma onAddr_ok:
  assumes ok: "node_ok cr cf w c gid n0 pm"
  shows "\<exists>r pm'. onAddr lookup c at now random addr pm = Some (r, pm') \<and> node_ok cr cf w c gid n0 pm'"
proof (cases "parsePeerAddress lookup addr pm")
  case (Inl e)
  with ok show ?thesis by (simp add: onAddr_def)
next
  case (Inr hp)
  obtain host port where hp: "hp = (host, port)" by fastforce
  obtain x q where q: "onStore (ps_Store c now random (host @ 58 # port)) pm = (x, q)" by fastforce
  have okq: "node_ok cr cf w c gid n0 q" by (rule onStore_ok [OF q ok])
  obtain y q' where "connectToPeers c at now q = Some (y, q')" "node_ok cr cf w c gid n0 q'" using connectToPeers_ok [OF okq] by blast
  then show ?thesis
    using ok okq by (cases x) (auto simp: onAddr_def Inr hp q split: bool.splits)
qed

lemma dropRandomPeer_ok:
  assumes ok: "node_ok cr cf w c gid n0 pm" and ch: "chained cr gid prune n0"
  shows "\<exists>r pm'. dropRandomPeer index pm = Some (r, pm') \<and> node_ok cr cf w c gid n0 pm'"
  using endPeer_ok [OF ok ch] ok by (simp add: dropRandomPeer_def)

lemma onTicker_ok:
  assumes ok: "node_ok cr cf w c gid n0 pm" and ch: "chained cr gid prune n0"
  shows "\<exists>r pm'. onTicker c at now random coin index pm = Some (r, pm') \<and> node_ok cr cf w c gid n0 pm'"
  unfolding onTicker_def
proof (rule bindO_ok [OF listenForPeers_ok [OF ok ch]])
  fix x and q :: "'a peer_manager"
  assume q: "node_ok cr cf w c gid n0 q"
  show "\<exists>r s'. bindO (if dnsseed q \<and> coin then dropRandomPeer index q else Some (Inr (), q)) (\<lambda>_ pm.
      map_option (\<lambda>(r, pm). (case r of Inl e \<Rightarrow> if isPanic e then Inl e else Inr () | Inr _ \<Rightarrow> Inr (), pm)) (connectToPeers c at now pm)) = Some (r, s')
    \<and> node_ok cr cf w c gid n0 s'"
  proof (rule bindO_ok)
    show "\<exists>r s'. (if dnsseed q \<and> coin then dropRandomPeer index q else Some (Inr (), q)) = Some (r, s') \<and> node_ok cr cf w c gid n0 s'"
      using dropRandomPeer_ok [OF q ch] q by simp
  qed (rule map_result_ok, rule connectToPeers_ok)
qed

lemma endPeers_ok:
  assumes "chained cr gid prune n0"
  shows "node_ok cr cf w c gid n0 pm \<Longrightarrow> \<exists>r pm'. endPeers ks pm = Some (r, pm') \<and> node_ok cr cf w c gid n0 pm'"
proof (induction ks arbitrary: pm)
  case (Cons k ks)
  show ?case unfolding endPeers.simps by (rule bindO_ok [OF endPeer_ok [OF Cons.prems assms]]) (rule Cons.IH)
qed simp

text \<open>Blocks and transactions of the node itself come under the identifiers their contents have.\<close>

definition ownEvent :: "crypto \<Rightarrow> manager_event \<Rightarrow> bool" where
  "ownEvent cr ev \<longleftrightarrow> (case ev of
     LocalEvent now (TxToProcess i tx source) \<Rightarrow> i = tx_ID cr tx
   | LocalEvent now (BlockToProcess i b source) \<Rightarrow> i = block_ID cr b
   | LocalEvent _ _ \<Rightarrow> False
   | _ \<Rightarrow> True)"

lemma local_ok:
  assumes ok: "node_ok cr cf w c gid n0 pm" and ch: "chained cr gid prune n0" and ev: "ownEvent cr (LocalEvent now pe)"
  shows "\<exists>r proc. run_turn cr now pe (n_processor (pm_node pm)) = Some (r, proc)
    \<and> node_ok cr cf w c gid n0 (pm\<lparr>pm_node := (pm_node pm)\<lparr>n_processor := proc\<rparr>\<rparr>)"
proof -
  let ?p = "n_processor (pm_node pm)"
  obtain chain where p: "pinv cr gid prune chain ?p" using nw_inv_parts(1) [OF node_ok_nw [OF ok ch]] by blast
  have nz: "noZeroID cr" using ch by (simp add: chained_def)
  have "\<exists>r proc. run_turn cr now pe ?p = Some (r, proc) \<and> fed cr ?p proc"
  proof (cases pe)
    case (TxToProcess i tx source)
    obtain r proc where "processTransaction cr i tx source ?p = (r, proc)" by fastforce
    then have "run_turn cr now (TxToProcess (tx_ID cr tx) tx source) ?p = Some (r, proc)" using ev TxToProcess by (simp add: run_turn_def ownEvent_def)
    with fed.tx [OF fed.none this] ev TxToProcess show ?thesis by (simp add: ownEvent_def)
  next
    case (BlockToProcess i b source)
    obtain r proc where r: "run_turn cr now (BlockToProcess (block_ID cr b) b source) ?p = Some (r, proc)" using block_turn [OF nz p] by blast
    with fed.block [OF fed.none r] ev BlockToProcess show ?thesis by (simp add: ownEvent_def)
  qed (use ev in \<open>simp_all add: ownEvent_def\<close>)
  then obtain r proc where r: "run_turn cr now pe ?p = Some (r, proc)" "fed cr ?p proc" by blast
  have nw: "network cr cf w c gid n0 (pm_node pm) (pm_conns pm)" using ok by (simp add: node_ok_def)
  from network.local [OF nw, of "(pm_node pm)\<lparr>n_processor := proc\<rparr>"] r ok show ?thesis by (simp add: node_ok_def)
qed

lemma peerEvent_ok:
  assumes ok: "node_ok cr cf w c gid n0 pm" and ch: "chained cr gid prune n0" and k: "pm_conns pm k = Some p" and pe: "pe \<noteq> Disconnected"
  shows "\<exists>r p'. peer_turn cr cf w c now pe (p\<lparr>pr_node := pm_node pm\<rparr>) = Some (r, p')
    \<and> node_ok cr cf w c gid n0 (pm\<lparr>pm_node := pr_node p', pm_conns := (pm_conns pm)(k \<mapsto> p')\<rparr>)"
proof -
  note d = nw_inv_parts [OF node_ok_nw [OF ok ch]]
  have "ready cr gid prune (p\<lparr>pr_node := pm_node pm\<rparr>)" using d(1) d(3) [OF k] by (simp add: ready_def)
  then obtain r p' where r: "peer_turn cr cf w c now pe (p\<lparr>pr_node := pm_node pm\<rparr>) = Some (r, p')"
    using peer_turn_ok ch unfolding chained_def by blast
  have nw: "network cr cf w c gid n0 (pm_node pm) (pm_conns pm)" and inv: "pm_inv pm" using ok by (simp_all add: node_ok_def)
  have "pm_inv (pm\<lparr>pm_node := pr_node p', pm_conns := (pm_conns pm)(k \<mapsto> p')\<rparr>)"
    using pm_inv_conn [of "pm\<lparr>pm_node := pr_node p'\<rparr>" k p p'] inv k by simp
  with network.event [OF nw k pe r] ok r show ?thesis by (auto simp: node_ok_def)
qed

lemma manager_turn_ok:
  assumes ok: "node_ok cr cf w c gid n0 pm" and ch: "chained cr gid prune n0" and ev: "ownEvent cr ev"
  shows "\<exists>r pm'. manager_turn cr cf w c lookup ev pm = Some (r, pm') \<and> node_ok cr cf w c gid n0 pm'"
proof (cases ev)
  case (AddrReceived at now random)
  have "node_ok cr cf w c gid n0 (pm\<lparr>pm_node := (pm_node pm)\<lparr>n_addrs := as\<rparr>\<rparr>)" for as by (rule node_ok_node [OF ok]) simp_all
  from onAddr_ok [OF this] ok AddrReceived show ?thesis by (auto simp: manager_turn_def split: list.splits)
next
  case (AddrDiscovered addr at now random)
  with onAddr_ok [OF ok] show ?thesis by (simp add: manager_turn_def)
next
  case (Ticker at now random coin index)
  with onTicker_ok [OF ok ch] show ?thesis by (simp add: manager_turn_def)
next
  case (RequestReceived r now random)
  with acceptCheck_ok [OF ok] show ?thesis by (simp add: manager_turn_def)
next
  case (Upgraded remote nowNano)
  obtain r pm' where a: "acceptPeer nowNano remote pm = (r, pm')" by fastforce
  show ?thesis using acceptPeer_ok [OF ok _ a] ok a Upgraded by (simp add: manager_turn_def)
next
  case (UpgradeFailed remote)
  have "node_ok cr cf w c gid n0 (pm\<lparr>pm_upgrading := remove1 remote (pm_upgrading pm)\<rparr>)"
    using ok by (simp add: node_ok_def pm_inv_upgrading(2))
  with UpgradeFailed show ?thesis by (simp add: manager_turn_def)
next
  case (PeerEvent k now pe)
  show ?thesis
  proof (cases "pm_conns pm k")
    case None
    with ok PeerEvent show ?thesis by (simp add: manager_turn_def)
  next
    case (Some p)
    show ?thesis
    proof (cases "pe = Disconnected")
      case True
      with endPeer_ok [OF ok ch, of k] PeerEvent Some show ?thesis by (simp add: manager_turn_def)
    next
      case False
      with peerEvent_ok [OF ok ch Some False, of now] PeerEvent Some show ?thesis by (auto simp: manager_turn_def)
    qed
  qed
next
  case (PeerEnded k)
  with endPeer_ok [OF ok ch] show ?thesis by (simp add: manager_turn_def)
next
  case (LocalEvent now pe)
  with local_ok [OF ok ch] ev show ?thesis by (fastforce simp: manager_turn_def)
qed

lemma startManager_ok:
  assumes ok: "node_ok cr cf w c gid n0 pm" and ch: "chained cr gid prune n0"
  shows "\<exists>r pm'. startManager c at now random externalIP localMatch seeds pm = Some (r, pm') \<and> node_ok cr cf w c gid n0 pm'"
proof -
  let ?p1 = "case externalIP of Inl e \<Rightarrow> pm | Inr ip \<Rightarrow> pm\<lparr>pm_open := (if myIP pm \<noteq> [] then ip = myIP pm else localMatch), myIP := ip\<rparr>"
  let ?p2 = "if pm_peer ?p1 \<noteq> [] then snd (onStore (ps_Store c now random (pm_peer ?p1)) ?p1)
    else ?p1\<lparr>pm_node := (pm_node ?p1)\<lparr>n_addrs := n_addrs (pm_node ?p1) @ seeds\<rparr>\<rparr>"
  have p1: "node_ok cr cf w c gid n0 ?p1" using ok by (auto split: sum.splits)
  obtain x q where q: "onStore (ps_Store c now random (pm_peer ?p1)) ?p1 = (x, q)" by fastforce
  have "node_ok cr cf w c gid n0 q" by (rule onStore_ok [OF q p1])
  moreover have "node_ok cr cf w c gid n0 (?p1\<lparr>pm_node := (pm_node ?p1)\<lparr>n_addrs := as\<rparr>\<rparr>)" for as by (rule node_ok_node [OF p1]) simp_all
  ultimately have p2: "node_ok cr cf w c gid n0 ?p2" by (simp add: q)
  show ?thesis
    unfolding startManager_def Let_def
    by (rule bindO_ok [OF listenForPeers_ok [OF p2 ch]], rule map_result_ok, rule connectToPeers_ok)
qed

lemma NewPeerManager_ok:
  assumes "0 \<le> limit" "int64 limit"
  shows "node_ok cr cf w c gid (n\<lparr>n_inflight := NewBlockQueue, n_addrs := []\<rparr>) (NewPeerManager gid n ip peer port limit accept seed bans random)"
  using assms by (auto simp: node_ok_def NewPeerManager_def pm_inv_def hostCount_def intro: network.start)

section \<open>Addresses\<close>

lemma indexByte_None: "indexByte b xs = None \<longleftrightarrow> b \<notin> set xs"
  by (induction xs) auto

lemma indexByte_append: "b \<notin> set xs \<Longrightarrow> indexByte b (xs @ b # ys) = Some (length xs)"
  by (induction xs) auto

lemma lastIndexByte_append: "b \<notin> set ys \<Longrightarrow> lastIndexByte b (xs @ b # ys) = Some (length xs)"
  by (simp add: lastIndexByte_def indexByte_append)

lemma SplitHostPort_joined:
  assumes "58 \<notin> set port" "{91, 93} \<inter> set port = {}" "{91, 93} \<inter> set host = {}"
  shows "SplitHostPort (host @ 58 # port) = (if 58 \<in> set host then Inl (Err ''too many colons in address'') else Inr (host, port))"
proof -
  have "hd (host @ 58 # port) \<noteq> 91" using assms(3) by (cases host) auto
  with assms show ?thesis by (simp add: SplitHostPort_def lastIndexByte_append indexByte_None)
qed

lemma byte_ne: "unat (b :: byte) \<noteq> unat c \<Longrightarrow> b \<noteq> c"
  by blast

lemma digits_plain: "{58, 91, 93} \<inter> set (digits n) = {}"
proof -
  have "x \<noteq> 58 \<and> x \<noteq> 91 \<and> x \<noteq> 93" if "x \<in> set (digits n)" for x
  proof -
    have "unat x < 58" using digits_range [OF that] by simp
    moreover have "unat (58 :: byte) = 58" "unat (91 :: byte) = 91" "unat (93 :: byte) = 93" by simp_all
    ultimately show ?thesis by auto
  qed
  then show ?thesis by blast
qed

lemma parsePort_plain: "parsePort s = Inr n \<Longrightarrow> {58, 91, 93} \<inter> set s = {}"
  by (auto simp: parsePort_def list_all_iff isDigit_def split: if_splits)

lemma hexDigits_plain: "{58, 91, 93} \<inter> set (hexDigits n) = {}"
proof (induction n rule: hexDigits.induct)
  case (1 n)
  have d: "hexdig (word_of_nat k) \<notin> {58, 91, 93}" if "k < 16" for k
  proof -
    have "\<forall>k \<in> {0..<16}. hexdig (word_of_nat k) \<notin> {58, 91, 93}" unfolding atLeastLessThan_upt by (simp add: upt_rec hexdig_def)
    with that show ?thesis by simp
  qed
  show ?case
  proof (cases "n < 16")
    case True
    with d show ?thesis by (subst hexDigits.simps) simp
  next
    case False
    with 1 d [of "n mod 16"] show ?thesis by (subst hexDigits.simps) auto
  qed
qed

lemma set_joinWith: "set (joinWith sep xs) \<subseteq> insert sep (\<Union> (set ` set xs))"
  by (induction sep xs rule: joinWith.induct) auto

lemma sep_joinWith: "2 \<le> length xs \<Longrightarrow> sep \<in> set (joinWith sep xs)"
  by (induction sep xs rule: joinWith.induct) auto

lemma length_hexGroups: "length (hexGroups ip) = length ip div 2"
  by (induction ip rule: hexGroups.induct) auto

lemma ip_String_plain:
  assumes "length ip = 4 \<or> length ip = 16"
  shows "{91, 93} \<inter> set (ip_String ip) = {}" "58 \<in> set (ip_String ip) \<longleftrightarrow> To4 ip = None"
proof -
  have v4: "{58, 91, 93} \<inter> set (joinWith 46 (map (\<lambda>b. digits (unat b)) v)) = {}" for v :: bytes
    using set_joinWith [of 46 "map (\<lambda>b. digits (unat b)) v"] digits_plain by fastforce
  have v6: "{91, 93} \<inter> set (joinWith 58 (map hexDigits gs)) = {}" for gs
    using set_joinWith [of 58 "map hexDigits gs"] hexDigits_plain by fastforce
  have ne: "ip \<noteq> []" using assms by auto
  show "{91, 93} \<inter> set (ip_String ip) = {}"
    using assms ne v4 v6 by (auto simp: ip_String_def To4_def Let_def split: option.splits prod.splits)
  show "58 \<in> set (ip_String ip) \<longleftrightarrow> To4 ip = None"
  proof (cases "To4 ip")
    case None
    then have l: "length ip = 16" using assms by (auto simp: To4_def split: if_splits)
    have "58 \<in> set (joinWith 58 (map hexDigits (hexGroups ip)))" by (rule sep_joinWith) (simp add: length_hexGroups l)
    with None l ne show ?thesis by (auto simp: ip_String_def Let_def split: option.splits)
  next
    case (Some v)
    with v4 [of v] ne show ?thesis by (simp add: ip_String_def)
  qed
qed


definition sample_lookup :: "bytes \<Rightarrow> bytes list result" where
  "sample_lookup host = (if host = str ''a'' then Inr [[8, 8, 4, 4]]
     else if host = str ''b'' then Inr [[32, 1, 13, 184, 0, 0, 0, 0, 0, 0, 0, 0, 0, 0, 0, 1]] else Inr [])"

definition sample_manager :: "processor \<Rightarrow> unit peer_manager" where
  "sample_manager p = NewPeerManager 371 \<lparr>n_processor = p, n_inflight = NewBlockQueue, n_peerStore = sample_storage, n_addrs = []\<rparr>
     [] [] 8831 128 True False [] 7"

lemma sample_manager_fields:
  "myIP (sample_manager p) = []" "pm_port (sample_manager p) = 8831" "pm_node (sample_manager p) =
     \<lparr>n_processor = p, n_inflight = NewBlockQueue, n_peerStore = sample_storage, n_addrs = []\<rparr>" "pm_genesisID (sample_manager p) = 371"
  "banMap (sample_manager p) = []" "inPeers (sample_manager p) = []" "inPeerCountByHost (sample_manager p) = Map.empty"
  "inboundLimit (sample_manager p) = 128" "pm_upgrading (sample_manager p) = []" "accepting (sample_manager p) = False"
  by (simp_all add: sample_manager_def NewPeerManager_def)

lemma sample_v6:
  "hexGroups [32, 1, 13, 184, 0, 0, 0, 0, 0, 0, 0, 0, 0, 0, 0, 1] = [8193, 3512, 0, 0, 0, 0, 0, 1]"
  "longestRun [8193, 3512, 0, 0, 0, 0, 0, 1] = Some (2, 5)"
  "hexDigits 8193 = str ''2001''" "hexDigits 3512 = str ''db8''" "hexDigits (Suc 0) = str ''1''"
  "To4 [32, 1, 13, 184, 0, 0, 0, 0, 0, 0, 0, 0, 0, 0, 0, 1] = None"
  by (simp_all add: longestRun_def zeroRun_def upt_rec To4_def hexdig_def str_def hexDigits.simps [of 8193] hexDigits.simps [of 512]
      hexDigits.simps [of 32] hexDigits.simps [of 2] hexDigits.simps [of "Suc 0"] hexDigits.simps [of 3512] hexDigits.simps [of 219]
      hexDigits.simps [of 13])

lemma sample_addresses:
  "SplitHostPort (str ''a:8831'') = Inr (str ''a'', str ''8831'')" "SplitHostPort (str ''b:8831'') = Inr (str ''b'', str ''8831'')"
  "parsePort (str ''8831'') = Inr 8831" "ip_String [8, 8, 4, 4] = str ''8.8.4.4''"
  "ip_String [32, 1, 13, 184, 0, 0, 0, 0, 0, 0, 0, 0, 0, 0, 0, 1] = str ''2001:db8::1''"
  "isLocal [8, 8, 4, 4] = False" "isLocal [32, 1, 13, 184, 0, 0, 0, 0, 0, 0, 0, 0, 0, 0, 0, 1] = False"
proof -
  show "ip_String [32, 1, 13, 184, 0, 0, 0, 0, 0, 0, 0, 0, 0, 0, 0, 1] = str ''2001:db8::1''"
    unfolding ip_String_def sample_v6(6) Let_def option.case sample_v6(1,2) prod.case by (simp add: sample_v6(3-5)) (simp add: str_def sample_v6(5))
  have "replicate 15 (0 :: byte) = 0 # replicate 14 0" by (simp add: numeral_eq_Suc)
  then show "isLocal [32, 1, 13, 184, 0, 0, 0, 0, 0, 0, 0, 0, 0, 0, 0, 1] = False"
    by (simp add: To4_def isLocal_def privateIPBlocks_def ip_Contains_def)
qed (simp_all add: SplitHostPort_def lastIndexByte_def str_def parsePort_def isDigit_def undigits_def ip_String_def To4_def
    digits.simps [of 8] digits.simps [of 4] isLocal_def privateIPBlocks_def ip_Contains_def)


section \<open>Connections from one host\<close>

lemma computeMaxTransactionsPerBlock_total: "\<exists>m. computeMaxTransactionsPerBlock h = Inr m"
proof (cases "h \<ge> MAX_TRANSACTIONS_PER_BLOCK_EXCEEDED_AT_HEIGHT")
  case True
  then show ?thesis by (simp add: computeMaxTransactionsPerBlock_def)
next
  case False
  then have "h < 1852032" by (simp add: MAX_TRANSACTIONS_PER_BLOCK_EXCEEDED_AT_HEIGHT_def)
  then have "h sdiv 105000 < 64"
    by (cases "h = 0"; cases "0 < h") (auto simp: signed_divide_int_def sgn_if intro: order.strict_trans1 [of _ 0])
  with False show ?thesis by (simp add: computeMaxTransactionsPerBlock_def Let_def BLOCKS_UNTIL_TRANSACTIONS_PER_BLOCK_DOUBLING_def)
qed

lemma NewPeer_Inr:
  assumes "pinv cr gid prune chain (n_processor n)"
  shows "fst (NewPeer now a gid' n) = Inr ()"
proof -
  have "pcore cr gid prune chain (n_processor n)" using assms by (simp add: pinv_def)
  then obtain w where "getChainTipHeader (p_ledger (n_processor n)) (p_blockStore (n_processor n))
    = Inr (Some (block_ID cr (last chain), Some (Header (last chain)), w))" by (rule pcore_tip)
  then have "\<exists>x. IsInitialBlockDownload (p_ledger (n_processor n)) (p_blockStore (n_processor n)) now = Inr x"
    by (auto simp: IsInitialBlockDownload_def)
  with computeMaxTransactionsPerBlock_total show ?thesis
    by (auto simp: NewPeer_def updateReadLimit_def split: sum.splits) (metis sum.distinct(1))+
qed

fun manager_turns ::
  "crypto \<Rightarrow> 'f cuckoo \<Rightarrow> wire \<Rightarrow> info_codec \<Rightarrow> (bytes \<Rightarrow> bytes list result) \<Rightarrow> manager_event list \<Rightarrow> 'f peer_manager \<Rightarrow> (unit result \<times> 'f peer_manager) option" where
  "manager_turns cr cf w c lookup [] pm = Some (Inr (), pm)"
| "manager_turns cr cf w c lookup (ev # evs) pm = bindO (manager_turn cr cf w c lookup ev pm) (\<lambda>_. manager_turns cr cf w c lookup evs)"

lemma manager_turns_append:
  "manager_turns cr cf w c lookup (evs @ evs') pm
    = bindO (manager_turns cr cf w c lookup evs pm) (\<lambda>_. manager_turns cr cf w c lookup evs')"
  by (induction evs arbitrary: pm) (auto simp: bindO_def split: option.splits sum.splits)

abbreviation plainRequest :: "string \<Rightarrow> request_header" where
  "plainRequest r \<equiv> \<lparr>rq_RemoteAddr = r, rq_Nonce = [], rq_Address = []\<rparr>"

lemma limit_upgrading [simp]: "checkHostConnectionLimit lookup a (pm\<lparr>pm_upgrading := u\<rparr>) = checkHostConnectionLimit lookup a pm"
  by (simp add: checkHostConnectionLimit_def split: sum.splits list.splits option.splits)

lemma requests_pass:
  assumes "accepting pm" "peerNonce pm \<noteq> []" "\<And>r. r \<in> set rs \<Longrightarrow> hostOf (str r) \<notin> set (banMap pm)"
    "\<And>r. r \<in> set rs \<Longrightarrow> checkHostConnectionLimit lookup (str r) pm"
  shows "manager_turns cr cf w c lookup (map (\<lambda>r. RequestReceived (plainRequest r) now random) rs) pm
    = Some (Inr (), pm\<lparr>pm_upgrading := pm_upgrading pm @ rs\<rparr>)"
  using assms
proof (induction rs arbitrary: pm)
  case (Cons r rs)
  let ?q = "pm\<lparr>pm_upgrading := pm_upgrading pm @ [r]\<rparr>"
  have "manager_turn cr cf w c lookup (RequestReceived (plainRequest r) now random) pm = Some (Inr (), ?q)"
    using Cons.prems by (simp add: manager_turn_def acceptCheck_def Let_def)
  moreover have "manager_turns cr cf w c lookup (map (\<lambda>r. RequestReceived (plainRequest r) now random) rs) ?q
    = Some (Inr (), ?q\<lparr>pm_upgrading := pm_upgrading ?q @ rs\<rparr>)"
    by (rule Cons.IH) (use Cons.prems in simp_all)
  ultimately show ?case by (simp add: bindO_def)
qed (simp add: peer_manager.splits)

lemma upgrades_enter:
  assumes "pinv cr gid prune chain (n_processor (pm_node pm))" "set rs \<subseteq> set (pm_upgrading pm)" "distinct (map str rs)"
    "\<And>r. r \<in> set rs \<Longrightarrow> \<exists>port. SplitHostPort (str r) = Inr (host, port) \<and> str r \<notin> fst ` set (inPeers pm)"
    "int (length (inPeers pm) + length rs) \<le> inboundLimit pm"
  shows "\<exists>pm' ks. manager_turns cr cf w c lookup (map (\<lambda>r. Upgraded r now) rs) pm = Some (Inr (), pm')
    \<and> length ks = length rs \<and> inPeers pm' = inPeers pm @ zip (map str rs) ks"
  using assms
proof (induction rs arbitrary: pm)
  case (Cons r rs)
  let ?g = "pm_genesisID pm"
  obtain p where n: "NewPeer (now div 10 ^ 9) r ?g (pm_node pm) = (Inr (), p :: 'a peer)"
    using NewPeer_Inr [OF Cons.prems(1)] by (metis prod.collapse)
  obtain port where h: "SplitHostPort (str r) = Inr (host, port)" "str r \<notin> fst ` set (inPeers pm)" using Cons.prems(4) [of r] by auto
  have m: "int (length (inPeers pm)) \<noteq> inboundLimit pm" using Cons.prems(5) by simp
  define pm1 where "pm1 = snd (acceptPeer now r pm)"
  have a: "acceptPeer now r pm = (Inr (), pm1)"
    and q: "pm_node pm1 = pm_node pm" "inPeers pm1 = inPeers pm @ [(str r, pm_next pm)]" "inboundLimit pm1 = inboundLimit pm"
      "pm_upgrading pm1 = remove1 r (pm_upgrading pm)"
    using n h m by (simp_all add: pm1_def acceptPeer_def Let_def addToInboundSet_def)
  have "\<exists>pm' ks. manager_turns cr cf w c lookup (map (\<lambda>r. Upgraded r now) rs) pm1 = Some (Inr (), pm')
    \<and> length ks = length rs \<and> inPeers pm' = inPeers pm1 @ zip (map str rs) ks"
  proof (rule Cons.IH)
    show "set rs \<subseteq> set (pm_upgrading pm1)"
    proof
      fix s
      assume "s \<in> set rs"
      with Cons.prems(2,3) show "s \<in> set (pm_upgrading pm1)" unfolding q(4) by (subst in_set_remove1) auto
    qed
    show "\<exists>port. SplitHostPort (str s) = Inr (host, port) \<and> str s \<notin> fst ` set (inPeers pm1)" if "s \<in> set rs" for s
    proof -
      have "str s \<in> str ` set rs" using that by simp
      with Cons.prems(3) have "str s \<noteq> str r" by (simp only: list.map distinct.simps set_map) metis
      with Cons.prems(4) [of s] that show ?thesis by (simp add: q)
    qed
  qed (use Cons.prems q in auto)
  then obtain pm' ks where "manager_turns cr cf w c lookup (map (\<lambda>r. Upgraded r now) rs) pm1 = Some (Inr (), pm')"
    "length ks = length rs" "inPeers pm' = inPeers pm1 @ zip (map str rs) ks" by blast
  with a Cons.prems(2) q(2) show ?case
    by (intro exI [of _ pm'] exI [of _ "pm_next pm # ks"]) (simp add: manager_turn_def bindO_def)
qed simp

text \<open>
  C8 (error). The number of connections from one host is checked before a request is upgraded and counted after it: any
  number of requests from one host that are all checked before the first of them is counted become connections, whatever
  the limit for one host, as long as the limit of all inbound connections leaves room.
\<close>

theorem host_limit_race:
  assumes "pinv cr gid prune chain (n_processor (pm_node pm))" "accepting pm" "peerNonce pm \<noteq> []" "pm_upgrading pm = []"
    "host \<notin> set (banMap pm)" "lookup host = Inr (ip # ips)" "hostCount host pm = 0" "inPeerCountByHost pm host = None"
    "distinct (map str rs)" "\<forall>r \<in> set rs. \<exists>port. SplitHostPort (str r) = Inr (host, port) \<and> str r \<notin> fst ` set (inPeers pm)"
    "int (length (inPeers pm) + length rs) \<le> inboundLimit pm"
  shows "\<exists>pm'. manager_turns cr cf w c lookup (map (\<lambda>r. RequestReceived (plainRequest r) now random) rs @ map (\<lambda>r. Upgraded r now') rs) pm
      = Some (Inr (), pm') \<and> hostCount host pm' = length rs"
proof -
  let ?q = "pm\<lparr>pm_upgrading := pm_upgrading pm @ rs\<rparr>"
  have h: "hostOf (str r) = host" "checkHostConnectionLimit lookup (str r) pm" if "r \<in> set rs" for r
    using assms(6,8,10) that by (auto simp: hostOf_def checkHostConnectionLimit_def)
  have "manager_turns cr cf w c lookup (map (\<lambda>r. RequestReceived (plainRequest r) now random) rs) pm = Some (Inr (), ?q)"
    by (rule requests_pass) (use assms h in auto)
  moreover have "\<exists>pm' ks. manager_turns cr cf w c lookup (map (\<lambda>r. Upgraded r now') rs) ?q = Some (Inr (), pm')
    \<and> length ks = length rs \<and> inPeers pm' = inPeers ?q @ zip (map str rs) ks"
    by (rule upgrades_enter [where host = host]) (use assms in auto)
  then obtain pm' ks where u: "manager_turns cr cf w c lookup (map (\<lambda>r. Upgraded r now') rs) ?q = Some (Inr (), pm')"
    "length ks = length rs" "inPeers pm' = inPeers pm @ zip (map str rs) ks" by auto
  have "filter (\<lambda>e. hostOf (fst e) = host) (zip (map str rs) ks) = zip (map str rs) ks"
    using h(1) by (auto simp: filter_id_conv dest!: set_zip_leftD)
  then have "hostCount host pm' = length rs" using u(2,3) assms(7) by (simp add: hostCount_def)
  ultimately show ?thesis using u(1) by (simp add: manager_turns_append bindO_def)
qed

theorem host_limit_race_witness:
  "\<forall>w. \<exists>p pm'. pinv sample_crypto 371 True [sample_first] p
    \<and> manager_turns sample_crypto sample_cuckoo w sample_info_codec sample_lookup
        (map (\<lambda>r. RequestReceived (plainRequest r) 0 0) [''a:1'', ''a:2'', ''a:3'', ''a:4'', ''a:5'']
          @ map (\<lambda>r. Upgraded r 0) [''a:1'', ''a:2'', ''a:3'', ''a:4'', ''a:5'']) (sample_manager p\<lparr>accepting := True\<rparr>) = Some (Inr (), pm')
    \<and> MAX_INBOUND_PEER_CONNECTIONS_FROM_SAME_HOST < hostCount (str ''a'') pm'"
proof
  fix w
  let ?rs = "[''a:1'', ''a:2'', ''a:3'', ''a:4'', ''a:5'']"
  obtain p where p: "turns sample_crypto 371 True sample_node p" "pinv sample_crypto 371 True [sample_first] p" by (rule sample_turn)
  let ?pm = "sample_manager p\<lparr>accepting := True\<rparr>"
  have n: "peerNonce ?pm \<noteq> []" by (simp add: sample_manager_def NewPeerManager_def itoa_small)
  have s: "\<forall>r \<in> set ?rs. \<exists>port. SplitHostPort (str r) = Inr (str ''a'', port) \<and> str r \<notin> fst ` set (inPeers ?pm)"
    by (simp add: SplitHostPort_def lastIndexByte_def str_def sample_manager_fields)
  have l: "sample_lookup (str ''a'') = Inr ([8, 8, 4, 4] # [])" by (simp add: sample_lookup_def)
  have d: "distinct (map str ?rs)" by (simp add: str_def)
  have "\<exists>pm'. manager_turns sample_crypto sample_cuckoo w sample_info_codec sample_lookup
      (map (\<lambda>r. RequestReceived (plainRequest r) 0 0) ?rs @ map (\<lambda>r. Upgraded r 0) ?rs) ?pm = Some (Inr (), pm') \<and> hostCount (str ''a'') pm' = length ?rs"
    by (rule host_limit_race [where lookup = sample_lookup and host = "str ''a''" and pm = ?pm and rs = ?rs, OF _ _ n _ _ l _ _ d s, of sample_crypto 371 True "[sample_first]"])
      (use p(2) in \<open>simp_all add: sample_manager_fields hostCount_def\<close>)
  with p(2) show "\<exists>p pm'. pinv sample_crypto 371 True [sample_first] p
    \<and> manager_turns sample_crypto sample_cuckoo w sample_info_codec sample_lookup
        (map (\<lambda>r. RequestReceived (plainRequest r) 0 0) ?rs @ map (\<lambda>r. Upgraded r 0) ?rs) (sample_manager p\<lparr>accepting := True\<rparr>) = Some (Inr (), pm')
    \<and> MAX_INBOUND_PEER_CONNECTIONS_FROM_SAME_HOST < hostCount (str ''a'') pm'" by force
qed

end
