(* ===== verification/Client.thy ===== *)
theory Client
  imports Peer_Manager_Props Miner
begin

text \<open>
  \<^verbatim>\<open>src/client/main.go\<close> and \<^verbatim>\<open>src/genesis.go\<close>: the flags of the client and the files they name, the first block, and how the
  parts of a node are put together. The contents of files, the outcome of opening the storage, the number of graphics devices
  and the address found by port forwarding are arguments.

  \<open>serves\<close> is a node over its whole life: started on empty storage, given any events, and started again on what it has
  stored.
\<close>

section \<open>Files\<close>

text \<open>\<^verbatim>\<open>base64.StdEncoding.DecodeString\<close>: what has been decoded, and whether all of the text was.\<close>

definition b64val :: "byte \<Rightarrow> nat option" where
  "b64val c = (if 65 \<le> c \<and> c \<le> 90 then Some (unat c - 65) else if 97 \<le> c \<and> c \<le> 122 then Some (unat c - 71)
     else if 48 \<le> c \<and> c \<le> 57 then Some (unat c + 4) else if c = 43 then Some 62 else if c = 47 then Some 63 else None)"

fun b64_quanta :: "bytes \<Rightarrow> bytes \<times> bool" where
  "b64_quanta [] = ([], True)"
| "b64_quanta (a # b # c # d # r) =
     (case (b64val a, b64val b, b64val c, b64val d) of
        (Some w, Some x, Some y, Some z) \<Rightarrow>
          (case b64_quanta r of (bs, ok) \<Rightarrow>
             (of_nat (w * 4 + x div 16) # of_nat (x mod 16 * 16 + y div 4) # of_nat (y mod 4 * 64 + z) # bs, ok))
      | (Some w, Some x, Some y, None) \<Rightarrow>
          if d = 61 then ([of_nat (w * 4 + x div 16), of_nat (x mod 16 * 16 + y div 4)], r = []) else ([], False)
      | (Some w, Some x, None, _) \<Rightarrow> if c = 61 \<and> d = 61 then ([of_nat (w * 4 + x div 16)], r = []) else ([], False)
      | _ \<Rightarrow> ([], False))"
| "b64_quanta _ = ([], False)"

definition base64_decode :: "bytes \<Rightarrow> bytes \<times> bool" where
  "base64_decode s = b64_quanta (filter (\<lambda>c. c \<noteq> 10 \<and> c \<noteq> 13) s)"

text \<open>The lines of a file as \<^verbatim>\<open>bufio.Scanner\<close> gives them. It refuses a line that does not fit in its buffer.\<close>

lemma indexByte_length: "indexByte b xs = Some i \<Longrightarrow> i < length xs"
  by (induction xs arbitrary: i) (auto split: if_splits)

function splitLines :: "bytes \<Rightarrow> bytes list" where
  "splitLines bs = (case indexByte 10 bs of None \<Rightarrow> if bs = [] then [] else [bs] | Some i \<Rightarrow> take i bs # splitLines (drop (i + 1) bs))"
  by auto
termination by (relation "measure length") (auto dest: indexByte_length)

declare splitLines.simps [simp del]

definition dropCR :: "bytes \<Rightarrow> bytes" where
  "dropCR l = (if l \<noteq> [] \<and> last l = 13 then butlast l else l)"

definition scanLines :: "bytes \<Rightarrow> bytes list result" where
  "scanLines file = (if \<exists>l \<in> set (splitLines file). length l \<ge> 65536 then Inl (Err ''token too long'')
     else Inr (map dropCR (splitLines file)))"

text \<open>The white space of \<^verbatim>\<open>strings.TrimSpace\<close>, in UTF-8.\<close>

definition spaces :: "bytes list" where
  "spaces = [[9], [10], [11], [12], [13], [32], [194, 133], [194, 160], [225, 154, 128]]
     @ map (\<lambda>k. [226, 128, of_nat k]) [128..<139] @ [[226, 128, 168], [226, 128, 169], [226, 128, 175], [226, 129, 159], [227, 128, 128]]"

function trimWith :: "bytes list \<Rightarrow> bytes \<Rightarrow> bytes" where
  "trimWith sp bs = (case find (\<lambda>s. s \<noteq> [] \<and> take (length s) bs = s) sp of None \<Rightarrow> bs | Some s \<Rightarrow> trimWith sp (drop (length s) bs))"
  by auto
termination
proof (relation "measure (\<lambda>(sp, bs). length bs)")
  fix sp and bs s :: bytes
  assume "find (\<lambda>s. s \<noteq> [] \<and> take (length s) bs = s) sp = Some s"
  then have s: "s \<noteq> []" "take (length s) bs = s" by (auto simp: find_Some_iff)
  then have "bs \<noteq> []" by auto
  with s show "((sp, drop (length s) bs), sp, bs) \<in> measure (\<lambda>(sp, bs). length bs)" by simp
qed simp

declare trimWith.simps [simp del]

definition TrimSpace :: "bytes \<Rightarrow> bytes" where
  "TrimSpace s = rev (trimWith (map rev spaces) (rev (trimWith spaces s)))"

fun decodeKeys :: "bytes list \<Rightarrow> bytes list result" where
  "decodeKeys [] = Inr []"
| "decodeKeys (line # rest) =
     (case base64_decode line of (pubKeyBytes, ok) \<Rightarrow>
        if length pubKeyBytes \<noteq> 32 then Inl (Err ''Invalid public key'')
        else if \<not> ok then Inl (Err ''illegal base64 data'')
        else bindE (decodeKeys rest) (\<lambda>keys. Inr (pubKeyBytes # keys)))"

definition loadPublicKeys :: "(bytes \<rightharpoonup> bytes) \<Rightarrow> bytes \<Rightarrow> bytes \<Rightarrow> bytes list result" where
  "loadPublicKeys files pubKeyEncoded keyFile =
     (if pubKeyEncoded \<noteq> [] then decodeKeys [pubKeyEncoded]
      else case files keyFile of
        None \<Rightarrow> Inl IOError
      | Some file \<Rightarrow> bindE (scanLines file) (\<lambda>ls. if ls = [] then Inl (Err ''No public keys found'') else decodeKeys ls))"

definition loadBanList :: "(bytes \<rightharpoonup> bytes) \<Rightarrow> bytes \<Rightarrow> bytes list result" where
  "loadBanList files banListFile =
     (case files banListFile of
        None \<Rightarrow> Inl IOError
      | Some file \<Rightarrow> bindE (scanLines file) (\<lambda>ls. Inr (map TrimSpace ls)))"

section \<open>Starting\<close>

record client_flags =
  f_pubkey :: bytes
  f_datadir :: bytes
  f_memo :: bytes
  f_port :: int
  f_peer :: bytes
  f_upnp :: bool
  f_dnsseed :: bool
  f_numminers :: int
  f_noaccept :: bool
  f_prune :: bool
  f_keyfile :: bytes
  f_tlscert :: bytes
  f_tlskey :: bytes
  f_inlimit :: int
  f_banlist :: bytes

text \<open>The flags up to the storage: the peer to connect to, the banned hosts and the keys to mine to.\<close>

definition checkFlags :: "(bytes \<rightharpoonup> bytes) \<Rightarrow> int option \<Rightarrow> client_flags \<Rightarrow> (bytes \<times> bytes list \<times> bytes list) result" where
  "checkFlags files devices fl =
     (if f_datadir fl = [] then Inl (Err ''-datadir argument required'')
      else if f_tlscert fl \<noteq> [] \<and> f_tlskey fl = [] then Inl (Err ''-tlskey argument missing'')
      else if f_tlscert fl = [] \<and> f_tlskey fl \<noteq> [] then Inl (Err ''-tlscert argument missing'')
      else let peer = (if f_peer fl \<noteq> [] \<and> lastIndexByte 58 (f_peer fl) = None then f_peer fl @ [58] @ itoa DEFAULT_CRUZBIT_PORT else f_peer fl)
      in bindE (if f_banlist fl \<noteq> [] then loadBanList files (f_banlist fl) else Inr []) (\<lambda>bans.
           if f_numminers fl > 0
           then if f_pubkey fl = [] \<and> f_keyfile fl = [] then Inl (Err ''-pubkey or -keyfile argument required'')
                else if f_pubkey fl \<noteq> [] \<and> f_keyfile fl \<noteq> [] then Inl (Err ''Specify only one of -pubkey or -keyfile'')
                else bindE (loadPublicKeys files (f_pubkey fl) (f_keyfile fl)) (\<lambda>pubKeys.
                  if devices \<noteq> None \<and> devices \<noteq> Some (f_numminers fl) then Inl (Err ''-numminers is not the number of devices'')
                  else Inr (peer, bans, pubKeys))
           else Inr (peer, bans, [])))"

text \<open>The block of \<^verbatim>\<open>GenesisBlockJson\<close>.\<close>

definition genesisCoinbase :: transaction where
  "genesisCoinbase = \<lparr>tx_Time = 1561173126, tx_Nonce = 1654479747, tx_From = None,
     tx_To = Some (fst (base64_decode (str ''ntkSbbG+b0vo49IGd9nnH39eHIxIEqXmIL8aaJZV+jQ=''))), tx_Amount = 5000000000, tx_Fee = 0,
     tx_Memo = str ''0000000000000000000de6d595bddae743ac032b1458a47ccaef7b0f6f1e3210'', tx_Matures = 0, tx_Expires = 0,
     tx_Series = 1, tx_Signature = None\<rparr>"

definition genesisBlock :: block where
  "genesisBlock = \<lparr>Header = \<lparr>Previous = 0, HashListRoot = 0x7afb89705316b3de79a3882ec3732b6b8796dd4bf2a80240549ae8fd49a517d8,
     bh_Time = 1561173156, Target = 0x00000000ffff0000000000000000000000000000000000000000000000000000,
     ChainWork = 0x0000000000000000000000000000000000000000000000000000000100010001, bh_Nonce = 1695541686981695, Height = 0,
     TransactionCount = 1\<rparr>, Transactions = [genesisCoinbase]\<rparr>"

text \<open>The processor on the stores that have been opened, given the first block.\<close>

definition startNode :: "crypto \<Rightarrow> int \<Rightarrow> block_store \<Rightarrow> ledger \<Rightarrow> peer_storage \<Rightarrow> (unit result \<times> node) option" where
  "startNode cr now blockStore ledger peerStore =
     (let genesisID = block_ID cr genesisBlock; processor = NewProcessor genesisID blockStore NewTransactionQueueMemory ledger
      in map_option (\<lambda>(r, p). (r, \<lparr>n_processor = p, n_inflight = NewBlockQueue, n_peerStore = peerStore, n_addrs = []\<rparr>))
           (run_turn cr now (BlockToProcess genesisID genesisBlock []) processor))"

fun newMiners :: "nat \<Rightarrow> (nat \<Rightarrow> nat) \<Rightarrow> bytes list \<Rightarrow> bytes \<Rightarrow> miner list result" where
  "newMiners 0 random pubKeys memo = Inr []"
| "newMiners (Suc n) random pubKeys memo =
     bindE (newMiners n random pubKeys memo) (\<lambda>ms. bindE (NewMiner pubKeys memo (random n)) (\<lambda>m. Inr (ms @ [m])))"

definition NewLedgerDisk :: "leveldb option \<Rightarrow> bool \<Rightarrow> ledger result" where
  "NewLedgerDisk db prune = (case db of None \<Rightarrow> Inl IOError | Some db \<Rightarrow> Inr \<lparr>l_db = db, l_prune = prune\<rparr>)"

record surroundings =
  s_files :: "bytes \<rightharpoonup> bytes"
  s_devices :: "int option"
  s_blockStore :: "block_store result"
  s_ledger :: "leveldb option"
  s_peerStore :: "leveldb option"
  s_forward :: bytes
  s_now :: int
  s_minerRandom :: "nat \<Rightarrow> nat"
  s_nonceRandom :: int

text \<open>The client up to its manager of peers, which has not run yet. An error ends the client.\<close>

definition startClient :: "crypto \<Rightarrow> client_flags \<Rightarrow> surroundings \<Rightarrow> ('f peer_manager \<times> miner list) result option" where
  "startClient cr fl s =
     (case checkFlags (s_files s) (s_devices s) fl of
        Inl e \<Rightarrow> Some (Inl e)
      | Inr (peer, bans, pubKeys) \<Rightarrow>
          (case bindE (s_blockStore s) (\<lambda>bs. bindE (NewLedgerDisk (s_ledger s) (f_prune fl)) (\<lambda>l.
                  bindE (NewPeerStorageDisk (s_peerStore s)) (\<lambda>ps. Inr (bs, l, ps)))) of
             Inl e \<Rightarrow> Some (Inl e)
           | Inr (bs, l, ps) \<Rightarrow>
               (case startNode cr (s_now s) bs l ps of
                  None \<Rightarrow> None
                | Some (Inl e, _) \<Rightarrow> Some (Inl e)
                | Some (Inr _, n) \<Rightarrow>
                    Some (bindE (newMiners (nat (f_numminers fl)) (s_minerRandom s) pubKeys (f_memo fl)) (\<lambda>miners.
                      let myExternalIP = (if f_upnp fl \<and> \<not> f_noaccept fl then s_forward s else [])
                      in Inr (NewPeerManager (block_ID cr genesisBlock) n myExternalIP peer (f_port fl) (f_inlimit fl) (\<not> f_noaccept fl)
                           (f_dnsseed fl) bans (s_nonceRandom s), miners))))))"

section \<open>Decoding\<close>

lemma b64val_b64dig: "n < 64 \<Longrightarrow> b64val (b64dig n) = Some n"
proof -
  have "\<forall>n \<in> set [0..<64]. b64val (b64dig n) = Some n" by code_simp
  then show "n < 64 \<Longrightarrow> ?thesis" by simp
qed

lemma b64dig_one_line: "10 \<noteq> b64dig n" "13 \<noteq> b64dig n"
proof -
  have "\<forall>n \<in> set [0..<64]. 10 \<noteq> b64dig n \<and> 13 \<noteq> b64dig n" by code_simp
  then have "n < 64 \<Longrightarrow> 10 \<noteq> b64dig n \<and> 13 \<noteq> b64dig n" by simp
  moreover have "\<not> n < 64 \<Longrightarrow> b64dig n = 47" by (simp add: b64dig_def)
  ultimately show "10 \<noteq> b64dig n" "13 \<noteq> b64dig n" by fastforce+
qed

lemma b64val_pad [simp]: "b64val 61 = None"
  by (simp add: b64val_def)

lemma unat_byte: "unat (a :: byte) < 256"
  by (rule order_less_le_trans [OF unsigned_less]) simp

lemma byte_parts:
  fixes a b c :: byte
  shows "unat a div 4 < 64" "unat a mod 4 * 16 < 64" "unat a mod 4 * 16 + unat b div 16 < 64" "unat b mod 16 * 4 < 64"
    "unat b mod 16 * 4 + unat c div 64 < 64" "unat c mod 64 < 64"
  using unat_byte [of a] unat_byte [of b] unat_byte [of c] by (auto simp: less_mult_imp_div_less)

lemma byte_joins:
  fixes a b c :: byte
  shows "word_of_nat (unat a div 4 * 4 + (unat a mod 4 * 16 + unat b div 16) div 16) = a"
    "word_of_nat ((unat a mod 4 * 16 + unat b div 16) mod 16 * 16 + (unat b mod 16 * 4 + unat c div 64) div 4) = b"
    "word_of_nat ((unat b mod 16 * 4 + unat c div 64) mod 4 * 64 + unat c mod 64) = c"
proof -
  have "unat b div 16 < 16" "unat c div 64 < 4" using unat_byte [of b] unat_byte [of c] by (auto simp: less_mult_imp_div_less)
  then have "unat a div 4 * 4 + (unat a mod 4 * 16 + unat b div 16) div 16 = unat a"
    "(unat a mod 4 * 16 + unat b div 16) mod 16 * 16 + (unat b mod 16 * 4 + unat c div 64) div 4 = unat b"
    "(unat b mod 16 * 4 + unat c div 64) mod 4 * 64 + unat c mod 64 = unat c" by auto
  then show "word_of_nat (unat a div 4 * 4 + (unat a mod 4 * 16 + unat b div 16) div 16) = a"
    "word_of_nat ((unat a mod 4 * 16 + unat b div 16) mod 16 * 16 + (unat b mod 16 * 4 + unat c div 64) div 4) = b"
    "word_of_nat ((unat b mod 16 * 4 + unat c div 64) mod 4 * 64 + unat c mod 64) = c" by (simp_all only: of_nat_unat ucast_id)
qed

lemma b64_quanta_base64: "b64_quanta (base64 bs) = (bs, True)"
proof (induction bs rule: base64.induct)
  case (2 a)
  then show ?case using byte_parts(1,2) [of a] byte_joins(1) [of a 0] by (simp add: b64val_b64dig)
next
  case (3 a b)
  then show ?case using byte_parts(1) [of a] byte_parts(3) [of a b] byte_parts(4) [of b] byte_joins(1) [of a b] byte_joins(2) [of a b 0] by (simp add: b64val_b64dig)
next
  case (4 a b c r)
  then show ?case using byte_parts(1) [of a] byte_parts(3) [of a b] byte_parts(5) [of b c] byte_parts(6) [of c] byte_joins(1) [of a b] byte_joins(2) [of a b c] byte_joins(3) [of b c] by (simp add: b64val_b64dig)
qed simp

lemma base64_one_line: "10 \<notin> set (base64 bs) \<and> 13 \<notin> set (base64 bs)"
  by (induction bs rule: base64.induct) (simp_all add: b64dig_one_line)

lemma base64_decode_base64 [simp]: "base64_decode (base64 bs) = (bs, True)"
proof -
  have "filter (\<lambda>c. c \<noteq> 10 \<and> c \<noteq> 13) (base64 bs) = base64 bs" using base64_one_line [of bs] by (auto simp: filter_id_conv)
  then show ?thesis by (simp add: base64_decode_def b64_quanta_base64)
qed

lemma splitLines_line: "10 \<notin> set l \<Longrightarrow> splitLines (l @ 10 # r) = l # splitLines r"
  by (subst splitLines.simps) (simp add: indexByte_append)

lemma splitLines_keys: "splitLines (concat (map (\<lambda>k. base64 k @ [10]) keys)) = map base64 keys"
proof (induction keys)
  case (Cons k keys)
  then show ?case using splitLines_line [of "base64 k"] base64_one_line [of k] by simp
qed (simp add: splitLines.simps)

lemma length_base64: "length (base64 bs) = (length bs + 2) div 3 * 4"
  by (induction bs rule: base64.induct) (simp_all, presburger)

lemma decodeKeys_base64: "\<forall>k \<in> set keys. length k = 32 \<Longrightarrow> decodeKeys (map base64 keys) = Inr keys"
  by (induction keys) auto

lemma decodeKeys_sound: "decodeKeys ls = Inr keys \<Longrightarrow> length keys = length ls \<and> (\<forall>k \<in> set keys. length k = 32)"
  by (induction ls arbitrary: keys) (auto simp: result_simps split: prod.splits if_splits)

lemma loadPublicKeys_sound:
  "loadPublicKeys files pubKey keyFile = Inr keys \<Longrightarrow> keys \<noteq> [] \<and> (\<forall>k \<in> set keys. length k = 32)"
  by (auto simp: loadPublicKeys_def result_simps simp del: decodeKeys.simps split: if_splits option.splits dest!: decodeKeys_sound)

lemma newMiners_ok: "pubKeys \<noteq> [] \<Longrightarrow> \<exists>ms. newMiners n random pubKeys memo = Inr ms \<and> length ms = n"
  by (induction n) (auto simp: NewMiner_def)

lemma checkFlags_keys:
  "checkFlags files devices fl = Inr (peer, bans, pubKeys) \<Longrightarrow> nat (f_numminers fl) = 0 \<or> pubKeys \<noteq> []"
  using loadPublicKeys_sound by (auto simp: checkFlags_def Let_def result_simps split: if_splits)

text \<open>
  C10 (roundtrip). A file of base64 lines, one for each public key, is read back as these keys, and what is read from a
  flag or a file is never empty and holds only keys of 32 bytes.
\<close>

theorem key_file_roundtrip:
  "(keys \<noteq> [] \<and> list_all (\<lambda>k. length k = 32) keys \<longrightarrow>
      loadPublicKeys [file \<mapsto> concat (map (\<lambda>k. base64 k @ [10]) keys)] [] file = Inr keys)
   \<and> (loadPublicKeys files pubKey keyFile = Inr keys' \<longrightarrow> keys' \<noteq> [] \<and> list_all (\<lambda>k. length k = 32) keys')"
proof (intro conjI impI)
  assume k: "keys \<noteq> [] \<and> list_all (\<lambda>k. length k = 32) keys"
  then have "\<not> (\<exists>l \<in> base64 ` set keys. 65536 \<le> length l)" by (auto simp: length_base64 list_all_iff)
  moreover have "map dropCR (map base64 keys) = map base64 keys"
    using base64_one_line by (auto simp: dropCR_def dest: last_in_set)
  ultimately have "scanLines (concat (map (\<lambda>k. base64 k @ [10]) keys)) = Inr (map base64 keys)"
    by (simp add: scanLines_def splitLines_keys del: map_map)
  with k decodeKeys_base64 [of keys] show "loadPublicKeys [file \<mapsto> concat (map (\<lambda>k. base64 k @ [10]) keys)] [] file = Inr keys"
    by (simp add: loadPublicKeys_def list_all_iff)
qed (auto dest!: loadPublicKeys_sound simp: list_all_iff)

theorem key_file_roundtrip_witness:
  "loadPublicKeys [str ''keys'' \<mapsto> concat (map (\<lambda>k. base64 k @ [10]) [replicate 32 7, replicate 32 9])] [] (str ''keys'')
    = Inr [replicate 32 7, replicate 32 9]"
  by (rule key_file_roundtrip [THEN conjunct1, rule_format]) simp

section \<open>The first block\<close>

lemma genesis_to: "octets (tx_To genesisCoinbase) \<noteq> [] \<and> length (octets (tx_To genesisCoinbase)) = 32"
  by (simp add: genesisCoinbase_def base64_decode_def str_def b64val_def)

lemma genesis_coinbase_ok: "tx_ok genesisCoinbase" "IsCoinbase genesisCoinbase"
  using genesis_to by (simp_all add: tx_ok_def IsCoinbase_def genesisCoinbase_def str_def)

lemma genesis_shape: "block_shape cr genesisBlock"
  using genesis_coinbase_ok by (simp add: block_shape_def genesisBlock_def)

lemma genesis_reward: "tx_Amount (coinbaseOf genesisBlock) = 5000000000" "fees (Transactions genesisBlock) = 0" "BlockCreationReward 0 = 5000000000"
  using reward_nat [of 0] by (simp_all add: coinbaseOf_def genesisBlock_def genesisCoinbase_def IsCoinbase_def)

lemma genesis_ok: "block_ok cr 0 genesisBlock" "chain_valid cr prune [genesisBlock]"
proof -
  have h: "Height (Header genesisBlock) = 0" by (simp add: genesisBlock_def)
  show "block_ok cr 0 genesisBlock" using genesis_shape genesis_reward h by (simp add: block_ok_def i64_small)
  show "chain_valid cr prune [genesisBlock]"
  proof -
    have "money_run (chainEffects [genesisBlock]) (\<lambda>_. 0)"
      using genesis_coinbase_ok(2) by (simp add: chainEffects_def effectsAt_def maturesAt_def genesisBlock_def money_table_def)
    with genesis_shape genesis_reward h show ?thesis by (simp add: chain_valid_def)
  qed
qed

section \<open>Starting a node\<close>

lemma startNode_fresh:
  assumes "startable prune bs l" "startNode cr now bs l ps = Some (Inr (), n)"
  shows "pinv cr (block_ID cr genesisBlock) prune [genesisBlock] (n_processor n)" "n_inflight n = NewBlockQueue"
proof -
  let ?i = "block_ID cr genesisBlock"
  obtain r p where "processBlock cr ?i genesisBlock now [] (NewProcessor ?i bs NewTransactionQueueMemory l) = Some (r, p)"
    "(if checkBlock cr ?i genesisBlock now = Inr () then pinv cr ?i prune [genesisBlock] p else \<exists>e. r = Inl e)"
    using processBlock_fresh [OF startable_fresh [OF assms(1), of cr ?i], where b = genesisBlock and i = ?i and now = now and source = "[]"]
      genesis_ok by (auto split: if_splits)
  with assms(2) show "pinv cr ?i prune [genesisBlock] (n_processor n)" "n_inflight n = NewBlockQueue"
    by (auto simp: startNode_def run_turn_def Let_def split: if_splits)
qed

lemma startNode_again:
  assumes nz: "noZeroID cr" and p: "pinv cr (block_ID cr genesisBlock) prune chain p"
  shows "\<exists>n. startNode cr now (p_blockStore p) \<lparr>l_db = l_db (p_ledger p), l_prune = prune\<rparr> ps = Some (Inr (), n) \<and> n_inflight n = NewBlockQueue
    \<and> pinv cr (block_ID cr genesisBlock) prune chain (n_processor n)"
proof -
  let ?i = "block_ID cr genesisBlock"
  let ?p = "NewProcessor ?i (p_blockStore p) NewTransactionQueueMemory (p_ledger p)"
  have c: "pcore cr ?i prune chain p" using p by (simp add: pinv_def)
  have l: "\<lparr>l_db = l_db (p_ledger p), l_prune = prune\<rparr> = p_ledger p"
    using reach_inv [OF pcore_parts(4) [OF c]] by (cases "p_ledger p") auto
  have q: "pinv cr ?i prune chain ?p"
    by (rule pinv_queue [OF p settled_new]) (use pcore_parts(2) [OF c] in \<open>simp_all add: NewProcessor_def\<close>)
  have "?i \<in> known (p_ledger ?p)"
  proof -
    note d = pcore_parts [OF c]
    have "block_ID cr (chain ! 0) = ?i" using branch_id [OF branch_first [OF d(6)]] by simp
    moreover have "chain ! 0 \<in> set chain" using d(5) by simp
    ultimately show ?thesis using d(10) by (force simp: NewProcessor_def)
  qed
  moreover have "?i \<noteq> 0" using nz by (simp add: noZeroID_def block_ID_def)
  ultimately have "processBlock cr ?i genesisBlock now [] ?p = Some (Inr (), ?p)"
    using processBlock_pinv [OF q, where i = ?i and b = genesisBlock and now = now and source = "[]"] by auto
  with q show ?thesis by (simp add: startNode_def run_turn_def Let_def l)
qed

lemma startClient_parts:
  assumes "startClient cr fl s = Some (Inr (pm, miners))"
  obtains bs db ps n ip peer bans where "s_blockStore s = Inr bs" "s_ledger s = Some db"
    "startNode cr (s_now s) bs \<lparr>l_db = db, l_prune = f_prune fl\<rparr> ps = Some (Inr (), n)"
    "pm = NewPeerManager (block_ID cr genesisBlock) n ip peer (f_port fl) (f_inlimit fl) (\<not> f_noaccept fl) (f_dnsseed fl) bans (s_nonceRandom s)"
  using assms by (auto simp: startClient_def Let_def result_simps NewLedgerDisk_def split: sum.splits prod.splits option.splits)

text \<open>
  A node over its life. Whatever it is given, it may be started again on what it has stored, whether it was shut down or
  not; the flag that prunes its indices is the same each time.
\<close>

inductive serves :: "crypto \<Rightarrow> 'f cuckoo \<Rightarrow> wire \<Rightarrow> info_codec \<Rightarrow> bool \<Rightarrow> 'f peer_manager \<Rightarrow> bool" for cr cf w c prune where
  boot: "s_blockStore s = Inr bs \<Longrightarrow> s_ledger s = Some db \<Longrightarrow> startable prune bs \<lparr>l_db = db, l_prune = prune\<rparr> \<Longrightarrow> f_prune fl = prune \<Longrightarrow> 0 \<le> f_inlimit fl \<Longrightarrow> int64 (f_inlimit fl) \<Longrightarrow>
    startClient cr fl s = Some (Inr (pm, miners)) \<Longrightarrow> startManager c at now random externalIP localMatch seeds pm = Some (r, pm') \<Longrightarrow>
    serves cr cf w c prune pm'"
| turn: "serves cr cf w c prune pm \<Longrightarrow> ownEvent cr ev \<Longrightarrow> manager_turn cr cf w c lookup ev pm = Some (r, pm') \<Longrightarrow> serves cr cf w c prune pm'"
| restart: "serves cr cf w c prune pm0 \<Longrightarrow> s_blockStore s = Inr (p_blockStore (n_processor (pm_node pm0))) \<Longrightarrow>
    s_ledger s = Some (l_db (p_ledger (n_processor (pm_node pm0)))) \<Longrightarrow> f_prune fl = prune \<Longrightarrow> 0 \<le> f_inlimit fl \<Longrightarrow> int64 (f_inlimit fl) \<Longrightarrow>
    startClient cr fl s = Some (Inr (pm, miners)) \<Longrightarrow> startManager c at now random externalIP localMatch seeds pm = Some (r, pm') \<Longrightarrow>
    serves cr cf w c prune pm'"

definition serving :: "crypto \<Rightarrow> 'f cuckoo \<Rightarrow> wire \<Rightarrow> info_codec \<Rightarrow> bool \<Rightarrow> 'f peer_manager \<Rightarrow> bool" where
  "serving cr cf w c prune pm \<longleftrightarrow> (\<exists>n0. chained cr (block_ID cr genesisBlock) prune n0 \<and> node_ok cr cf w c (block_ID cr genesisBlock) n0 pm)"

lemma serving_start:
  assumes nz: "noZeroID cr" and f: "0 \<le> f_inlimit fl" "int64 (f_inlimit fl)" and s: "startClient cr fl s = Some (Inr (pm, miners))"
    and n: "\<And>n bs db ps. s_blockStore s = Inr bs \<Longrightarrow> s_ledger s = Some db \<Longrightarrow>
      startNode cr (s_now s) bs \<lparr>l_db = db, l_prune = f_prune fl\<rparr> ps = Some (Inr (), n) \<Longrightarrow>
      \<exists>chain. pinv cr (block_ID cr genesisBlock) prune chain (n_processor n)"
    and m: "startManager c at now random externalIP localMatch seeds pm = Some (r, pm')"
  shows "serving cr cf w c prune pm'"
proof -
  let ?i = "block_ID cr genesisBlock"
  obtain bs db ps n ip peer bans where p: "s_blockStore s = Inr bs" "s_ledger s = Some db"
    "startNode cr (s_now s) bs \<lparr>l_db = db, l_prune = f_prune fl\<rparr> ps = Some (Inr (), n)"
    "pm = NewPeerManager ?i n ip peer (f_port fl) (f_inlimit fl) (\<not> f_noaccept fl) (f_dnsseed fl) bans (s_nonceRandom s)"
    using s by (rule startClient_parts)
  let ?n = "n\<lparr>n_inflight := NewBlockQueue, n_addrs := []\<rparr>"
  have ch: "chained cr ?i prune ?n" using n [OF p(1-3)] nz by (simp add: chained_def)
  have "node_ok cr cf w c ?i ?n pm" unfolding p(4) by (rule NewPeerManager_ok [OF f])
  from startManager_ok [OF this ch, of at now random externalIP localMatch seeds] m have "node_ok cr cf w c ?i ?n pm'" by auto
  with ch show ?thesis unfolding serving_def by blast
qed

lemma serving_pinv:
  assumes "serving cr cf w c prune pm"
  obtains chain where "pinv cr (block_ID cr genesisBlock) prune chain (n_processor (pm_node pm))"
  using assms nw_inv_parts(1) node_ok_nw unfolding serving_def by blast

lemma serves_serving:
  assumes "serves cr cf w c prune pm" and nz: "noZeroID cr"
  shows "serving cr cf w c prune pm"
  using assms(1)
proof induction
  case (boot s bs db fl pm miners at now random externalIP localMatch seeds r pm')
  show ?case
  proof (rule serving_start [OF nz boot.hyps(5-7) _ boot.hyps(8)])
    fix n bs' db' ps
    assume "s_blockStore s = Inr bs'" "s_ledger s = Some db'"
      "startNode cr (s_now s) bs' \<lparr>l_db = db', l_prune = f_prune fl\<rparr> ps = Some (Inr (), n)"
    then have "startNode cr (s_now s) bs \<lparr>l_db = db, l_prune = prune\<rparr> ps = Some (Inr (), n)" using boot.hyps(1,2,4) by simp
    from startNode_fresh(1) [OF boot.hyps(3) this] show "\<exists>chain. pinv cr (block_ID cr genesisBlock) prune chain (n_processor n)" ..
  qed
next
  case (turn pm ev lookup r pm')
  then obtain n0 where n: "chained cr (block_ID cr genesisBlock) prune n0" "node_ok cr cf w c (block_ID cr genesisBlock) n0 pm"
    by (auto simp: serving_def)
  from manager_turn_ok [OF n(2,1) turn.hyps(2), of lookup] turn.hyps(3) n(1) show ?case by (auto simp: serving_def)
next
  case (restart pm0 s fl pm miners at now random externalIP localMatch seeds r pm')
  obtain chain where p: "pinv cr (block_ID cr genesisBlock) prune chain (n_processor (pm_node pm0))" by (rule serving_pinv [OF restart.IH])
  show ?case
  proof (rule serving_start [OF nz restart.hyps(5-7) _ restart.hyps(8)])
    fix n bs' db' ps
    assume "s_blockStore s = Inr bs'" "s_ledger s = Some db'"
      "startNode cr (s_now s) bs' \<lparr>l_db = db', l_prune = f_prune fl\<rparr> ps = Some (Inr (), n)"
    with restart.hyps(2-4) startNode_again [OF nz p, of "s_now s" ps] show "\<exists>chain. pinv cr (block_ID cr genesisBlock) prune chain (n_processor n)" by auto
  qed
qed

lemma startClient_again:
  assumes nz: "noZeroID cr" and p: "pinv cr (block_ID cr genesisBlock) prune chain p"
    and f: "checkFlags (s_files s) (s_devices s) fl = Inr (peer, bans, pubKeys)" "s_peerStore s = Some pdb"
    and s: "s_blockStore s = Inr (p_blockStore p)" "s_ledger s = Some (l_db (p_ledger p))" "f_prune fl = prune"
  shows "\<exists>(pm :: 'f peer_manager) miners. startClient cr fl s = Some (Inr (pm, miners)) \<and> length miners = nat (f_numminers fl)
    \<and> pinv cr (block_ID cr genesisBlock) prune chain (n_processor (pm_node pm))"
proof -
  obtain n where n: "startNode cr (s_now s) (p_blockStore p) \<lparr>l_db = l_db (p_ledger p), l_prune = prune\<rparr> \<lparr>ps_db = pdb, ps_connected = {}\<rparr>
    = Some (Inr (), n)"
    "pinv cr (block_ID cr genesisBlock) prune chain (n_processor n)" using startNode_again [OF nz p] by blast
  have "\<exists>ms. newMiners (nat (f_numminers fl)) (s_minerRandom s) pubKeys (f_memo fl) = Inr ms \<and> length ms = nat (f_numminers fl)"
  proof (cases "nat (f_numminers fl) = 0")
    case False
    then have "pubKeys \<noteq> []" using checkFlags_keys [OF f(1)] by simp
    then show ?thesis by (rule newMiners_ok)
  qed simp
  then obtain ms where m: "newMiners (nat (f_numminers fl)) (s_minerRandom s) pubKeys (f_memo fl) = Inr ms" "length ms = nat (f_numminers fl)"
    by blast
  obtain pm :: "'f peer_manager" where pm: "startClient cr fl s = Some (Inr (pm, ms))" "pm_node pm = n\<lparr>n_inflight := NewBlockQueue, n_addrs := []\<rparr>"
    by (simp add: startClient_def f s n(1) m(1) Let_def NewPeerManager_def NewLedgerDisk_def NewPeerStorageDisk_def)
  from pm(2) n(2) have "pinv cr (block_ID cr genesisBlock) prune chain (n_processor (pm_node pm))" by simp
  with pm(1) m(2) show ?thesis by blast
qed

section \<open>A node to look at\<close>

text \<open>A hash that fits the first block, and the storage of a node that has not run yet.\<close>

definition genesis_crypto :: crypto where
  "genesis_crypto = \<lparr>sha3_256 = \<lambda>bs. if take 3 bs = [123, 34, 112] \<and> length bs \<noteq> 64 then 1
       else 0x7afb89705316b3de79a3882ec3732b6b8796dd4bf2a80240549ae8fd49a517d8,
     ed25519_verify = \<lambda>pk msg sig. sig = pk, ed25519_sign = \<lambda>sk msg. sk\<rparr>"

definition sample_flags :: client_flags where
  "sample_flags = \<lparr>f_pubkey = base64 (replicate 32 7), f_datadir = str ''data'', f_memo = [], f_port = 8831, f_peer = [], f_upnp = False,
     f_dnsseed = False, f_numminers = 2, f_noaccept = False, f_prune = True, f_keyfile = [], f_tlscert = [], f_tlskey = [],
     f_inlimit = 128, f_banlist = []\<rparr>"

definition sample_surroundings :: surroundings where
  "sample_surroundings = \<lparr>s_files = Map.empty, s_devices = None, s_blockStore = Inr (sample_store\<lparr>bs_blocks := Map.empty\<rparr>),
     s_ledger = Some (l_db sample_ledger), s_peerStore = Some sample_peer_db, s_forward = [], s_now = 1561173156, s_minerRandom = (\<lambda>_. 0),
     s_nonceRandom = 7\<rparr>"

lemma sample_checkFlags: "checkFlags Map.empty None sample_flags = Inr ([], [], [replicate 32 7])"
proof -
  have "length (base64 (replicate 32 7)) = 44" by (simp add: length_base64)
  then have "base64 (replicate 32 7) \<noteq> []" by auto
  then show ?thesis by (simp add: checkFlags_def sample_flags_def Let_def loadPublicKeys_def str_def)
qed

lemma genesis_crypto_nonzero: "noZeroID genesis_crypto"
  by (simp add: noZeroID_def header_ID_def genesis_crypto_def header_json_def json_key_def str_def)

lemma genesis_id: "block_ID genesis_crypto genesisBlock = 1"
  by (simp add: block_ID_def header_ID_def genesis_crypto_def header_json_def json_key_def str_def)

lemma utf8_valid_ascii: "list_all (\<lambda>b. unat b < 128) s \<Longrightarrow> utf8_valid s"
  by (induction s) (simp_all add: utf8_valid.simps [of "_ # _"] utf8_valid.simps [of "[]"] utf8_len_def)

lemma genesis_checks: "checkBlock genesis_crypto 1 genesisBlock 1561173156 = Inr ()"
proof -
  have "checkTransaction genesisCoinbase = Inr ()"
  proof -
    have "utf8_valid (tx_Memo genesisCoinbase)" by (rule utf8_valid_ascii) (simp add: genesisCoinbase_def str_def)
    moreover have "length (tx_Memo genesisCoinbase) = 64" by (simp add: genesisCoinbase_def)
    moreover have "\<exists>to. tx_To genesisCoinbase = Some to" by (simp add: genesisCoinbase_def)
    moreover have "octets (tx_From genesisCoinbase) \<noteq> octets (tx_To genesisCoinbase)" using genesis_to by (auto simp: genesisCoinbase_def)
    moreover have "tx_Time genesisCoinbase = 1561173126" "tx_Nonce genesisCoinbase = 1654479747" "tx_Fee genesisCoinbase = 0"
      "tx_Matures genesisCoinbase = 0" "tx_Expires genesisCoinbase = 0" "tx_Signature genesisCoinbase = None"
      "tx_Amount genesisCoinbase = 5000000000" "tx_Series genesisCoinbase = 1" by (simp_all add: genesisCoinbase_def)
    ultimately show ?thesis using genesis_to genesis_coinbase_ok(2) by (auto simp: checkTransaction_def)
  qed
  moreover have "computeHashListRoot genesis_crypto [] [genesisCoinbase] = Inr (0x7afb89705316b3de79a3882ec3732b6b8796dd4bf2a80240549ae8fd49a517d8, [])"
    by (simp add: computeHashListRoot_def Let_def addCoinbaseToHashListRoot_def genesis_crypto_def)
  ultimately show ?thesis
    by (simp add: checkBlock_def Let_def genesisBlock_def CheckPOW_def CheckpointCheck_def max_txs_first genesis_coinbase_ok(2)
      Checkpoints_def i64_small result_simps GetBigInt_def)
qed

lemma sample_client:
  obtains pm :: "unit peer_manager" and miners where "startClient genesis_crypto sample_flags sample_surroundings = Some (Inr (pm, miners))"
    "length miners = 2"
proof -
  let ?p = "NewProcessor 1 (sample_store\<lparr>bs_blocks := Map.empty\<rparr>) NewTransactionQueueMemory sample_ledger"
  obtain p where "processBlock genesis_crypto 1 genesisBlock 1561173156 [] ?p = Some (Inr (), p)"
    using processBlock_fresh [OF startable_fresh [OF sample_startable, of genesis_crypto 1], where b = genesisBlock and i = 1
        and now = 1561173156 and source = "[]"] genesis_ok genesis_id genesis_checks by auto
  then have n: "\<exists>n. startNode genesis_crypto 1561173156 (sample_store\<lparr>bs_blocks := Map.empty\<rparr>) sample_ledger sample_storage = Some (Inr (), n)"
    by (simp add: startNode_def genesis_id run_turn_def)
  obtain ms where m: "newMiners 2 (\<lambda>_. 0) [replicate 32 7] [] = Inr ms" "length ms = 2" using newMiners_ok [of "[replicate 32 7]"] by blast
  have "f_numminers sample_flags = 2" "f_memo sample_flags = []" "f_prune sample_flags = True" by (simp_all add: sample_flags_def)
  moreover have "\<lparr>l_db = l_db sample_ledger, l_prune = True\<rparr> = sample_ledger" "\<lparr>ps_db = sample_peer_db, ps_connected = {}\<rparr> = sample_storage"
    by (simp_all add: sample_ledger_def sample_storage_def)
  ultimately have "\<exists>pm :: unit peer_manager. startClient genesis_crypto sample_flags sample_surroundings = Some (Inr (pm, ms))"
    using n m(1) by (auto simp: startClient_def sample_surroundings_def sample_checkFlags Let_def NewLedgerDisk_def NewPeerStorageDisk_def)
  with m(2) show ?thesis using that by blast
qed

definition sample_attempts :: attempts where
  "sample_attempts = \<lparr>at_query = (\<lambda>_. 0), at_time = (\<lambda>_. 0), at_dial = (\<lambda>_. DialRefused 0), at_remote = (\<lambda>_. []), at_cancelled = (\<lambda>_. False)\<rparr>"

text \<open>Each message asks for the tip.\<close>

definition sample_wire :: wire where
  "sample_wire = \<lparr>w_frame = (\<lambda>_. Inr (''get_tip_header'', [])), w_InvBlock = (\<lambda>_. Inl IOError), w_GetBlock = (\<lambda>_. Inl IOError),
     w_GetBlockByHeight = (\<lambda>_. Inl IOError), w_Block = (\<lambda>_. Inl IOError), w_FindCommonAncestor = (\<lambda>_. Inl IOError),
     w_GetBlockHeader = (\<lambda>_. Inl IOError), w_GetBlockHeaderByHeight = (\<lambda>_. Inl IOError), w_GetBalance = (\<lambda>_. Inl IOError),
     w_GetBalances = (\<lambda>_. Inl IOError), w_GetPublicKeyTransactions = (\<lambda>_. Inl IOError), w_GetTransaction = (\<lambda>_. Inl IOError),
     w_PushTransaction = (\<lambda>_. Inl IOError), w_PushTransactionResult = (\<lambda>_. Inl IOError), w_FilterLoad = (\<lambda>_. Inl IOError),
     w_FilterAdd = (\<lambda>_. Inl IOError), w_PeerAddresses = (\<lambda>_. Inl IOError), w_GetWork = (\<lambda>_. Inl IOError), w_SubmitWork = (\<lambda>_. Inl IOError)\<rparr>"

abbreviation sample_serves :: "unit peer_manager \<Rightarrow> bool" where
  "sample_serves \<equiv> serves genesis_crypto sample_cuckoo sample_wire sample_info_codec True"

lemma serves_sample: "\<exists>pm. sample_serves pm"
proof -
  let ?i = "block_ID genesis_crypto genesisBlock" and ?l = "\<lparr>l_db = l_db sample_ledger, l_prune = True\<rparr>"
  let ?bs = "sample_store\<lparr>bs_blocks := Map.empty\<rparr>"
  obtain pm miners where s: "startClient genesis_crypto sample_flags sample_surroundings = Some (Inr (pm :: unit peer_manager, miners))"
    by (rule sample_client)
  have l: "?l = sample_ledger" by (simp add: sample_ledger_def)
  have f: "0 \<le> f_inlimit sample_flags" "int64 (f_inlimit sample_flags)" "f_prune sample_flags = True" by (simp_all add: sample_flags_def int64_def)
  have d: "s_blockStore sample_surroundings = Inr ?bs" "s_ledger sample_surroundings = Some (l_db sample_ledger)"
    by (simp_all add: sample_surroundings_def)
  obtain bs db ps n ip peer bans where p: "s_blockStore sample_surroundings = Inr bs" "s_ledger sample_surroundings = Some db"
    "startNode genesis_crypto (s_now sample_surroundings) bs \<lparr>l_db = db, l_prune = f_prune sample_flags\<rparr> ps = Some (Inr (), n)"
    "pm = NewPeerManager ?i n ip peer (f_port sample_flags) (f_inlimit sample_flags) (\<not> f_noaccept sample_flags)
      (f_dnsseed sample_flags) bans (s_nonceRandom sample_surroundings)"
    using s by (rule startClient_parts)
  let ?n = "n\<lparr>n_inflight := NewBlockQueue, n_addrs := []\<rparr>"
  have "startNode genesis_crypto (s_now sample_surroundings) ?bs sample_ledger ps = Some (Inr (), n)" using p(1-3) d f(3) l by simp
  from startNode_fresh [OF sample_startable this] have ch: "chained genesis_crypto ?i True ?n"
    using genesis_crypto_nonzero by (auto simp: chained_def)
  have "node_ok genesis_crypto sample_cuckoo sample_wire sample_info_codec ?i ?n pm" unfolding p(4) by (rule NewPeerManager_ok [OF f(1,2)])
  from startManager_ok [OF this ch] obtain r pm' where m: "startManager sample_info_codec sample_attempts 0 0 (Inl IOError) False [] pm = Some (r, pm')" by blast
  have "startable True ?bs ?l" using sample_startable l by simp
  from serves.boot [OF d this f(3,1,2) s m] show ?thesis by blast
qed

end
