(* ===== verification/Miner_Props.thy ===== *)
theory Miner_Props
  imports Processor_Props Miner
begin

text \<open>
  What the miner builds passes the checks of the processor it submits to, and where it does not.
\<close>

section \<open>The template\<close>

definition minable :: "int \<Rightarrow> tx_queue \<Rightarrow> crypto \<Rightarrow> transaction \<Rightarrow> bool" where
  "minable height q cr tx \<longleftrightarrow> checkTransaction tx = Inr () \<and> \<not> IsCoinbase tx
     \<and> checkTransactionSeries tx height \<and> IsMature tx height \<and> \<not> IsExpired tx height
     \<and> tq_ExistsSigned (tx_ID cr tx) (tx_Signature tx) q"

definition coinbase_ok :: "int \<Rightarrow> transaction \<Rightarrow> bool" where
  "coinbase_ok height c \<longleftrightarrow> IsCoinbase c \<and> tx_Series c = i64 (height sdiv BLOCKS_UNTIL_NEW_SERIES + 1)
     \<and> tx_Fee c = 0 \<and> tx_Matures c = 0 \<and> tx_Expires c = 0 \<and> tx_Signature c = None
     \<and> (\<exists>pk. tx_To c = Some pk \<and> length pk = 32) \<and> utf8_valid (tx_Memo c) \<and> length (tx_Memo c) \<le> MAX_MEMO_LENGTH
     \<and> 0 \<le> tx_Time c \<and> tx_Time c \<le> MAX_NUMBER \<and> 0 \<le> tx_Nonce c"

definition template :: "crypto \<Rightarrow> processor \<Rightarrow> block_id \<Rightarrow> block_header \<Rightarrow> int \<Rightarrow> mining_block \<Rightarrow> bool" where
  "template cr p tipID h median b \<longleftrightarrow>
     Previous (Header b) = tipID \<and> Height (Header b) = Height h + 1
     \<and> computeTarget h (p_blockStore p) (p_ledger p) = Inr (Target (Header b))
     \<and> computeChainWork (Target (Header b)) (ChainWork h) = Inr (ChainWork (Header b))
     \<and> 0 \<le> bh_Nonce (Header b) \<and> bh_Nonce (Header b) \<le> MAX_NUMBER
     \<and> median < bh_Time (Header b) \<and> bh_Time (Header b) \<le> MAX_NUMBER
     \<and> mining_inv cr b
     \<and> (\<exists>c txs. Transactions b = c # txs \<and> coinbase_ok (Height h + 1) c
          \<and> (\<forall>tx \<in> set txs. minable (Height h + 1) (p_txQueue p) cr tx)
          \<and> tx_Amount c = i64 (BlockCreationReward (Height h + 1) + sum_list (map tx_Fee txs)))
     \<and> length (Transactions b) \<le> MAX_TRANSACTIONS_TO_INCLUDE_PER_BLOCK"

lemma template_header:
  assumes "template cr p tipID h median b" "median < t" "t \<le> MAX_NUMBER" "0 \<le> n" "n \<le> MAX_NUMBER"
  shows "template cr p tipID h median (b\<lparr>Header := (Header b)\<lparr>bh_Time := t, bh_Nonce := n\<rparr>\<rparr>)"
  using assms by (simp add: template_def mining_inv_def)

text \<open>A template that is solved passes the checks of a block, and those that depend on its parent.\<close>

lemma template_checkBlock:
  assumes t: "template cr p tipID h median b" and h: "0 \<le> Height h" "Height h < MAX_NUMBER" and med: "0 \<le> median"
    and i: "GetBigInt i \<le> GetBigInt (Target (Header b))" and cp: "CheckpointCheck i (Height h + 1) = Inr ()"
    and now: "bh_Time (Header b) \<le> i64 (now + MAX_FUTURE_SECONDS)"
    and amount: "0 < tx_Amount (hd (Transactions b))" "tx_Amount (hd (Transactions b)) \<le> MAX_MONEY"
    and ids: "distinct (map (tx_ID cr) (Transactions b))"
  shows "checkBlock cr i (block.truncate b) now = Inr ()"
proof -
  obtain c txs where c: "Transactions b = c # txs" "coinbase_ok (Height h + 1) c" "\<forall>tx \<in> set txs. minable (Height h + 1) (p_txQueue p) cr tx"
    and l: "length (Transactions b) \<le> 10000" and m: "mining_inv cr b"
    using t unfolding template_def by auto
  have n: "int (length (Transactions b)) < 2147483648" using l by simp
  have cnt: "TransactionCount (Header b) = int (length (Transactions b))"
    using m n by (simp add: mining_inv_def i32_id int32_def)
  obtain mx where mx: "computeMaxTransactionsPerBlock (Height h + 1) = Inr mx" "10000 \<le> mx"
    using max_txs_defined [of "Height h + 1"] max_txs_bounds(1) [of "Height h + 1"] h(1) by auto
  have s: "0 < tx_Series c" "tx_Series c \<le> MAX_NUMBER"
  proof -
    have d: "(Height h + 1) sdiv 1008 = (Height h + 1) div 1008" using h by (simp add: signed_divide_int_def)
    have "0 \<le> (Height h + 1) div 1008" "(Height h + 1) div 1008 \<le> (2 ^ 53 - 1) div 1008"
      using h by (auto intro!: zdiv_mono1)
    then show "0 < tx_Series c" "tx_Series c \<le> MAX_NUMBER" using c(2) d by (auto simp: coinbase_ok_def i64_small)
  qed
  have "checkTransaction c = Inr ()"
    using c(1,2) s amount by (auto simp: checkTransaction_def coinbase_ok_def IsCoinbase_def octets_def)
  then have ct: "\<forall>tx \<in> set (Transactions b). checkTransaction tx = Inr ()"
    using c by (auto simp: minable_def)
  have dl: "length (fold List.insert (map (tx_ID cr) (Transactions b)) []) = length (Transactions b)"
    using length_fold_insert [of "map (tx_ID cr) (Transactions b)" "[]"] ids by simp
  have root: "computeHashListRoot cr [] (Transactions b) = Inr (HashListRoot (Header b), blk_hasher b)"
    using m by (simp add: mining_inv_def)
  have cb: "IsCoinbase c" "\<forall>tx \<in> set txs. \<not> IsCoinbase tx" using c by (auto simp: coinbase_ok_def minable_def)
  have hd: "Height (Header b) = Height h + 1" "0 \<le> bh_Nonce (Header b)" "bh_Nonce (Header b) \<le> MAX_NUMBER"
    "0 \<le> bh_Time (Header b)" "bh_Time (Header b) \<le> MAX_NUMBER"
    using t med by (auto simp: template_def)
  have chk: "checkTransactions cr (Transactions b) [] = Inr (fold List.insert (map (tx_ID cr) (Transactions b)) [])"
    using ct by (simp add: checkTransactions_Inr)
  have tr: "Header (block.truncate b) = Header b" "Transactions (block.truncate b) = Transactions b"
    by (simp_all add: block.defs)
  have h0: "0 \<le> Height h + 1" "Height h + 1 \<le> MAX_NUMBER" using h by auto
  show ?thesis
    unfolding checkBlock_def Let_def tr CheckPOW_def hd(1)
    using hd h0 now i cp cnt mx l cb c(1) chk dl root
    by (simp del: MAX_NUMBER_def MAX_FUTURE_SECONDS_def checkTransactions.simps)
qed

lemma verifyTransactions_ok:
  "\<forall>tx \<in> set txs. minable height q cr tx \<Longrightarrow> verifyTransactions cr q height txs a = Inr (sumFees txs a)"
  by (induction txs arbitrary: a) (auto simp: minable_def)

lemma sumFees_sum: "sumFees txs (i64 a) = i64 (a + sum_list (map tx_Fee txs))"
proof (induction txs arbitrary: a)
  case (Cons tx txs)
  from Cons.IH [of "a + tx_Fee tx"] show ?case by (simp add: i64_add_i64 add.assoc)
qed simp

lemma template_checkAccept:
  assumes t: "template cr p tipID h median b" and h: "0 \<le> Height h" "Height h < MAX_NUMBER"
    and med: "computeMedianTimestamp h (p_blockStore p) = Inr median"
    and new: "GetBranchType (p_ledger p) i = Inr UNKNOWN"
  shows "checkAccept cr i (block.truncate b) (Some h) p = Inr (Some ())"
proof -
  obtain c txs where c: "Transactions b = c # txs" "coinbase_ok (Height h + 1) c" "\<forall>tx \<in> set txs. minable (Height h + 1) (p_txQueue p) cr tx"
    "tx_Amount c = i64 (BlockCreationReward (Height h + 1) + sum_list (map tx_Fee txs))"
    using t unfolding template_def by auto
  have hd: "Height (Header b) = Height h + 1" "computeTarget h (p_blockStore p) (p_ledger p) = Inr (Target (Header b))"
     "computeChainWork (Target (Header b)) (ChainWork h) = Inr (ChainWork (Header b))" "median < bh_Time (Header b)"
    using t by (auto simp: template_def)
  have tr: "Header (block.truncate b) = Header b" "Transactions (block.truncate b) = Transactions b"
    by (simp_all add: block.defs)
  have w: "i64 (Height h + 1) = Height h + 1" using h by (simp add: i64_small)
  have cs: "checkTransactionSeries c (Height h + 1)" "IsCoinbase c" "tx_Fee c = 0"
    using c(2) by (auto simp: coinbase_ok_def checkTransactionSeries_def IsCoinbase_def)
  have v: "verifyTransactions cr (p_txQueue p) (Height h + 1) (Transactions b) 0 = Inr (sumFees txs 0)"
    unfolding c(1) using cs verifyTransactions_ok [OF c(3), of 0] by (simp add: i64_small)
  have f: "sumFees txs 0 = i64 (sum_list (map tx_Fee txs))" using sumFees_sum [of txs 0] by (simp add: i64_small)
  have a: "tx_Amount c = i64 (BlockCreationReward (Height h + 1) + sumFees txs 0)"
    unfolding c(4) f using i64_add_i64 [of "sum_list (map tx_Fee txs)" "BlockCreationReward (Height h + 1)"] by (simp add: add.commute)
  show ?thesis
    unfolding checkAccept_def option.case tr hd(1) w using new hd(2-4) med v
    by (simp add: c(1) a [symmetric])
qed

section \<open>Building the template\<close>

lemma queued_signed:
  assumes "tq_inv cr q" "tx \<in> set (tq_txs q)"
  shows "tq_ExistsSigned (tx_ID cr tx) (tx_Signature tx) q"
proof -
  note p = tq_inv_parts [OF assms(1)]
  obtain e where e: "(e, tx) \<in> set (gl_elems (txQueue q))" using assms(2) by (auto simp: tq_txs_def elements_def)
  then have "txMap q (tx_ID cr tx) = Some e" using p(2) by (auto simp: indexes_def)
  moreover have "element_Value e (txQueue q) = Some tx"
    using e p(2) by (simp add: element_Value_def indexes_def)
  ultimately show ?thesis by (simp add: tq_ExistsSigned_def)
qed

definition queue_minable :: "crypto \<Rightarrow> int \<Rightarrow> tx_queue \<Rightarrow> bool" where
  "queue_minable cr height q \<longleftrightarrow> tq_inv cr q
     \<and> (\<forall>tx \<in> set (tq_txs q). checkTransaction tx = Inr () \<and> \<not> IsCoinbase tx \<and> stillValid height tx)"

lemma queue_minable_tx:
  assumes "queue_minable cr h q" "tx \<in> set (tq_txs q)" "0 \<le> h" "h < MAX_NUMBER"
  shows "minable (h + 1) q cr tx"
  using assms queued_signed [of cr q tx] by (simp add: queue_minable_def minable_def stillValid_def i64_small)

definition chance_ok :: "chance \<Rightarrow> bool" where
  "chance_ok ch \<longleftrightarrow> c_txTime ch \<in> {0..MAX_NUMBER} \<and> c_blockTime ch \<in> {0..MAX_NUMBER} \<and> 0 \<le> c_txNonce ch
     \<and> c_blockNonce ch \<in> {0..<MAX_NUMBER}"

lemma createNextBlock_parts:
  assumes b: "createNextBlock cr ch tipID (Some h) q bs l pk memo = Inr b" and h: "0 \<le> Height h" "Height h < MAX_NUMBER"
    and q: "queue_minable cr (Height h) q" and pk: "length pk = 32" "utf8_valid memo" "length memo \<le> MAX_MEMO_LENGTH"
    and ch: "chance_ok ch"
  shows "Previous (Header b) = tipID" "Height (Header b) = Height h + 1" "computeTarget h bs l = Inr (Target (Header b))"
    "computeChainWork (Target (Header b)) (ChainWork h) = Inr (ChainWork (Header b))"
    "bh_Time (Header b) = c_blockTime ch" "bh_Nonce (Header b) = c_blockNonce ch" "mining_inv cr b"
    "length (Transactions b) \<le> 10000"
    "\<exists>c. Transactions b = c # take 9999 (tq_txs q) \<and> coinbase_ok (Height h + 1) c
      \<and> tx_Amount c = i64 (BlockCreationReward (Height h + 1) + sum_list (map tx_Fee (take 9999 (tq_txs q))))"
proof -
  have w: "i64 (Height h + 1) = Height h + 1" using h by (simp add: i64_small)
  have g: "tq_Get 9999 q = Inr (take 9999 (tq_txs q))"
    by (auto simp: tq_Get_def tq_txs_def elements_def list_Len_def)
  let ?txs = "take 9999 (tq_txs q)"
  let ?c = "NewTransaction (c_txTime ch) (c_txNonce ch) None (Some pk) (i64 (BlockCreationReward (Height h + 1) + sumFees ?txs 0)) 0 0 0 (Height h + 1) memo"
  obtain t where t: "computeTarget h bs l = Inr t"
    and nb: "NewBlock cr (c_blockTime ch) (c_blockNonce ch) tipID (Height h + 1) t (ChainWork h) (?c # ?txs) = Inr b"
    using b unfolding createNextBlock_def by (simp add: g w Let_def) (auto simp: result_simps)
  have "sumFees ?txs 0 = i64 (sum_list (map tx_Fee ?txs))" using sumFees_sum [of ?txs 0] by (simp add: i64_small)
  then have "i64 (BlockCreationReward (Height h + 1) + sumFees ?txs 0) = i64 (BlockCreationReward (Height h + 1) + sum_list (map tx_Fee ?txs))"
    using i64_add_i64 [of "sum_list (map tx_Fee ?txs)" "BlockCreationReward (Height h + 1)"] by (simp add: add.commute)
  then have "coinbase_ok (Height h + 1) ?c \<and> tx_Amount ?c = i64 (BlockCreationReward (Height h + 1) + sum_list (map tx_Fee ?txs))"
    using pk ch by (auto simp: coinbase_ok_def NewTransaction_def IsCoinbase_def computeTransactionSeries_def chance_ok_def)
  then show "\<exists>c. Transactions b = c # ?txs \<and> coinbase_ok (Height h + 1) c
      \<and> tx_Amount c = i64 (BlockCreationReward (Height h + 1) + sum_list (map tx_Fee ?txs))"
    using nb by (auto simp: NewBlock_def result_simps split: if_splits)
  show "mining_inv cr b" by (rule NewBlock_mining_inv [OF nb])
  show "Previous (Header b) = tipID" "Height (Header b) = Height h + 1" "computeTarget h bs l = Inr (Target (Header b))"
    "computeChainWork (Target (Header b)) (ChainWork h) = Inr (ChainWork (Header b))"
    "bh_Time (Header b) = c_blockTime ch" "bh_Nonce (Header b) = c_blockNonce ch" "length (Transactions b) \<le> 10000"
    using nb t by (auto simp: NewBlock_def result_simps split: if_splits)
qed

text \<open>A miner that works on a template, with a hasher that has seen only headers of it.\<close>

definition on_template :: "crypto \<Rightarrow> processor \<Rightarrow> block_id \<Rightarrow> block_header \<Rightarrow> int \<Rightarrow> miner \<Rightarrow> bool" where
  "on_template cr p tipID h median m \<longleftrightarrow> m_medianTimestamp m = median \<and> (\<exists>b hs. m_block m = Some (b, hs)
     \<and> template cr p tipID h median b \<and> m_targetInt m = GetBigInt (Target (Header b))
     \<and> attempted cr (Header b) hs \<and> (\<forall>x. hs = Some x \<longrightarrow> hashesPerAttempt x = 1))"

lemma beginBlock_on_template:
  assumes b: "beginBlock cr ch tipID (Some h) p m = Inr m'" and h: "0 \<le> Height h" "Height h < MAX_NUMBER"
    and med: "computeMedianTimestamp h (p_blockStore p) = Inr median" "median < MAX_NUMBER" "0 \<le> median"
    and q: "queue_minable cr (Height h) (p_txQueue p)"
    and pk: "\<forall>pk \<in> set (m_pubKeys m). length pk = 32" "utf8_valid (m_memo m)" "length (m_memo m) \<le> MAX_MEMO_LENGTH"
    and ch: "chance_ok ch"
  shows "on_template cr p tipID h median m'"
proof -
  obtain b0 where k: "m_keyIndex m < length (m_pubKeys m)"
    and b0: "createNextBlock cr ch tipID (Some h) (p_txQueue p) (p_blockStore p) (p_ledger p) (m_pubKeys m ! m_keyIndex m) (m_memo m) = Inr b0"
    and m': "m' = m\<lparr>m_block := Some (if bh_Time (Header b0) \<le> median then b0\<lparr>Header := (Header b0)\<lparr>bh_Time := i64 (median + 1)\<rparr>\<rparr> else b0, None),
      m_medianTimestamp := median, m_targetInt := GetBigInt (Target (Header b0))\<rparr>"
    using b med(1) by (auto simp: beginBlock_def orPanic_def Let_def result_simps split: if_splits sum.splits)
  have pk': "length (m_pubKeys m ! m_keyIndex m) = 32" using pk(1) k by simp
  note c = createNextBlock_parts [OF b0 h q pk' pk(2,3) ch]
  obtain co where co: "Transactions b0 = co # take 9999 (tq_txs (p_txQueue p))" "coinbase_ok (Height h + 1) co"
    "tx_Amount co = i64 (BlockCreationReward (Height h + 1) + sum_list (map tx_Fee (take 9999 (tq_txs (p_txQueue p)))))"
    using c(9) by blast
  let ?t = "if bh_Time (Header b0) \<le> median then median + 1 else bh_Time (Header b0)"
  let ?b = "b0\<lparr>Header := (Header b0)\<lparr>bh_Time := ?t\<rparr>\<rparr>"
  have w: "i64 (median + 1) = median + 1" using med by (simp add: i64_small)
  have e: "(if bh_Time (Header b0) \<le> median then b0\<lparr>Header := (Header b0)\<lparr>bh_Time := i64 (median + 1)\<rparr>\<rparr> else b0) = ?b"
    by (simp add: w)
  have mi: "\<forall>tx \<in> set (take 9999 (tq_txs (p_txQueue p))). minable (Height h + 1) (p_txQueue p) cr tx"
    using queue_minable_tx [OF q _ h] by (auto dest: in_set_takeD)
  have "template cr p tipID h median ?b"
    unfolding template_def using c(1-8) co mi ch med(2,3) by (auto simp: chance_ok_def mining_inv_def)
  then show ?thesis unfolding m' e by (auto simp: on_template_def intro: attempted.first)
qed

section \<open>Working on it\<close>

lemma attempted_same:
  assumes "attempted cr g hs" "sameTemplate g g'"
  shows "attempted cr g' hs"
  using assms(1)
proof induction
  case first
  show ?case by (rule attempted.first)
next
  case (again hasher header dev r n header' h)
  have "sameTemplate header g'" using again.hyps(2) assms(2) by (simp add: sameTemplate_def)
  from attempted.again [OF again.IH this again.hyps(3-5)] show ?case .
qed

lemma template_attempt:
  assumes t: "template cr p tipID h median b" and m: "0 \<le> median" "0 \<le> Height h" "Height h < MAX_NUMBER"
    and hs: "attempted cr (Header b) hs" "\<forall>x. hs = Some x \<longrightarrow> hashesPerAttempt x = 1"
  shows "\<exists>h'. IDFast cr None (Header b) hs = Inr (GetBigInt (header_ID cr (Header b)), 1, Header b, h') \<and> hashesPerAttempt h' = 1
    \<and> attempted cr (Header b) (Some h')"
proof -
  have cnt: "TransactionCount (Header b) = i32 (int (length (Transactions b)))" "length (Transactions b) \<le> 10000"
    using t by (auto simp: template_def mining_inv_def)
  then have "TransactionCount (Header b) = int (length (Transactions b))" by (simp add: i32_id int32_def)
  then have r: "inRange (Header b)" using t m cnt(2) by (auto simp: inRange_def template_def)
  have s: "sameTemplate (Header b) (Header b)" by (simp add: sameTemplate_def)
  have d: "deviceRange None" by (simp add: deviceRange_def)
  let ?x = "case hs of None \<Rightarrow> NewBlockHeaderHasher | Some h \<Rightarrow> h"
  have "hashesPerAttempt ?x = 1" using hs(2) by (auto simp: NewBlockHeaderHasher_def split: option.splits)
  with Update_correct [OF attempted_ready [OF hs(1)] s r d, of cr] obtain n h' where
    u: "IDFast cr None (Header b) hs = Inr (GetBigInt (header_ID cr (Header b)), n, Header b, h')"
    and "n = 1" "hashesPerAttempt h' = 1"
    by (auto simp: IDFast_def)
  with u attempted.again [OF hs(1) s r d u] show ?thesis by auto
qed

lemma on_template_tick:
  assumes "on_template cr p tipID h median m" "now \<le> MAX_NUMBER"
  shows "on_template cr p tipID h median (onTick now m)"
proof -
  obtain b hs where b: "m_medianTimestamp m = median" "m_block m = Some (b, hs)" "template cr p tipID h median b"
    "m_targetInt m = GetBigInt (Target (Header b))" "attempted cr (Header b) hs" "\<forall>x. hs = Some x \<longrightarrow> hashesPerAttempt x = 1"
    using assms(1) unfolding on_template_def by blast
  let ?b = "b\<lparr>Header := (Header b)\<lparr>bh_Time := now\<rparr>\<rparr>"
  have "template cr p tipID h median ?b" if "median < now"
    using b(3) that assms(2) by (auto simp: template_def mining_inv_def)
  moreover have "attempted cr (Header ?b) hs"
    by (rule attempted_same [OF b(5)]) (simp add: sameTemplate_def)
  ultimately show ?thesis using b by (auto simp: on_template_def onTick_def Let_def)
qed

lemma on_template_notice:
  assumes "on_template cr p tipID h median m" and tx: "minable (Height h + 1) (p_txQueue p) cr (nt_Transaction newTx)"
    and i: "nt_TransactionID newTx = tx_ID cr (nt_Transaction newTx)" and n: "onNewTx cr newTx m = Inr m'"
  shows "on_template cr p tipID h median m'"
proof -
  obtain b hs where b: "m_medianTimestamp m = median" "m_block m = Some (b, hs)" "template cr p tipID h median b"
    "m_targetInt m = GetBigInt (Target (Header b))" "attempted cr (Header b) hs" "\<forall>x. hs = Some x \<longrightarrow> hashesPerAttempt x = 1"
    using assms(1) unfolding on_template_def by blast
  show ?thesis
  proof (cases "length (Transactions b) \<ge> 10000")
    case True
    with n b assms(1) show ?thesis by (simp add: onNewTx_def)
  next
    case False
    have mi: "mining_inv cr b" using b(3) by (simp add: template_def)
    from AddTransaction_ok [OF mi] obtain b' where a: "AddTransaction cr (tx_ID cr (nt_Transaction newTx)) (nt_Transaction newTx) b = Inr b'"
      by blast
    then have m': "m' = m\<lparr>m_block := Some (b', hs)\<rparr>" using n b(2) False i by (simp add: onNewTx_def)
    obtain c txs where c: "Transactions b = c # txs" "coinbase_ok (Height h + 1) c"
      "\<forall>tx \<in> set txs. minable (Height h + 1) (p_txQueue p) cr tx"
      "tx_Amount c = i64 (BlockCreationReward (Height h + 1) + sum_list (map tx_Fee txs))"
      using b(3) unfolding template_def by auto
    let ?tx = "nt_Transaction newTx" and ?c = "c\<lparr>tx_Amount := i64 (tx_Amount c + tx_Fee (nt_Transaction newTx))\<rparr>"
    have t': "Transactions b' = ?c # txs @ [?tx]" using a c(1) by (auto simp: AddTransaction_def Let_def)
    have "coinbase_ok (Height h + 1) ?c" using c(2) by (simp add: coinbase_ok_def IsCoinbase_def)
    moreover have "tx_Amount ?c = i64 (BlockCreationReward (Height h + 1) + sum_list (map tx_Fee (txs @ [?tx])))"
      by (simp add: c(4) i64_add_i64 add.assoc)
    moreover have hd: "Previous (Header b') = Previous (Header b)" "Height (Header b') = Height (Header b)" "Target (Header b') = Target (Header b)"
      "ChainWork (Header b') = ChainWork (Header b)" "bh_Nonce (Header b') = bh_Nonce (Header b)" "bh_Time (Header b') = bh_Time (Header b)"
      using a c(1) by (auto simp: AddTransaction_def Let_def)
    moreover note AddTransaction_mining_inv [OF mi a]
    ultimately have "template cr p tipID h median b'"
      using b(3) c(3) tx False t' c(1) unfolding template_def by auto
    moreover have "attempted cr (Header b') hs"
      by (rule attempted_same [OF b(5)]) (simp add: sameTemplate_def hd)
    ultimately show ?thesis using b m' hd by (auto simp: on_template_def)
  qed
qed

lemma on_template_attempt:
  assumes o: "on_template cr p tipID h median m" and m: "0 \<le> median" "0 \<le> Height h" "Height h < MAX_NUMBER"
    and a: "attempt cr None random m = Inr m'"
  shows "(m_block m' \<noteq> None \<and> m_submitted m' = m_submitted m \<and> on_template cr p tipID h median m')
    \<or> (\<exists>b. m_block m' = None \<and> m_submitted m' = m_submitted m @ [(block_ID cr b, block.truncate b)]
        \<and> template cr p tipID h median b \<and> GetBigInt (block_ID cr b) \<le> GetBigInt (Target (Header b)))"
proof -
  obtain b hs where b: "m_medianTimestamp m = median" "m_block m = Some (b, hs)" "template cr p tipID h median b"
    "m_targetInt m = GetBigInt (Target (Header b))" "attempted cr (Header b) hs" "\<forall>x. hs = Some x \<longrightarrow> hashesPerAttempt x = 1"
    using o unfolding on_template_def by blast
  obtain h' where h': "IDFast cr None (Header b) hs = Inr (GetBigInt (header_ID cr (Header b)), 1, Header b, h')"
    "hashesPerAttempt h' = 1" "attempted cr (Header b) (Some h')"
    using template_attempt [OF b(3) m b(5,6)] by blast
  let ?id = "header_ID cr (Header b)"
  have same: "b\<lparr>Header := Header b\<rparr> = b" by simp
  have sb: "SetBigInt (GetBigInt ?id) = Inr ?id"
    using GetBigInt_bounds [of ?id] by (auto simp: SetBigInt_def GetBigInt_def)
  show ?thesis
  proof (cases "GetBigInt ?id \<le> m_targetInt m")
    case True
    then have "m_block m' = None \<and> m_submitted m' = m_submitted m @ [(?id, block.truncate b)]"
      using a b(2) h'(1) sb by (auto simp: attempt_def Let_def same)
    with True b(3,4) show ?thesis by (auto simp: block_ID_def)
  next
    case False
    let ?n = "i64 (bh_Nonce (Header b) + 1)" and ?v = "if i64 (bh_Nonce (Header b) + 1) > MAX_NUMBER then 0 else i64 (bh_Nonce (Header b) + 1)"
    let ?b = "b\<lparr>Header := (Header b)\<lparr>bh_Nonce := ?v\<rparr>\<rparr>"
    have nr: "0 \<le> bh_Nonce (Header b)" "bh_Nonce (Header b) \<le> MAX_NUMBER" using b(3) by (auto simp: template_def)
    then have "?n = bh_Nonce (Header b) + 1" by (simp add: i64_small)
    with nr have v: "0 \<le> ?v" "?v \<le> MAX_NUMBER" by auto
    have m': "m' = m\<lparr>m_hashes := i64 (m_hashes m + 1), m_block := Some (?b, Some h')\<rparr>"
      using a b(2) h'(1) False by (auto simp: attempt_def Let_def)
    have "template cr p tipID h median ?b" using b(3) v by (simp add: template_def mining_inv_def)
    moreover have "attempted cr (Header ?b) (Some h')"
      by (rule attempted_same [OF h'(3)]) (simp add: sameTemplate_def)
    ultimately show ?thesis using b h' by (auto simp: m' on_template_def)
  qed
qed

section \<open>Properties\<close>

text \<open>
  A miner on one tip of one state of the processor: it begins a block, and then its clock ticks, transactions of the
  queue are announced to it, and attempts fail.
\<close>

inductive mining :: "crypto \<Rightarrow> processor \<Rightarrow> block_id \<Rightarrow> block_header \<Rightarrow> miner \<Rightarrow> bool" for cr p tipID h where
  begin_block: "beginBlock cr ch tipID (Some h) p m = Inr m' \<Longrightarrow> chance_ok ch \<Longrightarrow> \<forall>pk \<in> set (m_pubKeys m). length pk = 32 \<Longrightarrow>
    utf8_valid (m_memo m) \<Longrightarrow> length (m_memo m) \<le> MAX_MEMO_LENGTH \<Longrightarrow> mining cr p tipID h m'"
| tick: "mining cr p tipID h m \<Longrightarrow> now \<le> MAX_NUMBER \<Longrightarrow> mining cr p tipID h (onTick now m)"
| notice: "mining cr p tipID h m \<Longrightarrow> nt_Transaction newTx \<in> set (tq_txs (p_txQueue p)) \<Longrightarrow>
    nt_TransactionID newTx = tx_ID cr (nt_Transaction newTx) \<Longrightarrow> onNewTx cr newTx m = Inr m' \<Longrightarrow> mining cr p tipID h m'"
| failed: "mining cr p tipID h m \<Longrightarrow> attempt cr None random m = Inr m' \<Longrightarrow> m_block m' \<noteq> None \<Longrightarrow> mining cr p tipID h m'"

lemma mining_on_template:
  assumes m: "mining cr p tipID h m" and h: "0 \<le> Height h" "Height h < MAX_NUMBER"
    and med: "computeMedianTimestamp h (p_blockStore p) = Inr median" "median < MAX_NUMBER" "0 \<le> median"
    and q: "queue_minable cr (Height h) (p_txQueue p)"
  shows "on_template cr p tipID h median m"
  using m
proof induction
  case (begin_block ch m m')
  from beginBlock_on_template [OF begin_block(1) h med q begin_block(3-5,2)] show ?case .
next
  case (tick m now)
  from on_template_tick [OF tick.IH tick.hyps(2)] show ?case .
next
  case (notice m newTx m')
  from on_template_notice [OF notice.IH queue_minable_tx [OF q notice.hyps(2) h] notice.hyps(3,4)] show ?case .
next
  case (failed m random m')
  from on_template_attempt [OF failed.IH med(3) h failed.hyps(2)] failed.hyps(3) show ?case by auto
qed

lemma mined_accepted:
  assumes p: "pinv cr gid prune T p" and t: "template cr p (block_ID cr (last T)) (Header (last T)) median b"
    and q: "computeMedianTimestamp (Header (last T)) (p_blockStore p) = Inr median" "0 \<le> median" "Height (Header (last T)) < MAX_NUMBER"
    and i: "block_ID cr b \<notin> known (p_ledger p)" "block_ID cr b \<noteq> 0" "GetBigInt (block_ID cr b) \<le> GetBigInt (Target (Header b))"
    and cb: "checkBlock cr (block_ID cr b) (block.truncate b) now = Inr ()"
    and v: "chain_valid cr prune (T @ [block.truncate b])"
  shows "\<exists>p'. processBlock cr (block_ID cr b) (block.truncate b) now source p = Some (Inr (), p')
    \<and> pinv cr gid prune (T @ [block.truncate b]) p'"
proof -
  let ?b = "block.truncate b" and ?i = "block_ID cr b"
  have c: "pcore cr gid prune T p" using p by (simp add: pinv_def)
  note d = pcore_parts [OF c] and bt = branch_type_known [OF c]
  have tr: "Header ?b = Header b" by (simp add: block.defs)
  have id: "?i = block_ID cr ?b" by (simp add: block_ID_def tr)
  have prev: "Previous (Header ?b) = block_ID cr (last T)" using t by (simp add: template_def tr)
  have h0: "0 \<le> Height (Header (last T))" using branch_top [OF d(6)] d(5) by (cases T) auto
  have un: "GetBranchType (p_ledger p) ?i = Inr UNKNOWN" using bt(1) i(1) by simp
  have ca: "checkAccept cr ?i ?b (Some (Header (last T))) p = Inr (Some ())"
    by (rule template_checkAccept [OF t h0 q(3,1) un])
  obtain r p' w where a: "acceptBlock cr ?i ?b now source p = Some (r, p')"
    "GetBigInt (ChainWork (Header (last T))) < GetBigInt (ChainWork (Header ?b))"
    "if Compare cr (Header ?b) (Header (last T)) now w
          then if chain_valid cr prune (T @ [?b])
               then r = Inr () \<and> pinv cr gid prune (T @ [?b]) p' \<and> known (p_ledger p') = insert ?i (known (p_ledger p))
               else (\<exists>e. r = Inl e \<and> (\<forall>m. e \<noteq> Panic m)) \<and> pinv cr gid prune T p' \<and> known (p_ledger p') = known (p_ledger p)
          else r = Inr () \<and> pinv cr gid prune T p' \<and> known (p_ledger p') = insert ?i (known (p_ledger p))"
    using acceptBlock_accepted [OF p id i(1,2) d(6) [folded prev] d(10) cb ca, of source] by blast
  have "Compare cr (Header ?b) (Header (last T)) now w" using a(2) by (simp add: Compare_def)
  with a(3) v have "r = Inr ()" "pinv cr gid prune (T @ [?b]) p'" by simp_all
  moreover have "GetBranchType (p_ledger p) (Previous (Header ?b)) = Inr MAIN \<or> GetBranchType (p_ledger p) (Previous (Header ?b)) = Inr SIDE"
    using bt(2) [OF pcore_tip_known [OF c]] prev by simp
  then have "processBlock cr ?i ?b now source p = acceptBlock cr ?i ?b now source p"
    using un cb by (auto simp: processBlock_def)
  ultimately show ?thesis using a(1) by simp
qed

text \<open>
  C15 (safety). What the miner submits is what the processor accepts. A block the miner has begun on the tip from the
  transactions of the queue, whose time and nonce have changed since and to which announced transactions have been
  added, carries its own identifier when an attempt succeeds, passes \<^verbatim>\<open>checkBlock\<close>, and becomes the new tip if the
  ledger can connect it. Relied on are that the block's time is not too far ahead, a checkpoint at its height is met,
  its coinbase pays something and not more than all money, and no transaction is in it twice.
\<close>

theorem mined_block_accepted:
  assumes p: "pinv cr gid prune T p" and m: "mining cr p (block_ID cr (last T)) (Header (last T)) m"
    and h: "Height (Header (last T)) < MAX_NUMBER"
    and med: "computeMedianTimestamp (Header (last T)) (p_blockStore p) = Inr median" "median < MAX_NUMBER" "0 \<le> median"
    and q: "queue_minable cr (Height (Header (last T))) (p_txQueue p)"
    and a: "attempt cr None random m = Inr m'" "m_submitted m' = m_submitted m @ [(i, b)]"
    and i: "i \<notin> known (p_ledger p)" "i \<noteq> 0" "CheckpointCheck i (Height (Header b)) = Inr ()"
    and b: "bh_Time (Header b) \<le> i64 (now + MAX_FUTURE_SECONDS)" "0 < tx_Amount (hd (Transactions b))"
      "tx_Amount (hd (Transactions b)) \<le> MAX_MONEY" "distinct (map (tx_ID cr) (Transactions b))"
  shows "i = block_ID cr b \<and> checkBlock cr i b now = Inr ()
    \<and> (chain_valid cr prune (T @ [b]) \<longrightarrow> (\<exists>p'. processBlock cr i b now source p = Some (Inr (), p') \<and> pinv cr gid prune (T @ [b]) p'))"
proof -
  have c: "pcore cr gid prune T p" using p by (simp add: pinv_def)
  have h0: "0 \<le> Height (Header (last T))"
    using branch_top [OF pcore_parts(6) [OF c]] pcore_parts(5) [OF c] by (cases T) auto
  obtain b' where b': "(i, b) = (block_ID cr b', block.truncate b')" "template cr p (block_ID cr (last T)) (Header (last T)) median b'"
    "GetBigInt (block_ID cr b') \<le> GetBigInt (Target (Header b'))"
    using on_template_attempt [OF mining_on_template [OF m h0 h med q] med(3) h0 h a(1)] a(2) by auto
  then have e: "i = block_ID cr b'" "b = block.truncate b'" by auto
  have tr: "Header b = Header b'" "Transactions b = Transactions b'" by (simp_all add: e block.defs)
  have ht: "Height (Header b) = Height (Header (last T)) + 1" using b'(2) by (simp add: tr template_def)
  have cb: "checkBlock cr i b now = Inr ()"
    unfolding e(2) by (rule template_checkBlock [OF b'(2) h0 h med(3)]) (use b'(3) i b ht in \<open>simp_all add: e(1) tr\<close>)
  have "i = block_ID cr b" by (simp add: e(1) block_ID_def tr)
  with cb mined_accepted [OF p b'(2) med(1,3) h, of now source] i(1,2) b'(3) show ?thesis by (simp add: e)
qed

definition sample_chance :: chance where
  "sample_chance = \<lparr>c_txTime = 7, c_txNonce = 1, c_blockTime = 1, c_blockNonce = 10\<rparr>"

definition sample_miner :: miner where
  "sample_miner = \<lparr>m_pubKeys = [replicate 32 1], m_memo = [], m_keyIndex = 0, m_block = None,
     m_medianTimestamp = 0, m_targetInt = 0, m_hashes = 0, m_stopped = False, m_hashUpdates = [], m_submitted = []\<rparr>"

lemma sample_median:
  assumes "p_blockStore p = snd (bs_Store 371 sample_first 0 (p_blockStore sample_node))"
  shows "computeMedianTimestamp (Header sample_first) (p_blockStore p) = Inr 0"
proof -
  have "getHeader (p_blockStore p) (Previous (Header sample_first)) = Inr None"
    unfolding assms by (simp add: sample_first_def sample_genesis_def sample_block_def sample_node_def NewProcessor_def
      sample_store_def bs_Store_def Let_def getHeader_def bs_GetBlockHeader_def)
  moreover have "bh_Time (Header sample_first) = 0" by (simp add: sample_first_def sample_genesis_def sample_block_def)
  ultimately have "collectTimestamps (Suc 10) (p_blockStore p) (Header sample_first) [] = Inr [0]"
    by (simp only: collectTimestamps.simps bindE_simps option.case append_Nil)
  then show ?thesis by (simp add: computeMedianTimestamp_def)
qed

lemma sample_begin:
  assumes p: "p_blockStore p = snd (bs_Store 371 sample_first 0 (p_blockStore sample_node))" "tq_txs (p_txQueue p) = []"
    "tq_inv sample_crypto (p_txQueue p)"
  obtains b m where "beginBlock sample_crypto sample_chance 371 (Some (Header sample_first)) p sample_miner = Inr m"
    "m_block m = Some (b, None)" "m_targetInt m = 1000" "m_submitted m = []"
    "bh_Time (Header b) = 1" "block_ID sample_crypto b = 372" "Height (Header b) = 1" "tx_Amount (hd (Transactions b)) = 5000000000"
    "length (Transactions b) = 1"
proof -
  let ?h = "Header sample_first"
  have h: "Height ?h = 0" "Target ?h = 1000" "ChainWork ?h = 1"
    by (simp_all add: sample_first_def sample_genesis_def sample_block_def)
  have q: "queue_minable sample_crypto (Height ?h) (p_txQueue p)" using p(2,3) by (simp add: queue_minable_def)
  have g: "tq_Get 9999 (p_txQueue p) = Inr []"
    using p(2) by (auto simp: tq_Get_def tq_txs_def elements_def list_Len_def)
  have t: "computeTarget ?h (p_blockStore p) (p_ledger p) = Inr 1000"
    by (simp add: computeTarget_def computeTargetBitcoin_def h i64_small signed_modulo_int_def signed_divide_int_def)
  have w: "\<exists>w. computeChainWork 1000 1 = Inr w"
    by (simp add: computeChainWork_def computeBlockWork_def SetBigInt_def GetBigInt_def)
  obtain b where b: "createNextBlock sample_crypto sample_chance 371 (Some ?h) (p_txQueue p) (p_blockStore p) (p_ledger p) (replicate 32 1) [] = Inr b"
    using w by (auto simp: createNextBlock_def g t h Let_def NewBlock_def computeHashListRoot_def)
  have c: "chance_ok sample_chance" by (simp add: chance_ok_def sample_chance_def)
  note parts = createNextBlock_parts [OF b _ _ q _ _ _ c]
  have P: "Height (Header b) = 1" "bh_Time (Header b) = 1" "bh_Nonce (Header b) = 10" "mining_inv sample_crypto b"
    "Target (Header b) = 1000"
    using parts(2,3,5,6,7) t by (simp_all add: h sample_chance_def utf8_valid.simps)
  have "BlockCreationReward 1 = 5000000000" using reward_nat [of 1] by simp
  then obtain co where co: "Transactions b = [co]" "tx_Amount co = 5000000000"
    using parts(9) p(2) by (auto simp: h utf8_valid.simps i64_small)
  then have "TransactionCount (Header b) = 1" using P(4) by (simp add: mining_inv_def i32_id int32_def)
  then have i: "block_ID sample_crypto b = 372"
    using P by (simp add: block_ID_def header_ID_def sample_crypto_def hdr_json itoa_small)
  have bb: "beginBlock sample_crypto sample_chance 371 (Some ?h) p sample_miner
      = Inr (sample_miner\<lparr>m_block := Some (b, None), m_medianTimestamp := 0, m_targetInt := 1000\<rparr>)"
    using b sample_median [OF p(1)] P(2,5) by (simp add: beginBlock_def orPanic_def sample_miner_def GetBigInt_def)
  show ?thesis
    by (rule that [OF bb, of b]) (simp_all add: sample_miner_def P i co)
qed

theorem mined_block_accepted_witness:
  "\<exists>p m m' b. pinv sample_crypto 371 True [sample_first] p \<and> mining sample_crypto p 371 (Header sample_first) m
    \<and> attempt sample_crypto None 0 m = Inr m' \<and> m_submitted m' = [(372, b)] \<and> checkBlock sample_crypto 372 b 0 = Inr ()"
proof -
  obtain p where p: "pinv sample_crypto 371 True [sample_first] p" "known (p_ledger p) = {371}"
    "p_blockStore p = snd (bs_Store 371 sample_first 0 (p_blockStore sample_node))" "tq_txs (p_txQueue p) = []"
    using sample_turn by metis
  have inv: "tq_inv sample_crypto (p_txQueue p)" using p(1) by (simp add: pinv_def settled_def)
  obtain b m where b: "beginBlock sample_crypto sample_chance 371 (Some (Header sample_first)) p sample_miner = Inr m"
    "m_block m = Some (b, None)" "m_targetInt m = 1000" "m_submitted m = []"
    "bh_Time (Header b) = 1" "block_ID sample_crypto b = 372" "Height (Header b) = 1" "tx_Amount (hd (Transactions b)) = 5000000000"
    "length (Transactions b) = 1"
    by (rule sample_begin [OF p(3,4) inv])
  have h: "Height (Header sample_first) = 0" by (simp add: sample_first_def sample_genesis_def sample_block_def)
  have q: "queue_minable sample_crypto (Height (Header sample_first)) (p_txQueue p)" using p(4) inv by (simp add: queue_minable_def)
  have mi: "mining sample_crypto p 371 (Header sample_first) m"
    by (rule mining.begin_block [OF b(1)]) (simp_all add: chance_ok_def sample_chance_def sample_miner_def utf8_valid.simps)
  note ot = mining_on_template [OF mi _ _ sample_median [OF p(3)] _ _ q]
  have "template sample_crypto p 371 (Header sample_first) 0 b" "attempted sample_crypto (Header b) None"
    using ot b(2) h by (auto simp: on_template_def)
  then obtain h' where f: "IDFast sample_crypto None (Header b) None = Inr (GetBigInt (header_ID sample_crypto (Header b)), 1, Header b, h')"
    using template_attempt [of sample_crypto p 371 "Header sample_first" 0 b None] h by auto
  have i: "header_ID sample_crypto (Header b) = 372" using b(6) by (simp add: block_ID_def)
  have "\<exists>m'. attempt sample_crypto None 0 m = Inr m' \<and> m_submitted m' = [(372, block.truncate b)]"
    using b(2-4) f unfolding i by (simp add: attempt_def Let_def SetBigInt_def GetBigInt_def)
  then obtain m' where m': "attempt sample_crypto None 0 m = Inr m'" "m_submitted m' = [(372, block.truncate b)]" by blast
  have tr: "Header (block.truncate b) = Header b" "Transactions (block.truncate b) = Transactions b" by (simp_all add: block.defs)
  have cp: "CheckpointCheck 372 1 = Inr ()" by (simp add: CheckpointCheck_def Checkpoints_def)
  obtain y where y: "Transactions b = [y]" using b(9) by (auto simp: length_Suc_conv)
  have "checkBlock sample_crypto 372 (block.truncate b) 0 = Inr ()"
    using mined_block_accepted [of sample_crypto 371 True "[sample_first]" p m 0 0 m' 372 "block.truncate b" 0] p(1,2) mi q h
      sample_median [OF p(3)] m' b(4-8) sample_first_id(1) cp y
    by (simp add: tr i64_small)
  with p(1) mi m' show ?thesis by blast
qed

section \<open>A notice that comes late\<close>

lemma createNextBlock_txs:
  assumes "createNextBlock cr ch tipID (Some h) q bs l pk memo = Inr b"
  shows "\<exists>c. Transactions b = c # take 9999 (tq_txs q)" "mining_inv cr b"
proof -
  have g: "tq_Get 9999 q = Inr (take 9999 (tq_txs q))"
    by (auto simp: tq_Get_def tq_txs_def elements_def list_Len_def)
  show "\<exists>c. Transactions b = c # take 9999 (tq_txs q)"
    using assms by (auto simp: createNextBlock_def g Let_def result_simps NewBlock_def split: if_splits)
  show "mining_inv cr b"
    using assms by (auto simp: createNextBlock_def Let_def result_simps intro: NewBlock_mining_inv)
qed

text \<open>
  C33 (error). The processor puts a transaction into the queue before it announces it. A miner that begins a block in
  between takes the transaction from the queue, and adds it a second time when the announcement arrives: the block then
  has it twice, and whatever header is found for it, \<^verbatim>\<open>checkBlock\<close> refuses it. All the work on it is lost.
\<close>

theorem late_notice_spoils_block:
  assumes b: "beginBlock cr ch tipID (Some h) p m = Inr m1"
    and tx: "nt_Transaction newTx \<in> set (tq_txs (p_txQueue p))" "length (tq_txs (p_txQueue p)) < 9999"
    and i: "nt_TransactionID newTx = tx_ID cr (nt_Transaction newTx)"
  shows "\<exists>m2 b hs. onNewTx cr newTx m1 = Inr m2 \<and> m_block m2 = Some (b, hs)
    \<and> (\<forall>header j now. checkBlock cr j ((block.truncate b)\<lparr>Header := header\<rparr>) now \<noteq> Inr ())"
proof -
  let ?tx = "nt_Transaction newTx" and ?txs = "tq_txs (p_txQueue p)"
  obtain b0 b1 median where b0: "createNextBlock cr ch tipID (Some h) (p_txQueue p) (p_blockStore p) (p_ledger p) (m_pubKeys m ! m_keyIndex m) (m_memo m) = Inr b0"
    and m1: "m_block m1 = Some (b1, None)" and b1: "Transactions b1 = Transactions b0" "mining_inv cr b0 \<longrightarrow> mining_inv cr b1"
    using b by (auto simp: beginBlock_def orPanic_def Let_def result_simps mining_inv_def split: if_splits sum.splits)
  obtain c where c: "Transactions b1 = c # ?txs" using createNextBlock_txs(1) [OF b0] tx(2) b1(1) by auto
  have mi: "mining_inv cr b1" using b1(2) createNextBlock_txs(2) [OF b0] by simp
  from AddTransaction_ok [OF mi] obtain b2 where a: "AddTransaction cr (tx_ID cr ?tx) ?tx b1 = Inr b2" by blast
  then have t2: "tl (Transactions b2) = ?txs @ [?tx]" using AddTransaction_txs(1) [OF a] c by simp
  have "\<not> distinct (map (tx_ID cr) (Transactions b2))"
    using t2 tx(1) by (cases "Transactions b2") auto
  moreover have "distinct (map (tx_ID cr) (Transactions b2))"
    if "checkBlock cr j ((block.truncate b2)\<lparr>Header := header\<rparr>) now = Inr ()" for header j now
    using checkBlock_shape [OF that] by (simp add: block_shape_def block.defs)
  ultimately have "\<forall>header j now. checkBlock cr j ((block.truncate b2)\<lparr>Header := header\<rparr>) now \<noteq> Inr ()" by blast
  moreover have "onNewTx cr newTx m1 = Inr (m1\<lparr>m_block := Some (b2, None)\<rparr>)"
    using m1 c tx(2) a i by (simp add: onNewTx_def)
  ultimately show ?thesis by auto
qed

definition sample_waiting :: processor where
  "sample_waiting = sample_node\<lparr>p_txQueue := \<lparr>txMap = [tx_ID sample_crypto sample_payment \<mapsto> 0],
     txQueue = \<lparr>gl_elems = [(0, sample_payment)], gl_next = 1\<rparr>, balanceCache = NewBalanceCache 0\<rparr>\<rparr>"

theorem late_notice_spoils_block_witness:
  "\<exists>m1 m2 b hs. beginBlock sample_crypto sample_chance 371 (Some (Header sample_first)) sample_waiting sample_miner = Inr m1
    \<and> onNewTx sample_crypto \<lparr>nt_TransactionID = tx_ID sample_crypto sample_payment, nt_Transaction = sample_payment, nt_Source = []\<rparr> m1 = Inr m2
    \<and> m_block m2 = Some (b, hs) \<and> (\<forall>header. checkBlock sample_crypto 5 ((block.truncate b)\<lparr>Header := header\<rparr>) 0 \<noteq> Inr ())"
proof -
  let ?h = "Header sample_first" and ?p = sample_waiting
  have h: "Height ?h = 0" "Target ?h = 1000" "ChainWork ?h = 1" "bh_Time ?h = 0"
    by (simp_all add: sample_first_def sample_genesis_def sample_block_def)
  have q: "tq_txs (p_txQueue ?p) = [sample_payment]" by (simp add: sample_waiting_def tq_txs_def elements_def)
  have g: "tq_Get 9999 (p_txQueue ?p) = Inr [sample_payment]"
    by (simp add: tq_Get_def sample_waiting_def elements_def list_Len_def)
  have "getHeader (p_blockStore ?p) (Previous ?h) = Inr None"
    by (simp add: sample_waiting_def sample_node_def NewProcessor_def sample_store_def getHeader_def bs_GetBlockHeader_def)
  then have "collectTimestamps (Suc 10) (p_blockStore ?p) ?h [] = Inr [0]"
    by (simp only: collectTimestamps.simps bindE_simps option.case append_Nil h)
  then have med: "computeMedianTimestamp ?h (p_blockStore ?p) = Inr 0" by (simp add: computeMedianTimestamp_def)
  have t: "computeTarget ?h (p_blockStore ?p) (p_ledger ?p) = Inr 1000"
    by (simp add: computeTarget_def computeTargetBitcoin_def h i64_small signed_modulo_int_def signed_divide_int_def)
  have w: "\<exists>w. computeChainWork 1000 1 = Inr w"
    by (simp add: computeChainWork_def computeBlockWork_def SetBigInt_def GetBigInt_def)
  obtain b where b: "createNextBlock sample_crypto sample_chance 371 (Some ?h) (p_txQueue ?p) (p_blockStore ?p) (p_ledger ?p) (replicate 32 1) [] = Inr b"
    using w by (auto simp: createNextBlock_def g t h Let_def NewBlock_def computeHashListRoot_def)
  then obtain m1 where m1: "beginBlock sample_crypto sample_chance 371 (Some ?h) ?p sample_miner = Inr m1"
    using med by (simp add: beginBlock_def orPanic_def sample_miner_def Let_def)
  from late_notice_spoils_block [OF m1, of "\<lparr>nt_TransactionID = tx_ID sample_crypto sample_payment, nt_Transaction = sample_payment, nt_Source = []\<rparr>"] q m1
  show ?thesis by auto
qed

end
