(* ===== verification/Block_Storage_Disk.thy ===== *)
theory Block_Storage_Disk
  imports Block_Storage Leveldb
begin

text \<open>
  \<^verbatim>\<open>src/block_storage_disk.go\<close>: blocks as files of JSON text, compressed or not, and their headers in LevelDB. The
  directory is a map from file names to contents. The fault fields say which operations fail; a write that fails has
  written the first bytes of the block into the truncated file. The lz4 library and \<^verbatim>\<open>jsonparser\<close> are third-party
  code, and the decoders of \<^verbatim>\<open>encoding/json\<close> and \<^verbatim>\<open>encoding/gob\<close> work by reflection on the types; they are a
  parameter, and what is relied on is that they read back what was written.
\<close>

record codec =
  unmarshalBlock :: "bytes \<Rightarrow> block result"
  unmarshalTransaction :: "bytes \<Rightarrow> transaction result"
  unmarshalHeader :: "bytes \<Rightarrow> block_header result"
  jsonparserGet :: "bytes \<Rightarrow> bytes list \<Rightarrow> bytes result"
  gobEncode :: "block_header \<Rightarrow> bytes"
  gobDecode :: "bytes \<Rightarrow> block_header result"
  lz4Compress :: "bytes \<Rightarrow> bytes"
  lz4Uncompress :: "bytes \<Rightarrow> bytes result"

record disk_store =
  ds_db :: leveldb
  ds_files :: "bytes \<rightharpoonup> bytes"
  ds_readOnly :: bool
  ds_compress :: bool
  ds_openFault :: bool
  ds_shortWrite :: "nat option"
  ds_syncFault :: bool
  ds_closeFault :: bool
  ds_fileFault :: "bytes \<Rightarrow> bool"

definition encodeBlockHeader :: "codec \<Rightarrow> block_header \<Rightarrow> int \<Rightarrow> bytes" where
  "encodeBlockHeader c header when = be 8 when @ gobEncode c header"

definition decodeBlockHeader :: "codec \<Rightarrow> bytes \<Rightarrow> (block_header \<times> int) result" where
  "decodeBlockHeader c encodedHeader =
     bindE (read_i64 encodedHeader) (\<lambda>(when, buf).
       bindE (gobDecode c buf) (\<lambda>header. Inr (header, when)))"

definition ext :: "bool \<Rightarrow> bytes" where
  "ext compress = str (if compress then ''.lz4'' else ''.json'')"

text \<open>Opening with \<^verbatim>\<open>O_CREATE|O_TRUNC\<close>, writing, syncing and closing.\<close>

definition writeFile :: "bytes \<Rightarrow> bytes \<Rightarrow> disk_store \<Rightarrow> unit result \<times> disk_store" where
  "writeFile path content ds =
     (if ds_openFault ds then (Inl IOError, ds)
      else (case ds_shortWrite ds of
          Some n \<Rightarrow> (Inl IOError, ds\<lparr>ds_files := (ds_files ds)(path \<mapsto> take n content)\<rparr>)
        | None \<Rightarrow> (if ds_syncFault ds \<or> ds_closeFault ds then Inl IOError else Inr (), ds\<lparr>ds_files := (ds_files ds)(path \<mapsto> content)\<rparr>)))"

text \<open>
  Opening the storage: what \<^verbatim>\<open>os.Stat\<close> says about the directory, whether it can be created, the database if it
  opens, and what the directory contains. Where \<^verbatim>\<open>os.Stat\<close> fails for another reason than absence it returns no
  information, which is then dereferenced.
\<close>

datatype stat_result = NotExist | IsDirectory | NotDirectory | StatFailed

definition NewBlockStorageDisk ::
  "stat_result \<Rightarrow> bool \<Rightarrow> leveldb option \<Rightarrow> (bytes \<rightharpoonup> bytes) \<Rightarrow> bool \<Rightarrow> bool \<Rightarrow> disk_store result" where
  "NewBlockStorageDisk stat mkdirFault db files readOnly compress =
     bindE (if readOnly then Inr ()
            else (case stat of
                NotExist \<Rightarrow> if mkdirFault then Inl IOError else Inr ()
              | IsDirectory \<Rightarrow> Inr ()
              | NotDirectory \<Rightarrow> Inl (Err ''is not a directory'')
              | StatFailed \<Rightarrow> Inl (Panic ''nil pointer dereference'')))
       (\<lambda>_. case db of None \<Rightarrow> Inl IOError
            | Some db \<Rightarrow> Inr \<lparr>ds_db = db, ds_files = files, ds_readOnly = readOnly, ds_compress = compress,
                ds_openFault = False, ds_shortWrite = None, ds_syncFault = False, ds_closeFault = False,
                ds_fileFault = (\<lambda>_. False)\<rparr>)"

definition ds_Store :: "codec \<Rightarrow> block_id \<Rightarrow> block \<Rightarrow> int \<Rightarrow> disk_store \<Rightarrow> unit result \<times> disk_store" where
  "ds_Store c i b now ds =
     (if ds_readOnly ds then (Inl (Err ''Block storage is in read-only mode''), ds)
      else let blockBytes = (if ds_compress ds then lz4Compress c (block_json b) else block_json b)
           in bindS (writeFile (id_String i @ ext (ds_compress ds)) blockBytes ds) (\<lambda>_ ds.
             case db_Write [Put (id_bytes i) (encodeBlockHeader c (Header b) now)] (ds_db ds) of
               (r, db) \<Rightarrow> (r, ds\<lparr>ds_db := db\<rparr>)))"

definition IsNotExist :: "disk_store \<Rightarrow> bytes \<Rightarrow> bool" where
  "IsNotExist ds path \<longleftrightarrow> ds_files ds path = None \<and> \<not> ds_fileFault ds path"

definition ReadFile :: "disk_store \<Rightarrow> bytes \<Rightarrow> bytes result" where
  "ReadFile ds path =
     (if ds_fileFault ds path then Inl IOError else case ds_files ds path of None \<Rightarrow> Inl IOError | Some x \<Rightarrow> Inr x)"

definition ds_GetBlockBytes :: "codec \<Rightarrow> disk_store \<Rightarrow> block_id \<Rightarrow> bytes option result" where
  "ds_GetBlockBytes c ds i =
     (let first = id_String i @ ext (ds_compress ds); second = id_String i @ ext (\<not> ds_compress ds);
          (compressed, blockPath) = (if IsNotExist ds first then (\<not> ds_compress ds, second) else (ds_compress ds, first))
      in if IsNotExist ds first \<and> IsNotExist ds second then Inr None
         else bindE (ReadFile ds blockPath) (\<lambda>blockBytes.
           if compressed then bindE (lz4Uncompress c blockBytes) (\<lambda>out. Inr (Some out)) else Inr (Some blockBytes)))"

definition ds_GetBlock :: "codec \<Rightarrow> disk_store \<Rightarrow> block_id \<Rightarrow> block option result" where
  "ds_GetBlock c ds i =
     bindE (ds_GetBlockBytes c ds i) (\<lambda>blockJson.
       bindE (unmarshalBlock c (octets blockJson)) (\<lambda>block. Inr (Some block)))"

definition ds_GetBlockHeader :: "codec \<Rightarrow> disk_store \<Rightarrow> block_id \<Rightarrow> (block_header \<times> int) option result" where
  "ds_GetBlockHeader c ds i =
     bindE (db_Get (ds_db ds) (id_bytes i)) (\<lambda>encodedHeader.
       case encodedHeader of None \<Rightarrow> Inr None
       | Some encodedHeader \<Rightarrow> bindE (decodeBlockHeader c encodedHeader) (\<lambda>h. Inr (Some h)))"

definition ds_GetTransaction ::
  "codec \<Rightarrow> disk_store \<Rightarrow> block_id \<Rightarrow> int \<Rightarrow> (transaction \<times> block_header) option result" where
  "ds_GetTransaction c ds i index =
     bindE (ds_GetBlockBytes c ds i) (\<lambda>blockJson.
       bindE (jsonparserGet c (octets blockJson) [str ''transactions'', [91] @ itoa index @ [93]]) (\<lambda>txJson.
       bindE (unmarshalTransaction c txJson) (\<lambda>tx.
       bindE (jsonparserGet c (octets blockJson) [str ''header'']) (\<lambda>hdrJson.
       bindE (unmarshalHeader c hdrJson) (\<lambda>header. Inr (Some (tx, header)))))))"

section \<open>What is relied on\<close>

text \<open>That the decoders read back the text of a block and its parts, and that empty text is no block.\<close>

definition decodes :: "codec \<Rightarrow> block \<Rightarrow> bool" where
  "decodes c b \<longleftrightarrow> unmarshalBlock c (block_json b) = Inr b
     \<and> lz4Uncompress c (lz4Compress c (block_json b)) = Inr (block_json b)
     \<and> gobDecode c (gobEncode c (Header b)) = Inr (Header b)
     \<and> jsonparserGet c (block_json b) [str ''header''] = Inr (header_json (Header b))
     \<and> unmarshalHeader c (header_json (Header b)) = Inr (Header b)
     \<and> (\<forall>n. jsonparserGet c (block_json b) [str ''transactions'', [91] @ itoa n @ [93]] =
          (if 0 \<le> n \<and> n < int (length (Transactions b)) then Inr (tx_json (Transactions b ! nat n))
           else Inl (Err ''Key path not found'')))
     \<and> (\<forall>tx \<in> set (Transactions b). unmarshalTransaction c (tx_json tx) = Inr tx)"

definition rejectsEmpty :: "codec \<Rightarrow> bool" where
  "rejectsEmpty c \<longleftrightarrow> unmarshalBlock c [] = Inl (Err ''unexpected end of JSON input'')
     \<and> (\<forall>path. jsonparserGet c [] path = Inl (Err ''Key path not found''))"

text \<open>A store written by \<^verbatim>\<open>Store\<close> alone: every file is a whole block, every entry a header and a time.\<close>

definition ds_inv :: "codec \<Rightarrow> disk_store \<Rightarrow> bool" where
  "ds_inv c ds \<longleftrightarrow> (\<forall>i z x. ds_files ds (id_String i @ ext z) = Some x \<longrightarrow>
       (\<exists>b. decodes c b \<and> x = (if z then lz4Compress c (block_json b) else block_json b)))
     \<and> (\<forall>i v. db_at (ds_db ds) (id_bytes i) = Some v \<longrightarrow>
       (\<exists>h w. int64 w \<and> gobDecode c (gobEncode c h) = Inr h \<and> v = encodeBlockHeader c h w))"

definition ds_readable :: "disk_store \<Rightarrow> bool" where
  "ds_readable ds \<longleftrightarrow> (\<forall>p. \<not> ds_fileFault ds p) \<and> (\<forall>k. \<not> readFault (ds_db ds) k)"

text \<open>The store its clients see.\<close>

definition abs_store :: "codec \<Rightarrow> disk_store \<Rightarrow> block_store" where
  "abs_store c ds = \<lparr>bs_readOnly = ds_readOnly ds,
     bs_blocks = (\<lambda>i. case ds_GetBlock c ds i of Inr bo \<Rightarrow> bo | Inl _ \<Rightarrow> None),
     bs_headers = (\<lambda>i. case ds_GetBlockHeader c ds i of Inr ho \<Rightarrow> ho | Inl _ \<Rightarrow> None),
     bs_readFault = (\<lambda>_. False), bs_writeBlockFault = ds_openFault ds, bs_writeHeaderFault = writeFault (ds_db ds)\<rparr>"

section \<open>Refinement\<close>

lemma path_inject [simp]: "id_String i @ ext y = id_String j @ ext z \<longleftrightarrow> i = j \<and> y = z"
  by (simp add: ext_def str_def split: if_splits)

lemma decode_encode_header:
  "int64 w \<Longrightarrow> gobDecode c (gobEncode c h) = Inr h \<Longrightarrow> decodeBlockHeader c (encodeBlockHeader c h w) = Inr (h, w)"
  by (simp add: decodeBlockHeader_def encodeBlockHeader_def read_i64_be)

lemma GetBlockBytes_inv:
  assumes "ds_inv c ds" "ds_readable ds"
  shows "ds_GetBlockBytes c ds i = Inr None \<or> (\<exists>b. decodes c b \<and> ds_GetBlockBytes c ds i = Inr (Some (block_json b)))"
proof -
  let ?f = "\<lambda>z. ds_files ds (id_String i @ ext z)"
  have f: "\<exists>b. decodes c b \<and> x = (if z then lz4Compress c (block_json b) else block_json b)" if "?f z = Some x" for z x
    using assms(1) that by (auto simp: ds_inv_def)
  have r: "IsNotExist ds p = (ds_files ds p = None)" "ReadFile ds p = (case ds_files ds p of None \<Rightarrow> Inl IOError | Some x \<Rightarrow> Inr x)" for p
    using assms(2) by (simp_all add: IsNotExist_def ReadFile_def ds_readable_def)
  let ?z = "if ?f (ds_compress ds) = None then \<not> ds_compress ds else ds_compress ds"
  show ?thesis
  proof (cases "?f ?z")
    case None
    then show ?thesis by (simp add: ds_GetBlockBytes_def r Let_def split: if_splits)
  next
    case (Some x)
    from f [OF this] obtain b where b: "decodes c b" "x = (if ?z then lz4Compress c (block_json b) else block_json b)" by blast
    then have "ds_GetBlockBytes c ds i = Inr (Some (block_json b))"
      using Some by (auto simp: ds_GetBlockBytes_def r Let_def decodes_def split: if_splits)
    with b(1) show ?thesis by blast
  qed
qed

lemma GetBlock_abs:
  assumes "ds_inv c ds" "ds_readable ds" "rejectsEmpty c"
  shows "ds_GetBlock c ds i = bs_GetBlock (abs_store c ds) i"
    "ds_GetTransaction c ds i n = bs_GetTransaction (abs_store c ds) i n"
  using GetBlockBytes_inv [OF assms(1,2), of i] assms(3)
  by (auto simp: ds_GetBlock_def ds_GetTransaction_def bs_GetBlock_def bs_GetTransaction_def abs_store_def decodes_def
      rejectsEmpty_def octets_def)

lemma GetBlockBytes_abs:
  assumes "ds_inv c ds" "ds_readable ds" "rejectsEmpty c"
  shows "ds_GetBlockBytes c ds i = bs_GetBlockBytes (abs_store c ds) i"
  using GetBlockBytes_inv [OF assms(1,2), of i] assms(3)
  by (auto simp: ds_GetBlock_def bs_GetBlockBytes_def abs_store_def decodes_def rejectsEmpty_def octets_def)

lemma GetBlockHeader_inv:
  assumes "ds_inv c ds" "ds_readable ds"
  shows "\<exists>ho. ds_GetBlockHeader c ds i = Inr ho"
proof (cases "db_at (ds_db ds) (id_bytes i)")
  case None
  with assms(2) show ?thesis by (simp add: ds_GetBlockHeader_def db_Get_def ds_readable_def db_at_def)
next
  case (Some v)
  with assms obtain h w where "int64 w" "gobDecode c (gobEncode c h) = Inr h" "v = encodeBlockHeader c h w"
    unfolding ds_inv_def by blast
  with Some assms(2) decode_encode_header [of w c h] show ?thesis
    by (auto simp: ds_GetBlockHeader_def db_Get_def ds_readable_def db_at_def)
qed

lemma GetBlockHeader_abs:
  assumes "ds_inv c ds" "ds_readable ds"
  shows "ds_GetBlockHeader c ds i = bs_GetBlockHeader (abs_store c ds) i"
  using GetBlockHeader_inv [OF assms, of i] by (auto simp: bs_GetBlockHeader_def abs_store_def)

text \<open>A complete file is read back, and no other block is affected.\<close>

lemma GetBlock_file:
  assumes "ds_readable ds" "decodes c b"
    and "ds' = ds\<lparr>ds_files := (ds_files ds)(id_String i @ ext (ds_compress ds) \<mapsto>
      (if ds_compress ds then lz4Compress c (block_json b) else block_json b)), ds_db := db\<rparr>"
  shows "ds_GetBlock c ds' j = (if j = i then Inr (Some b) else ds_GetBlock c ds j)"
  using assms
  by (auto simp: ds_GetBlock_def ds_GetBlockBytes_def IsNotExist_def ReadFile_def ds_readable_def decodes_def octets_def Let_def)

lemma GetBlockHeader_put:
  assumes "ds_readable ds" "int64 now" "gobDecode c (gobEncode c h) = Inr h" "\<not> writeFault (ds_db ds)"
    and "db_Write [Put (id_bytes i) (encodeBlockHeader c h now)] (ds_db ds) = (r, db)"
  shows "ds_GetBlockHeader c (ds\<lparr>ds_files := fs, ds_db := db\<rparr>) j = (if j = i then Inr (Some (h, now)) else ds_GetBlockHeader c ds j)"
  using assms decode_encode_header [OF assms(2,3)]
  by (auto simp: ds_GetBlockHeader_def db_Write_def db_Get_def ds_readable_def map_of_kv_put)

definition wholeWrites :: "disk_store \<Rightarrow> bool" where
  "wholeWrites ds \<longleftrightarrow> ds_shortWrite ds = None \<and> \<not> ds_syncFault ds \<and> \<not> ds_closeFault ds"

lemma Store_refines:
  assumes inv: "ds_inv c ds" and rd: "ds_readable ds" and w: "wholeWrites ds" and b: "decodes c b" "int64 now"
    and st: "ds_Store c i b now ds = (r, ds')"
  shows "bs_Store i b now (abs_store c ds) = (r, abs_store c ds')" "ds_inv c ds'"
proof -
  let ?p = "id_String i @ ext (ds_compress ds)"
  let ?x = "if ds_compress ds then lz4Compress c (block_json b) else block_json b"
  let ?fs = "(ds_files ds)(?p \<mapsto> ?x)"
  have g: "gobDecode c (gobEncode c (Header b)) = Inr (Header b)" using b(1) by (simp add: decodes_def)
  have "bs_Store i b now (abs_store c ds) = (r, abs_store c ds') \<and> ds_inv c ds'"
  proof (cases "ds_readOnly ds \<or> ds_openFault ds")
    case True
    with st inv show ?thesis by (auto simp: ds_Store_def bs_Store_def abs_store_def writeFile_def bindS_def)
  next
    case False
    obtain r' db where d: "db_Write [Put (id_bytes i) (encodeBlockHeader c (Header b) now)] (ds_db ds) = (r', db)" by force
    have ds': "ds' = ds\<lparr>ds_files := ?fs, ds_db := db\<rparr>" "r = r'"
      using st False w d by (auto simp: ds_Store_def writeFile_def bindS_def wholeWrites_def Let_def)
    have gb: "ds_GetBlock c ds' j = (if j = i then Inr (Some b) else ds_GetBlock c ds j)" for j
      unfolding ds'(1) by (rule GetBlock_file [OF rd b(1) refl])
    have files: "\<exists>b. decodes c b \<and> x = (if z then lz4Compress c (block_json b) else block_json b)"
      if "?fs (id_String j @ ext z) = Some x" for j z x
    proof (cases "j = i \<and> z = ds_compress ds")
      case True
      then show ?thesis using that b(1) by (intro exI [of _ b]) auto
    next
      case False
      then have "ds_files ds (id_String j @ ext z) = Some x" using that by (simp split: if_splits)
      then show ?thesis using inv unfolding ds_inv_def by blast
    qed
    show ?thesis
    proof (cases "writeFault (ds_db ds)")
      case True
      then have db: "db = ds_db ds" "r' = Inl IOError" using d by (auto simp: db_Write_def)
      have gh: "ds_GetBlockHeader c ds' j = ds_GetBlockHeader c ds j" for j
        by (simp add: ds'(1) db ds_GetBlockHeader_def)
      have "ds_inv c ds'" using files inv by (simp add: ds_inv_def ds'(1) db)
      with False True gb gh ds' db show ?thesis by (auto simp: bs_Store_def abs_store_def fun_eq_iff)
    next
      case nf: False
      have gh: "ds_GetBlockHeader c ds' j = (if j = i then Inr (Some (Header b, now)) else ds_GetBlockHeader c ds j)" for j
        unfolding ds'(1) by (rule GetBlockHeader_put [OF rd b(2) g nf d])
      have "db_at db (id_bytes j) = (if j = i then Some (encodeBlockHeader c (Header b) now) else db_at (ds_db ds) (id_bytes j))" for j
        using d nf by (auto simp: db_Write_def db_at_def map_of_kv_put)
      moreover have "writeFault db = writeFault (ds_db ds)" "r' = Inr ()" using d nf by (auto simp: db_Write_def)
      moreover from calculation(1) have "ds_inv c ds'"
        unfolding ds_inv_def ds'(1) using files inv b(2) g unfolding ds_inv_def by (auto split: if_splits)
      ultimately show ?thesis using False nf gb gh ds' by (auto simp: bs_Store_def abs_store_def fun_eq_iff)
    qed
  qed
  then show "bs_Store i b now (abs_store c ds) = (r, abs_store c ds')" "ds_inv c ds'" by auto
qed

text \<open>Stores opened on empty directories and written only by \<^verbatim>\<open>Store\<close>, with files written whole or not opened.\<close>

inductive ds_reach :: "codec \<Rightarrow> disk_store \<Rightarrow> bool" for c where
  new: "NewBlockStorageDisk stat mkdirFault (Some db) Map.empty readOnly compress = Inr ds \<Longrightarrow> entries db = [] \<Longrightarrow> ds_reach c ds"
| store: "ds_reach c ds \<Longrightarrow> ds_readable ds \<Longrightarrow> wholeWrites ds \<Longrightarrow> decodes c b \<Longrightarrow> int64 now \<Longrightarrow>
    ds_Store c i b now ds = (r, ds') \<Longrightarrow> ds_reach c ds'"
| faults: "ds_reach c ds \<Longrightarrow> ds_files ds' = ds_files ds \<Longrightarrow> entries (ds_db ds') = entries (ds_db ds) \<Longrightarrow> ds_reach c ds'"

lemma ds_reach_inv: "ds_reach c ds \<Longrightarrow> ds_inv c ds"
proof (induction rule: ds_reach.induct)
  case (new stat mkdirFault db readOnly compress ds)
  then show ?case
    by (auto simp: NewBlockStorageDisk_def ds_inv_def db_at_def split: if_splits stat_result.splits)
next
  case (store ds b now i r ds')
  then show ?case using Store_refines(2) by blast
next
  case (faults ds ds')
  then show ?case by (simp add: ds_inv_def db_at_def)
qed

section \<open>Properties\<close>


definition sample_stored_block :: block where
  "sample_stored_block = \<lparr>Header = \<lparr>Previous = 0, HashListRoot = 0, bh_Time = 0, Target = 1, ChainWork = 1,
     bh_Nonce = 1, Height = 0, TransactionCount = 1\<rparr>, Transactions = [sample_tx]\<rparr>"

definition sample_codec :: codec where
  "sample_codec = \<lparr>unmarshalBlock = (\<lambda>x. if x = block_json sample_stored_block then Inr sample_stored_block
       else Inl (Err ''unexpected end of JSON input'')),
     unmarshalTransaction = (\<lambda>x. Inr sample_tx), unmarshalHeader = (\<lambda>x. Inr (Header sample_stored_block)),
     jsonparserGet = (\<lambda>x path. if x = [] then Inl (Err ''Key path not found'')
       else if path = [str ''header''] then Inr (header_json (Header sample_stored_block))
       else if path = [str ''transactions'', [91] @ itoa 0 @ [93]] then Inr (tx_json sample_tx)
       else Inl (Err ''Key path not found'')),
     gobEncode = (\<lambda>h. header_json h), gobDecode = (\<lambda>x. Inr (Header sample_stored_block)),
     lz4Compress = rev, lz4Uncompress = (\<lambda>x. Inr (rev x))\<rparr>"

lemma block_json_ne: "block_json b \<noteq> []"
  by (simp add: block_json_def)

lemma sample_codec_ok: "decodes sample_codec sample_stored_block" "rejectsEmpty sample_codec"
  using block_json_ne [of sample_stored_block]
  by (auto simp: decodes_def rejectsEmpty_def sample_codec_def sample_stored_block_def)

definition sample_disk :: disk_store where
  "sample_disk = \<lparr>ds_db = \<lparr>entries = [], readFault = \<lambda>_. False, writeFault = False, iterFault = False\<rparr>,
     ds_files = Map.empty, ds_readOnly = False, ds_compress = True, ds_openFault = False, ds_shortWrite = None,
     ds_syncFault = False, ds_closeFault = False, ds_fileFault = (\<lambda>_. False)\<rparr>"

lemma sample_disk_ok: "ds_reach c sample_disk" "ds_readable sample_disk" "wholeWrites sample_disk"
proof -
  show "ds_reach c sample_disk"
    by (rule ds_reach.new [of IsDirectory False "ds_db sample_disk" False True])
      (simp_all add: NewBlockStorageDisk_def sample_disk_def)
qed (simp_all add: ds_readable_def wholeWrites_def sample_disk_def)


text \<open>
  C34 (error). Whatever fails in \<^verbatim>\<open>Store\<close>, and however much of the file has been written by then, no other block is
  affected, and the header is recorded only when the whole block is in its file: after an error the database is as it
  was, so a header never refers to a block that was not completely written at that time.
\<close>

theorem store_failure_contained:
  assumes "ds_Store c i b now ds = (r, ds')"
  shows "(\<forall>j. j \<noteq> i \<longrightarrow> ds_GetBlock c ds' j = ds_GetBlock c ds j \<and> ds_GetBlockHeader c ds' j = ds_GetBlockHeader c ds j
      \<and> ds_GetTransaction c ds' j n = ds_GetTransaction c ds j n)
    \<and> (r \<noteq> Inr () \<longrightarrow> ds_db ds' = ds_db ds)
    \<and> (ds_db ds' \<noteq> ds_db ds \<longrightarrow> ds_files ds' (id_String i @ ext (ds_compress ds))
        = Some (if ds_compress ds then lz4Compress c (block_json b) else block_json b))"
proof -
  let ?p = "id_String i @ ext (ds_compress ds)"
  obtain fo db where ds': "ds' = ds\<lparr>ds_files := (ds_files ds)(?p := fo), ds_db := db\<rparr>"
    and db: "db = ds_db ds \<and> r \<noteq> Inr () \<or> r = Inr () \<and>
      db_Write [Put (id_bytes i) (encodeBlockHeader c (Header b) now)] (ds_db ds) = (Inr (), db)
      \<and> fo = Some (if ds_compress ds then lz4Compress c (block_json b) else block_json b)"
  proof -
    have same: "ds = ds\<lparr>ds_files := (ds_files ds)(?p := ds_files ds ?p), ds_db := ds_db ds\<rparr>" by simp
    show ?thesis
    proof (cases "ds_readOnly ds \<or> ds_openFault ds")
      case True
      with assms have "ds' = ds" "r \<noteq> Inr ()" by (auto simp: ds_Store_def writeFile_def bindS_def Let_def split: if_splits)
      with same that show ?thesis by metis
    next
      case False
      with assms that show ?thesis
        by (auto simp: ds_Store_def writeFile_def bindS_def Let_def db_Write_def split: option.splits if_splits)
    qed
  qed
  have f: "ds_GetBlockBytes c ds' j = ds_GetBlockBytes c ds j" if "j \<noteq> i" for j
    using that by (simp add: ds' ds_GetBlockBytes_def IsNotExist_def ReadFile_def Let_def)
  moreover have "ds_GetBlockHeader c ds' j = ds_GetBlockHeader c ds j" if "j \<noteq> i" for j
    using that db by (auto simp: ds' ds_GetBlockHeader_def db_Get_def db_Write_def map_of_kv_put split: if_splits)
  ultimately show ?thesis using db by (auto simp: ds' ds_GetBlock_def ds_GetTransaction_def)
qed

theorem store_failure_contained_witness:
  "\<exists>ds'. ds_Store sample_codec 7 sample_stored_block 9 (sample_disk\<lparr>ds_shortWrite := Some 3\<rparr>) = (Inl IOError, ds')
    \<and> ds_db ds' = ds_db sample_disk \<and> ds_GetBlock sample_codec ds' 8 = ds_GetBlock sample_codec (sample_disk\<lparr>ds_shortWrite := Some 3\<rparr>) 8"
proof -
  let ?ds = "sample_disk\<lparr>ds_shortWrite := Some 3\<rparr>"
  obtain r ds' where s: "ds_Store sample_codec 7 sample_stored_block 9 ?ds = (r, ds')" by force
  then have r: "r = Inl IOError"
    by (auto simp: ds_Store_def sample_disk_def writeFile_def bindS_def Let_def)
  from store_failure_contained [OF s] s r show ?thesis by auto
qed

end
