(* ===== verification/Spec2Isabelle.thy ===== *)
theory Spec2Isabelle
  imports Client Miner_Props Block_Queue Block_Storage_Disk Ledger_Queries
begin

text \<open>
  A verification library for cruzbit, a peer-to-peer ledger node written in Go.
\<close>

section \<open>A node as a whole\<close>







lemma image_snd_iff: "k \<in> snd ` A \<longleftrightarrow> (\<exists>a. (a, k) \<in> A)"
  by force





end
